(* ===== verification/Prelude.thy ===== *)
theory Prelude
  imports Main "HOL-Library.Word" "HOL-Library.List_Lexorder" "HOL-Library.Sublist"
begin

text \<open>
  The vocabulary every component shares: Go's \<^verbatim>\<open>[]byte\<close> as a list of 8-bit words, ordered as
  \<^verbatim>\<open>bytes.Compare\<close> orders it (lexicographically, a proper prefix first, which is the list
  order of \<^verbatim>\<open>HOL-Library.List_Lexorder\<close>), the machine integers, \<^verbatim>\<open>bytes.IndexByte\<close> of Go's
  standard library, and the facts on lexicographic order, big-endian values and sorted
  association lists that the component theories rest on.
\<close>

unbundle bit_operations_syntax

type_synonym byte = "8 word"
type_synonym bytes = "byte list"
type_synonym uint32 = "32 word"
type_synonym uint64 = "64 word"
type_synonym int32 = "32 word"
type_synonym int64 = "64 word"

named_theorems go_simps \<open>unfolding equations of the modelled Go functions\<close>
named_theorems order_intros \<open>introduction rules for the byte-string order\<close>

section \<open>Definitions\<close>

text \<open>\<^verbatim>\<open>bytes.IndexByte\<close>: the first index of a byte, \<^verbatim>\<open>-1\<close> (here \<^const>\<open>None\<close>) without one.\<close>

fun index_byte :: "bytes \<Rightarrow> byte \<Rightarrow> nat option" where
  "index_byte [] c = None"
| "index_byte (b # bs) c = (if b = c then Some 0 else map_option Suc (index_byte bs c))"

text \<open>The number a byte string denotes in big-endian notation.\<close>

fun be_val :: "bytes \<Rightarrow> nat" where
  "be_val [] = 0"
| "be_val (b # bs) = unat b * 256 ^ length bs + be_val bs"

text \<open>The low \<open>k\<close> bytes of a word, most significant first.\<close>

fun be_bytes :: "nat \<Rightarrow> 'a::len word \<Rightarrow> bytes" where
  "be_bytes 0 v = []"
| "be_bytes (Suc k) v = ucast (drop_bit (8 * k) v) # be_bytes k v"

text \<open>The word a byte string shifts in, starting from \<open>acc\<close>.\<close>

fun be_word :: "bytes \<Rightarrow> 'a::len word \<Rightarrow> 'a word" where
  "be_word [] acc = acc"
| "be_word (b # bs) acc = be_word bs (push_bit 8 acc OR ucast b)"

text \<open>Sequencing of fallible computations: the first error is the result.\<close>

fun bindE :: "'e + 'a \<Rightarrow> ('a \<Rightarrow> 'e + 'b) \<Rightarrow> 'e + 'b" where
  "bindE (Inl e) f = Inl e"
| "bindE (Inr x) f = f x"

text \<open>
  Stateful fallible computations: the state is returned on every path, so what was written before
  an error stays written.
\<close>

type_synonym ('s, 'e, 'a) op = "'s \<Rightarrow> ('e + 'a) \<times> 's"

definition ret :: "'a \<Rightarrow> ('s, 'e, 'a) op" where
  "ret x s = (Inr x, s)"

definition fail :: "'e \<Rightarrow> ('s, 'e, 'a) op" where
  "fail e s = (Inl e, s)"

definition bindM :: "('s, 'e, 'a) op \<Rightarrow> ('a \<Rightarrow> ('s, 'e, 'b) op) \<Rightarrow> ('s, 'e, 'b) op" where
  "bindM m f s = (case m s of (Inl e, s') \<Rightarrow> (Inl e, s') | (Inr x, s') \<Rightarrow> f x s')"

text \<open>Replace the error of a computation, as \<^verbatim>\<open>if err != nil { return wrap(err) }\<close> does.\<close>

definition mapErr :: "('e \<Rightarrow> 'e2) \<Rightarrow> ('s, 'e, 'a) op \<Rightarrow> ('s, 'e2, 'a) op" where
  "mapErr g m s = (case m s of (Inl e, s') \<Rightarrow> (Inl (g e), s') | (Inr x, s') \<Rightarrow> (Inr x, s'))"

section \<open>Byte search\<close>

lemma index_byte_Some:
  "index_byte bs c = Some i \<Longrightarrow> i < length bs \<and> bs ! i = c \<and> c \<notin> set (take i bs)"
proof (induction bs arbitrary: i)
  case Nil
  then show ?case by simp
next
  case (Cons b bs)
  then show ?case by (cases i) (auto split: if_splits)
qed

lemma index_byte_None: "index_byte bs c = None \<longleftrightarrow> c \<notin> set bs"
  by (induction bs) auto

lemma index_byte_append_notin:
  "c \<notin> set xs \<Longrightarrow> index_byte (xs @ c # ys) c = Some (length xs)"
  by (induction xs) auto

section \<open>Fallible computations\<close>

lemma bindE_eq_Inr: "bindE r f = Inr y \<longleftrightarrow> (\<exists>x. r = Inr x \<and> f x = Inr y)"
  by (cases r) auto

lemma bindE_cong [fundef_cong]:
  "r = r' \<Longrightarrow> (\<And>x. r' = Inr x \<Longrightarrow> f x = f' x) \<Longrightarrow> bindE r f = bindE r' f'"
  by (cases r') auto

lemma bindM_simps [simp]:
  "m s = (Inr x, s') \<Longrightarrow> bindM m f s = f x s'"
  "m s = (Inl e, s') \<Longrightarrow> bindM m f s = (Inl e, s')"
  by (simp_all add: bindM_def)

lemma bindM_cong [fundef_cong]:
  "m = m' \<Longrightarrow> (\<And>x. f x = f' x) \<Longrightarrow> bindM m f = bindM m' f'"
  by (metis ext)

lemma bindM_ret [simp]: "bindM (ret x) f = f x"
  by (rule ext) (simp add: bindM_def ret_def)

lemma bindM_fail [simp]: "bindM (fail e) f = fail e"
  by (rule ext) (simp add: bindM_def fail_def)

lemma ret_apply [simp]: "ret x s = (Inr x, s)"
  by (simp add: ret_def)

lemma fail_apply [simp]: "fail e s = (Inl e, s)"
  by (simp add: fail_def)

lemma mapErr_Inr [simp]: "m s = (Inr x, s') \<Longrightarrow> mapErr g m s = (Inr x, s')"
  by (simp add: mapErr_def)

lemma mapErr_Inl [simp]: "m s = (Inl e, s') \<Longrightarrow> mapErr g m s = (Inl (g e), s')"
  by (simp add: mapErr_def)

section \<open>Lexicographic order\<close>

lemma bytes_append_less [simp]: "xs @ ys < xs @ zs \<longleftrightarrow> ys < (zs :: bytes)"
  by (induction xs) auto

lemma bytes_append_le [simp]: "xs @ ys \<le> xs @ zs \<longleftrightarrow> ys \<le> (zs :: bytes)"
  by (induction xs) auto

lemma bytes_less_append [order_intros]: "ys \<noteq> [] \<Longrightarrow> xs < xs @ (ys :: bytes)"
  by (induction xs) (auto simp: neq_Nil_conv)

text \<open>Two equally long prefixes decide the order unless they are equal.\<close>

lemma bytes_less_prefix:
  "length a = length b \<Longrightarrow> a < b \<Longrightarrow> a @ s < b @ (t :: bytes)"
  by (induction a b rule: list_induct2) auto

lemma be_val_bound: "be_val bs < 256 ^ length bs"
proof (induction bs)
  case Nil
  then show ?case by simp
next
  case (Cons b bs)
  have "unat b < 256" using unsigned_less [of b] by simp
  then have "unat b + 1 \<le> 256" by simp
  then have "(unat b + 1) * 256 ^ length bs \<le> 256 * 256 ^ length bs"
    by (rule mult_le_mono1)
  moreover have "be_val (b # bs) < (unat b + 1) * 256 ^ length bs"
    using Cons by (simp add: algebra_simps)
  ultimately have "be_val (b # bs) < 256 * 256 ^ length bs" by linarith
  then show ?case by simp
qed

lemma be_val_less_iff:
  "length a = length b \<Longrightarrow> be_val a < be_val b \<longleftrightarrow> a < (b :: bytes)"
proof (induction a b rule: list_induct2)
  case Nil
  then show ?case by simp
next
  case (Cons x xs y ys)
  let ?m = "256 ^ length ys :: nat"
  have bx: "be_val xs < ?m" and by': "be_val ys < ?m"
    using be_val_bound [of xs] be_val_bound [of ys] Cons.hyps by simp_all
  consider "unat x < unat y" | "unat x = unat y" | "unat y < unat x" by linarith
  then show ?case
  proof cases
    case 1
    then have "(unat x + 1) * ?m \<le> unat y * ?m" by (intro mult_le_mono1) simp
    with 1 bx Cons.hyps show ?thesis by (simp add: word_less_nat_alt)
  next
    case 2
    with Cons show ?thesis by (simp add: word_less_nat_alt word_unat_eq_iff)
  next
    case 3
    then have "(unat y + 1) * ?m \<le> unat x * ?m" by (intro mult_le_mono1) simp
    with 3 by' Cons.hyps show ?thesis by (auto simp add: word_less_nat_alt)
  qed
qed

lemma be_bytes_length [simp]: "length (be_bytes k v) = k"
  by (induction k) auto

lemma be_val_be_bytes: "be_val (be_bytes k v) = unat v mod 256 ^ k"
proof (induction k)
  case 0
  then show ?case by simp
next
  case (Suc k)
  have "unat (ucast (drop_bit (8 * k) v) :: byte) = unat v div 256 ^ k mod 256"
    unfolding unsigned_ucast_eq unsigned_drop_bit_eq
    by (simp add: drop_bit_eq_div power_mult take_bit_eq_mod)
  moreover have "unat v mod 256 ^ Suc k
      = 256 ^ k * (unat v div 256 ^ k mod 256) + unat v mod 256 ^ k"
    using mod_mult2_eq [of "unat v" "256 ^ k" 256] by (simp add: mult.commute)
  ultimately show ?case using Suc by simp
qed

lemma be_val_inject: "length a = length b \<Longrightarrow> be_val a = be_val b \<Longrightarrow> a = (b :: bytes)"
  using be_val_less_iff [of a b] be_val_less_iff [of b a] by (metis less_irrefl not_less_iff_gr_or_eq)

lemma be_word_be_bytes: "be_word (be_bytes k v) (drop_bit (8 * k) v) = v"
proof (induction k)
  case 0
  then show ?case by simp
next
  case (Suc k)
  have "push_bit 8 (drop_bit (8 * Suc k) v) OR ucast (ucast (drop_bit (8 * k) v) :: byte)
      = drop_bit (8 * k) v"
    by (rule bit_word_eqI) (auto simp: bit_simps not_less add.commute)
  with Suc show ?case by (simp del: mult_Suc_right)
qed

lemma be_word_val:
  "be_word bs acc = acc * 256 ^ length bs + (word_of_nat (be_val bs) :: 'a::len word)"
proof (induction bs arbitrary: acc)
  case Nil
  then show ?case by simp
next
  case (Cons b bs)
  have "push_bit 8 acc OR ucast b = acc * 256 + (ucast b :: 'a word)"
  proof -
    have "push_bit 8 acc AND ucast b = (0 :: 'a word)"
      by (rule bit_word_eqI) (auto simp: bit_simps not_le dest: bit_imp_le_length)
    then have "push_bit 8 acc + ucast b = push_bit 8 acc OR (ucast b :: 'a word)"
      by (rule disjunctive_add_eq_or)
    then show ?thesis by (simp add: push_bit_eq_mult)
  qed
  moreover have "(word_of_nat (unat b) :: 'a word) = ucast b"
    by transfer simp
  ultimately show ?case using Cons by (simp add: algebra_simps)
qed

lemma be_bytes_be_word:
  assumes "8 * length bs \<le> LENGTH('a::len)"
  shows "be_bytes (length bs) (be_word bs 0 :: 'a word) = bs"
proof (rule be_val_inject)
  have "be_val bs < 2 ^ (8 * length bs)"
    using be_val_bound [of bs] by (simp add: power_mult)
  also have "(2 :: nat) ^ (8 * length bs) \<le> 2 ^ LENGTH('a)"
    using assms by (intro power_increasing) auto
  finally have "unat (word_of_nat (be_val bs) :: 'a word) = be_val bs"
    by (simp add: unat_of_nat)
  then show "be_val (be_bytes (length bs) (be_word bs 0 :: 'a word)) = be_val bs"
    using be_val_bound [of bs] by (simp add: be_val_be_bytes be_word_val)
qed simp

lemma unat_word_bound: "unat (v :: 'a::len word) < 2 ^ LENGTH('a)"
  by (rule unsigned_less)

lemma NOT_less_NOT_iff [simp]: "NOT v < NOT w \<longleftrightarrow> w < (v :: 'a::len word)"
proof -
  have not: "unat (NOT u) = 2 ^ LENGTH('a) - 1 - unat u" for u :: "'a word"
  proof -
    have "NOT u = -1 - u" by (simp add: not_eq_complement)
    then show ?thesis by (simp add: unat_sub unsigned_minus_1_eq_mask mask_eq_exp_minus_1)
  qed
  show ?thesis
    using unat_word_bound [of v] unat_word_bound [of w] unfolding word_less_nat_alt not by linarith
qed

section \<open>Words\<close>

lemma unat_drop_bit: "unat (drop_bit n w) = unat w div 2 ^ n"
  by (subst unsigned_drop_bit_eq) (simp add: drop_bit_eq_div take_bit_nat_eq_self)

lemma unat_drop_bit_less: "w \<noteq> 0 \<Longrightarrow> 0 < n \<Longrightarrow> unat (drop_bit n w) < unat w"
  by (simp only: unat_drop_bit)
    (auto intro!: div_less_dividend one_less_power [where 'a = nat, simplified] simp: unat_gt_0)

section \<open>Frames\<close>

text \<open>
  What every run of an operation keeps, whatever its result: the operation relates its initial and
  final state by a relation \<open>R\<close>. For a reflexive and transitive \<open>R\<close> this is closed under sequencing.
\<close>

definition always :: "('s \<Rightarrow> 's \<Rightarrow> bool) \<Rightarrow> ('s, 'e, 'a) op \<Rightarrow> bool" where
  "always R m \<longleftrightarrow> (\<forall>s. R s (snd (m s)))"

named_theorems frame_intros \<open>rules that show what an operation keeps\<close>

lemma alwaysI: "(\<And>s. R s (snd (m s))) \<Longrightarrow> always R m"
  by (simp add: always_def)

lemma alwaysD: "always R m \<Longrightarrow> m s = (x, s') \<Longrightarrow> R s s'"
  by (metis always_def snd_conv)

lemma always_if [frame_intros]:
  "(b \<Longrightarrow> always R m) \<Longrightarrow> (\<not> b \<Longrightarrow> always R n) \<Longrightarrow> always R (if b then m else n)"
  by simp

lemma always_option [frame_intros]:
  "always R m \<Longrightarrow> (\<And>x. always R (n x)) \<Longrightarrow> always R (case y of None \<Rightarrow> m | Some x \<Rightarrow> n x)"
  by (cases y) auto

lemma always_sum [frame_intros]:
  "(\<And>x. always R (m x)) \<Longrightarrow> (\<And>x. always R (n x)) \<Longrightarrow> always R (case y of Inl x \<Rightarrow> m x | Inr x \<Rightarrow> n x)"
  by (cases y) auto

lemma always_prod [frame_intros]:
  "(\<And>x y. always R (m x y)) \<Longrightarrow> always R (case z of (x, y) \<Rightarrow> m x y)"
  by (cases z) auto

lemma always_list [frame_intros]:
  "always R m \<Longrightarrow> (\<And>x xs. always R (n x xs)) \<Longrightarrow> always R (case y of [] \<Rightarrow> m | x # xs \<Rightarrow> n x xs)"
  by (cases y) auto

lemma always_Let [frame_intros]: "(\<And>x. always R (f x)) \<Longrightarrow> always R (Let y f)"
  by simp

lemma always_mapErr [frame_intros]: "always R m \<Longrightarrow> always R (mapErr g m)"
  by (auto simp: always_def mapErr_def split: prod.splits sum.splits) (metis snd_conv)+

locale frame =
  fixes R :: "'s \<Rightarrow> 's \<Rightarrow> bool"
  assumes R_refl: "R s s" and R_trans: "R s t \<Longrightarrow> R t u \<Longrightarrow> R s u"
begin

lemma always_ret [frame_intros]: "always R (ret x)"
  by (simp add: always_def R_refl)

lemma always_fail [frame_intros]: "always R (fail e)"
  by (simp add: always_def R_refl)

lemma always_bind [frame_intros]:
  assumes "always R m" "\<And>x. always R (f x)"
  shows "always R (bindM m f)"
proof (rule alwaysI)
  fix s
  obtain r s1 where m: "m s = (r, s1)" by (cases "m s")
  then have "R s s1" by (rule alwaysD [OF assms(1)])
  then show "R s (snd (bindM m f s))"
    using R_trans assms(2) by (cases r) (auto simp: m always_def)
qed

lemma always_steps: "(\<And>x y. step x y \<Longrightarrow> R x y) \<Longrightarrow> step\<^sup>*\<^sup>* x y \<Longrightarrow> R x y"
  by (erule rtranclp_induct) (auto intro: R_refl R_trans)

end

end
