(* ===== verification/Encoding.thy ===== *)
theory Encoding
  imports Prelude
begin

text \<open>
  \<^verbatim>\<open>src/util/encoding/encoding.go\<close>: the order-preserving encodings behind every key of the
  store. Fixed-width integers are written big-endian (complemented for the decreasing
  variants); byte strings are escaped and terminated so that the encoding of one key is
  never a prefix of the encoding of another and the order of encodings is the order of keys.
  Proved: both directions of the round trip, the error branches of the decoder, and that
  the encodings preserve (or reverse) the order.
\<close>

section \<open>Definitions\<close>

datatype enc_error =
    InsufficientBytes \<comment> \<open>insufficient bytes to decode an integer value\<close>
  | NoTerminator      \<comment> \<open>did not find terminator\<close>
  | MalformedEscape   \<comment> \<open>malformed escape\<close>
  | UnknownEscape     \<comment> \<open>unknown escape\<close>

definition EncodeUint32 :: "bytes \<Rightarrow> uint32 \<Rightarrow> bytes" where
  "EncodeUint32 b v =
     b @ [ucast (drop_bit 24 v), ucast (drop_bit 16 v), ucast (drop_bit 8 v), ucast v]"

definition EncodeUint32Decreasing :: "bytes \<Rightarrow> uint32 \<Rightarrow> bytes" where
  "EncodeUint32Decreasing b v = EncodeUint32 b (NOT v)"

definition DecodeUint32 :: "bytes \<Rightarrow> enc_error + bytes \<times> uint32" where
  "DecodeUint32 b =
     (if length b < 4 then Inl InsufficientBytes
      else Inr (drop 4 b,
        push_bit 24 (ucast (b ! 0)) OR push_bit 16 (ucast (b ! 1)) OR
        push_bit 8 (ucast (b ! 2)) OR ucast (b ! 3)))"

definition DecodeUint32Decreasing :: "bytes \<Rightarrow> enc_error + bytes \<times> uint32" where
  "DecodeUint32Decreasing b =
     (case DecodeUint32 b of Inl e \<Rightarrow> Inl e | Inr (leftover, v) \<Rightarrow> Inr (leftover, NOT v))"

definition EncodeUint64 :: "bytes \<Rightarrow> uint64 \<Rightarrow> bytes" where
  "EncodeUint64 b v =
     b @ [ucast (drop_bit 56 v), ucast (drop_bit 48 v), ucast (drop_bit 40 v),
          ucast (drop_bit 32 v), ucast (drop_bit 24 v), ucast (drop_bit 16 v),
          ucast (drop_bit 8 v), ucast v]"

definition EncodeUint64Decreasing :: "bytes \<Rightarrow> uint64 \<Rightarrow> bytes" where
  "EncodeUint64Decreasing b v = EncodeUint64 b (NOT v)"

definition DecodeUint64 :: "bytes \<Rightarrow> enc_error + bytes \<times> uint64" where
  "DecodeUint64 b =
     (if length b < 8 then Inl InsufficientBytes
      else Inr (drop 8 b,
        push_bit 56 (ucast (b ! 0)) OR push_bit 48 (ucast (b ! 1)) OR
        push_bit 40 (ucast (b ! 2)) OR push_bit 32 (ucast (b ! 3)) OR
        push_bit 24 (ucast (b ! 4)) OR push_bit 16 (ucast (b ! 5)) OR
        push_bit 8 (ucast (b ! 6)) OR ucast (b ! 7)))"

definition DecodeUint64Decreasing :: "bytes \<Rightarrow> enc_error + bytes \<times> uint64" where
  "DecodeUint64Decreasing b =
     (case DecodeUint64 b of Inl e \<Rightarrow> Inl e | Inr (leftover, v) \<Rightarrow> Inr (leftover, NOT v))"

record escapes =
  escape :: byte
  escapedTerm :: byte
  escaped00 :: byte
  escapedFF :: byte

definition ascendingEscapes :: escapes where
  "ascendingEscapes = \<lparr>escape = 0x00, escapedTerm = 0x01, escaped00 = 0xff, escapedFF = 0x00\<rparr>"

definition descendingEscapes :: escapes where
  "descendingEscapes =
     \<lparr>escape = NOT 0x00, escapedTerm = NOT 0x01, escaped00 = NOT 0xff, escapedFF = NOT 0x00\<rparr>"

function EncodeBytes :: "bytes \<Rightarrow> bytes \<Rightarrow> bytes" where
  "EncodeBytes b data =
     (case index_byte data 0x00 of
        None \<Rightarrow> b @ data @ [0x00, 0x01]
      | Some i \<Rightarrow> EncodeBytes (b @ take i data @ [0x00, 0xff]) (drop (i + 1) data))"
  by pat_completeness auto
termination
  by (relation "measure (\<lambda>(b, data). length data)") (auto dest: index_byte_Some)

text \<open>
  The loop of \<^verbatim>\<open>decodeBytes\<close>: \<open>r\<close> is the Go slice the decoded bytes are appended to, with
  \<^const>\<open>None\<close> for a nil slice.
\<close>

function decodeBytesLoop :: "bytes \<Rightarrow> bytes option \<Rightarrow> escapes \<Rightarrow> enc_error + bytes \<times> bytes option"
where
  "decodeBytesLoop b r e =
     (case index_byte b (escape e) of
        None \<Rightarrow> Inl NoTerminator
      | Some i \<Rightarrow>
          if i + 1 \<ge> length b then Inl MalformedEscape
          else if b ! (i + 1) = escapedTerm e then
            Inr (drop (i + 2) b,
                 case r of None \<Rightarrow> Some (take i b) | Some r' \<Rightarrow> Some (r' @ take i b))
          else if b ! (i + 1) = escaped00 e then
            decodeBytesLoop (drop (i + 2) b)
              (Some ((case r of None \<Rightarrow> [] | Some r' \<Rightarrow> r') @ take i b @ [escapedFF e])) e
          else Inl UnknownEscape)"
  by pat_completeness auto
termination
  by (relation "measure (\<lambda>(b, r, e). length b)") auto

definition decodeBytes :: "bytes \<Rightarrow> bytes option \<Rightarrow> escapes \<Rightarrow> enc_error + bytes \<times> bytes option"
where
  "decodeBytes b r e = (if length b = 0 then Inr ([], None) else decodeBytesLoop b r e)"

definition DecodeBytes :: "bytes \<Rightarrow> bytes option \<Rightarrow> enc_error + bytes \<times> bytes option" where
  "DecodeBytes b r = decodeBytes b r ascendingEscapes"

declare EncodeBytes.simps [simp del] decodeBytesLoop.simps [simp del]

section \<open>Integers\<close>

lemma EncodeUint64_be: "EncodeUint64 b v = b @ be_bytes 8 v"
  by (simp add: EncodeUint64_def eval_nat_numeral)

lemma EncodeUint32_be: "EncodeUint32 b v = b @ be_bytes 4 v"
  by (simp add: EncodeUint32_def eval_nat_numeral)

lemma EncodeUint64_length [simp]: "length (EncodeUint64 b v) = length b + 8"
  by (simp add: EncodeUint64_def)

lemma EncodeUint32_length [simp]: "length (EncodeUint32 b v) = length b + 4"
  by (simp add: EncodeUint32_def)

lemma EncodeUint64_less_iff: "EncodeUint64 b v < EncodeUint64 b w \<longleftrightarrow> v < w"
proof -
  have "unat u mod 256 ^ 8 = unat u" for u :: uint64
    using unat_word_bound [of u] by simp
  then show ?thesis
    using be_val_less_iff [of "be_bytes 8 v" "be_bytes 8 w"]
    by (simp add: EncodeUint64_be be_val_be_bytes word_less_nat_alt)
qed

lemma EncodeUint32_less_iff: "EncodeUint32 b v < EncodeUint32 b w \<longleftrightarrow> v < w"
proof -
  have "unat u mod 256 ^ 4 = unat u" for u :: uint32
    using unat_word_bound [of u] by simp
  then show ?thesis
    using be_val_less_iff [of "be_bytes 4 v" "be_bytes 4 w"]
    by (simp add: EncodeUint32_be be_val_be_bytes word_less_nat_alt)
qed

lemma DecodeUint64_be:
  "DecodeUint64 b = (if length b < 8 then Inl InsufficientBytes
     else Inr (drop 8 b, be_word (take 8 b) 0))"
proof (cases "length b < 8")
  case False
  then obtain x0 x1 x2 x3 x4 x5 x6 x7 r where "b = [x0, x1, x2, x3, x4, x5, x6, x7] @ r"
    by (auto simp: eval_nat_numeral not_less Suc_le_length_iff)
  then show ?thesis by (simp add: DecodeUint64_def ac_simps)
qed (simp add: DecodeUint64_def)

lemma DecodeUint32_be:
  "DecodeUint32 b = (if length b < 4 then Inl InsufficientBytes
     else Inr (drop 4 b, be_word (take 4 b) 0))"
proof (cases "length b < 4")
  case False
  then obtain x0 x1 x2 x3 r where "b = [x0, x1, x2, x3] @ r"
    by (auto simp: eval_nat_numeral not_less Suc_le_length_iff)
  then show ?thesis by (simp add: DecodeUint32_def ac_simps)
qed (simp add: DecodeUint32_def)

lemma DecodeUint64_Encode [simp]: "DecodeUint64 (EncodeUint64 [] v @ rest) = Inr (rest, v)"
  using be_word_be_bytes [of 8 v] by (simp add: DecodeUint64_be EncodeUint64_be)

lemma DecodeUint32_Encode [simp]: "DecodeUint32 (EncodeUint32 [] v @ rest) = Inr (rest, v)"
  using be_word_be_bytes [of 4 v] by (simp add: DecodeUint32_be EncodeUint32_be)

lemma DecodeUint64_sound: "DecodeUint64 b = Inr (rest, v) \<Longrightarrow> b = EncodeUint64 [] v @ rest"
  using be_bytes_be_word [of "take 8 b", where 'a = 64]
  by (auto simp: DecodeUint64_be EncodeUint64_be min_absorb2 split: if_splits)

lemma DecodeUint32_sound: "DecodeUint32 b = Inr (rest, v) \<Longrightarrow> b = EncodeUint32 [] v @ rest"
  using be_bytes_be_word [of "take 4 b", where 'a = 32]
  by (auto simp: DecodeUint32_be EncodeUint32_be min_absorb2 split: if_splits)

lemma EncodeUint64Decreasing_less_iff:
  "EncodeUint64Decreasing b v < EncodeUint64Decreasing b w \<longleftrightarrow> w < v"
  by (simp add: EncodeUint64Decreasing_def EncodeUint64_less_iff)

lemma EncodeUint32Decreasing_less_iff:
  "EncodeUint32Decreasing b v < EncodeUint32Decreasing b w \<longleftrightarrow> w < v"
  by (simp add: EncodeUint32Decreasing_def EncodeUint32_less_iff)

lemma DecodeUint64Decreasing_Encode [simp]:
  "DecodeUint64Decreasing (EncodeUint64Decreasing [] v @ rest) = Inr (rest, v)"
  by (simp add: DecodeUint64Decreasing_def EncodeUint64Decreasing_def)

lemma DecodeUint32Decreasing_Encode [simp]:
  "DecodeUint32Decreasing (EncodeUint32Decreasing [] v @ rest) = Inr (rest, v)"
  by (simp add: DecodeUint32Decreasing_def EncodeUint32Decreasing_def)

lemma DecodeUint64Decreasing_sound:
  "DecodeUint64Decreasing b = Inr (rest, v) \<Longrightarrow> b = EncodeUint64Decreasing [] v @ rest"
  by (auto simp: DecodeUint64Decreasing_def EncodeUint64Decreasing_def
      dest: DecodeUint64_sound split: sum.splits)

lemma DecodeUint32Decreasing_sound:
  "DecodeUint32Decreasing b = Inr (rest, v) \<Longrightarrow> b = EncodeUint32Decreasing [] v @ rest"
  by (auto simp: DecodeUint32Decreasing_def EncodeUint32Decreasing_def
      dest: DecodeUint32_sound split: sum.splits)

section \<open>Byte strings\<close>

text \<open>The reference encoding, byte by byte.\<close>

fun escaped :: "bytes \<Rightarrow> bytes" where
  "escaped [] = [0x00, 0x01]"
| "escaped (b # bs) = (if b = 0x00 then 0x00 # 0xff # escaped bs else b # escaped bs)"

lemma escaped_no_zero: "0 \<notin> set xs \<Longrightarrow> escaped xs = xs @ [0, 1]"
  by (induction xs) auto

lemma escaped_append_zero:
  "0 \<notin> set xs \<Longrightarrow> escaped (xs @ 0 # ys) = xs @ 0 # 0xff # escaped ys"
  by (induction xs) auto

lemma split_at_zero: "0 \<notin> set d \<or> (\<exists>xs ys. d = xs @ 0 # ys \<and> (0::byte) \<notin> set xs)"
  using split_list_first [of 0 d] by blast

lemma EncodeBytes_escaped: "EncodeBytes b data = b @ escaped data"
proof (induction b data rule: EncodeBytes.induct)
  case (1 b data)
  show ?case
  proof (cases "index_byte data 0")
    case None
    then have "0 \<notin> set data" by (rule index_byte_None [THEN iffD1])
    with None show ?thesis
      by (simp add: EncodeBytes.simps [of b data] escaped_no_zero)
  next
    case (Some i)
    then have i: "i < length data" "data ! i = 0" "0 \<notin> set (take i data)"
      by (auto dest: index_byte_Some)
    then have "data = take i data @ 0 # drop (i + 1) data"
      by (metis Suc_eq_plus1 id_take_nth_drop)
    then have "escaped data = take i data @ 0 # 0xff # escaped (drop (i + 1) data)"
      using escaped_append_zero [OF i(3)] by metis
    with Some 1 show ?thesis by (simp add: EncodeBytes.simps [of b data])
  qed
qed

lemma EncodeBytes_nonempty [simp]: "EncodeBytes b data \<noteq> []"
  by (cases data) (auto simp: EncodeBytes_escaped)

lemma decodeBytesLoop_escaped:
  "decodeBytesLoop (escaped d @ rest) r ascendingEscapes
     = Inr (rest, Some ((case r of None \<Rightarrow> [] | Some r' \<Rightarrow> r') @ d))"
proof (induction d arbitrary: r rule: length_induct)
  case (1 d)
  from split_at_zero [of d] show ?case
  proof (elim disjE exE conjE)
    assume "0 \<notin> set d"
    then show ?thesis
      by (auto simp: decodeBytesLoop.simps escaped_no_zero index_byte_append_notin
          ascendingEscapes_def nth_append split: option.splits)
  next
    fix xs ys
    assume d: "d = xs @ 0 # ys" and xs: "0 \<notin> set xs"
    then have "length ys < length d" by simp
    with 1 have IH: "\<And>r. decodeBytesLoop (escaped ys @ rest) r ascendingEscapes
       = Inr (rest, Some ((case r of None \<Rightarrow> [] | Some r' \<Rightarrow> r') @ ys))" by blast
    have "escaped d @ rest = xs @ 0 # 0xff # escaped ys @ rest"
      using d xs by (simp add: escaped_append_zero)
    then show ?thesis
      using IH xs d
      by (subst decodeBytesLoop.simps)
        (simp add: index_byte_append_notin nth_append ascendingEscapes_def)
  qed
qed

lemma decodeBytesLoop_sound:
  "decodeBytesLoop b r ascendingEscapes = Inr (rest, d) \<Longrightarrow>
     \<exists>x. d = Some ((case r of None \<Rightarrow> [] | Some r' \<Rightarrow> r') @ x) \<and> b = escaped x @ rest"
proof (induction b r "ascendingEscapes" rule: decodeBytesLoop.induct)
  case (1 b r)
  let ?e = "ascendingEscapes"
  from "1.prems" obtain i where idx: "index_byte b 0 = Some i" and len: "i + 1 < length b"
    by (subst (asm) decodeBytesLoop.simps)
      (auto simp: ascendingEscapes_def not_le split: option.splits if_splits)
  then have i: "i < length b" "b ! i = 0" "0 \<notin> set (take i b)"
    by (auto dest: index_byte_Some)
  have b: "b = take i b @ 0 # b ! (i + 1) # drop (i + 2) b"
    using i(1,2) len by (metis Suc_eq_plus1 add_2_eq_Suc' id_take_nth_drop Cons_nth_drop_Suc)
  consider (terminator) "b ! (i + 1) = 1" | (zero) "b ! (i + 1) = 0xff"
    using "1.prems" idx len
    by (subst (asm) decodeBytesLoop.simps) (auto simp: ascendingEscapes_def split: if_splits)
  then show ?case
  proof cases
    case terminator
    then have "escaped (take i b) @ drop (i + 2) b = b"
      using b i(3) by (simp add: escaped_no_zero)
    with "1.prems" idx len terminator show ?thesis
      by (subst (asm) decodeBytesLoop.simps)
        (auto simp: ascendingEscapes_def split: option.splits)
  next
    case zero
    let ?r = "Some ((case r of None \<Rightarrow> [] | Some r' \<Rightarrow> r') @ take i b @ [0])"
    have "decodeBytesLoop (drop (i + 2) b) ?r ?e = Inr (rest, d)"
      using "1.prems" idx len zero
      by (subst (asm) decodeBytesLoop.simps) (auto simp: ascendingEscapes_def)
    moreover have "index_byte b (escape ?e) = Some i" "\<not> length b \<le> i + 1"
        "b ! (i + 1) \<noteq> escapedTerm ?e" "b ! (i + 1) = escaped00 ?e" "escapedFF ?e = 0"
      using idx len zero by (auto simp: ascendingEscapes_def)
    ultimately obtain x where x: "d = Some ((case ?r of None \<Rightarrow> [] | Some r' \<Rightarrow> r') @ x)"
        "drop (i + 2) b = escaped x @ rest"
      using "1.hyps" [of i] by fastforce
    then have "b = escaped (take i b @ 0 # x) @ rest"
      using b i(3) zero by (simp add: escaped_append_zero)
    with x(1) show ?thesis by auto
  qed
qed

lemma escaped_append_less_iff:
  "escaped a @ s < escaped b @ t \<longleftrightarrow> a < b \<or> (a = b \<and> s < t)"
proof (induction a arbitrary: b)
  case Nil
  then show ?case by (cases b) (auto simp: word_neq_0_conv)
next
  case (Cons x xs)
  then show ?case by (cases b) (auto simp: word_neq_0_conv)
qed

section \<open>Properties\<close>

text \<open>
  C28. Decoding inverts encoding exactly: \<^verbatim>\<open>DecodeBytes\<close> returns \<open>d\<close> with the remainder \<open>rest\<close> if
  and only if its input is the encoding of \<open>d\<close> followed by \<open>rest\<close>.
\<close>

theorem DecodeBytes_iff_EncodeBytes:
  "DecodeBytes b None = Inr (rest, Some d) \<longleftrightarrow> b = EncodeBytes [] d @ rest"
  using decodeBytesLoop_escaped [of d rest None] EncodeBytes_nonempty [of "[]" d]
  by (auto simp: DecodeBytes_def decodeBytes_def EncodeBytes_escaped
      dest: decodeBytesLoop_sound split: if_splits)

text \<open>
  C29. The escape encoding keeps the byte order of what it encodes and is self-delimiting: whatever
  follows two encodings decides their order only when the encoded strings are equal.
\<close>

theorem EncodeBytes_order:
  "EncodeBytes p a @ s < EncodeBytes p b @ t \<longleftrightarrow> a < b \<or> (a = b \<and> s < t)"
  by (simp add: EncodeBytes_escaped escaped_append_less_iff)

end
