(* ===== verification/Meta.thy ===== *)
theory Meta
  imports Encoding
begin

text \<open>
  The hand-written half of \<^verbatim>\<open>src/meta\<close> (\<^verbatim>\<open>data.go\<close>, \<^verbatim>\<open>metadata.go\<close>, \<^verbatim>\<open>stats.go\<close>, \<^verbatim>\<open>errors.go\<close>) and
  the key prefixes of \<^verbatim>\<open>src/util/keys.go\<close>: timestamps and their order, keys, typed values,
  MVCC keys with their codec, transactions, range descriptors, range statistics and the
  error values. \<^verbatim>\<open>int64\<close> and \<^verbatim>\<open>int32\<close> are words read with \<^const>\<open>sint\<close>; an open protobuf enum
  is its 32-bit value. A Go slice whose nil-ness the code tests is an \<^verbatim>\<open>option\<close>.
  Proved: the timestamp order is a strict linear order with \<^verbatim>\<open>Next\<close> as its successor, the MVCC
  key codec round-trips and is sound, and MVCC keys sort by user key first, the metadata key
  before its versions, newer versions before older ones.
\<close>

section \<open>Definitions\<close>

subsection \<open>Timestamps\<close>

record Timestamp =
  WallTime :: int64
  Logical :: int32

definition zero_ts :: Timestamp where
  "zero_ts = \<lparr>WallTime = 0, Logical = 0\<rparr>"

definition Timestamp_Less :: "Timestamp \<Rightarrow> Timestamp \<Rightarrow> bool" where
  "Timestamp_Less t s \<longleftrightarrow> sint (WallTime t) < sint (WallTime s) \<or>
     (WallTime t = WallTime s \<and> sint (Logical t) < sint (Logical s))"

definition Timestamp_Large :: "Timestamp \<Rightarrow> Timestamp \<Rightarrow> bool" where
  "Timestamp_Large t s \<longleftrightarrow> sint (WallTime t) > sint (WallTime s) \<or>
     (WallTime t = WallTime s \<and> sint (Logical t) > sint (Logical s))"

definition Timestamp_Equal :: "Timestamp \<Rightarrow> Timestamp \<Rightarrow> bool" where
  "Timestamp_Equal t s \<longleftrightarrow> WallTime t = WallTime s \<and> Logical t = Logical s"

definition MaxInt32 :: int32 where
  "MaxInt32 = 0x7fffffff"

definition MaxInt64 :: int64 where
  "MaxInt64 = 0x7fffffffffffffff"

text \<open>\<^const>\<open>None\<close> is the panic \<^verbatim>\<open>cannot take the next value to a max timestamp\<close>.\<close>

definition Timestamp_Next :: "Timestamp \<Rightarrow> Timestamp option" where
  "Timestamp_Next t =
     (if Logical t = MaxInt32 then
        (if WallTime t = MaxInt64 then None
         else Some \<lparr>WallTime = WallTime t + 1, Logical = 0\<rparr>)
      else Some \<lparr>WallTime = WallTime t, Logical = Logical t + 1\<rparr>)"

subsection \<open>Keys\<close>

definition BytesNext :: "bytes \<Rightarrow> bytes" where
  "BytesNext b = b @ [0]"

definition NewKey :: "bytes list \<Rightarrow> bytes" where
  "NewKey bs = concat bs"

definition Key_Next :: "bytes \<Rightarrow> bytes" where
  "Key_Next k = BytesNext k"

definition Key_Less :: "bytes \<Rightarrow> bytes \<Rightarrow> bool" where
  "Key_Less k l \<longleftrightarrow> k < l"

definition SystemPrefix :: bytes where "SystemPrefix = [0x00]"
definition TxnPrefix :: bytes where "TxnPrefix = [0x01]"
definition UserPrefix :: bytes where "UserPrefix = [0x02]"
definition EndPrefix :: bytes where "EndPrefix = [0x03]"

subsection \<open>Values\<close>

record Value =
  Bytes :: bytes
  Checksum :: uint32
  ValTimestamp :: "Timestamp option"
  Tag :: int32

abbreviation (input) ValueType_INT :: int32 where "ValueType_INT \<equiv> 1"
abbreviation (input) ValueType_FLOAT :: int32 where "ValueType_FLOAT \<equiv> 2"
abbreviation (input) ValueType_BYTES :: int32 where "ValueType_BYTES \<equiv> 3"

definition zero_value :: Value where
  "zero_value = \<lparr>Bytes = [], Checksum = 0, ValTimestamp = None, Tag = 0\<rparr>"

definition SetBytes :: "bytes \<Rightarrow> Value \<Rightarrow> Value" where
  "SetBytes b v = v\<lparr>Bytes := b, Tag := ValueType_BYTES\<rparr>"

text \<open>A \<^verbatim>\<open>float64\<close> is its IEEE 754 bit pattern, which is what \<^verbatim>\<open>math.Float64bits\<close> returns.\<close>

definition SetFloat :: "uint64 \<Rightarrow> Value \<Rightarrow> Value" where
  "SetFloat f v = v\<lparr>Bytes := EncodeUint64 [] f, Tag := ValueType_FLOAT\<rparr>"

definition SetInt :: "int64 \<Rightarrow> Value \<Rightarrow> Value" where
  "SetInt i v = v\<lparr>Bytes := EncodeUint64 [] i, Tag := ValueType_INT\<rparr>"

datatype value_error =
    WrongTag int32 int32      \<comment> \<open>value type is not \<open>want\<close>: \<open>tag\<close>\<close>
  | WrongSize nat             \<comment> \<open>value should be exactly 8 bytes\<close>
  | ValueDecode enc_error

definition GetBytes :: "Value \<Rightarrow> value_error + bytes" where
  "GetBytes v = (if Tag v \<noteq> ValueType_BYTES then Inl (WrongTag ValueType_BYTES (Tag v))
     else Inr (Bytes v))"

definition GetFloat :: "Value \<Rightarrow> value_error + uint64" where
  "GetFloat v =
     (if Tag v \<noteq> ValueType_FLOAT then Inl (WrongTag ValueType_FLOAT (Tag v))
      else if length (Bytes v) \<noteq> 8 then Inl (WrongSize (length (Bytes v)))
      else case DecodeUint64 (Bytes v) of Inl e \<Rightarrow> Inl (ValueDecode e) | Inr (_, u) \<Rightarrow> Inr u)"

definition GetInt :: "Value \<Rightarrow> value_error + int64" where
  "GetInt v =
     (if Tag v \<noteq> ValueType_INT then Inl (WrongTag ValueType_INT (Tag v))
      else if length (Bytes v) \<noteq> 8 then Inl (WrongSize (length (Bytes v)))
      else case DecodeUint64 (Bytes v) of Inl e \<Rightarrow> Inl (ValueDecode e) | Inr (_, u) \<Rightarrow> Inr u)"

subsection \<open>MVCC keys\<close>

definition EncodeTimestampSize :: nat where
  "EncodeTimestampSize = 12"

definition NewMVCCKey :: "bytes \<Rightarrow> bytes" where
  "NewMVCCKey key = EncodeBytes [] key"

definition NewMVCCTimeKey :: "bytes \<Rightarrow> Timestamp \<Rightarrow> bytes" where
  "NewMVCCTimeKey k ts =
     EncodeUint32Decreasing
       (EncodeUint64Decreasing (EncodeBytes [] k) (WallTime ts))
       (Logical ts)"

definition MVCCKey_Next :: "bytes \<Rightarrow> bytes" where
  "MVCCKey_Next k = BytesNext k"

datatype decode_error =
    KeyEncoding enc_error
  | TimestampSize \<comment> \<open>there should be 12 bytes for encoded timestamp\<close>

text \<open>
  The result is the user key (\<^const>\<open>None\<close> for a nil slice), the timestamp, and whether the key
  carried one.
\<close>

definition MVCCKey_Decode :: "bytes \<Rightarrow> decode_error + bytes option \<times> Timestamp \<times> bool" where
  "MVCCKey_Decode k =
     (case DecodeBytes k None of
        Inl e \<Rightarrow> Inl (KeyEncoding e)
      | Inr (buf, key) \<Rightarrow>
          if length buf = 0 then Inr (key, zero_ts, False)
          else if length buf \<noteq> EncodeTimestampSize then Inl TimestampSize
          else (case DecodeUint64Decreasing buf of
                  Inl e \<Rightarrow> Inl (KeyEncoding e)
                | Inr (buf', wt) \<Rightarrow>
                    (case DecodeUint32Decreasing buf' of
                       Inl e \<Rightarrow> Inl (KeyEncoding e)
                     | Inr (_, lt) \<Rightarrow> Inr (key, \<lparr>WallTime = wt, Logical = lt\<rparr>, True))))"

subsection \<open>Transactions, intents, errors\<close>

abbreviation (input) PENDING :: int32 where "PENDING \<equiv> 0"
abbreviation (input) COMMITTED :: int32 where "COMMITTED \<equiv> 1"
abbreviation (input) ABORTED :: int32 where "ABORTED \<equiv> 2"

abbreviation (input) PUSH_TIMESTAMP :: int32 where "PUSH_TIMESTAMP \<equiv> 0"
abbreviation (input) PUSH_ABORT :: int32 where "PUSH_ABORT \<equiv> 1"
abbreviation (input) PUSH_TOUCH :: int32 where "PUSH_TOUCH \<equiv> 2"

abbreviation (input) TxnChangeTypeHeartbeat :: int where "TxnChangeTypeHeartbeat \<equiv> 1"
abbreviation (input) TxnChangeTypeBegin :: int where "TxnChangeTypeBegin \<equiv> 2"
abbreviation (input) TxnChangeTypeEnd :: int where "TxnChangeTypeEnd \<equiv> 4"
abbreviation (input) TxnChangeTypePushTimestamp :: int where "TxnChangeTypePushTimestamp \<equiv> 8"
abbreviation (input) TxnChangeTypePushAbort :: int where "TxnChangeTypePushAbort \<equiv> 16"

record Transaction =
  Name :: bytes
  ID :: "bytes option"
  Priority :: int32
  Status :: int32
  LastHeartbeat :: int64
  TxnTimestamp :: Timestamp
  Sequence :: uint32

definition zero_txn :: Transaction where
  "zero_txn = \<lparr>Name = [], ID = None, Priority = 0, Status = PENDING, LastHeartbeat = 0,
     TxnTimestamp = zero_ts, Sequence = 0\<rparr>"

record Span =
  SpanKey :: bytes
  SpanEndKey :: bytes

record Intent =
  IntentSpan :: Span
  IntentTxn :: Transaction

datatype pb_error =
    ErrIntOverflow | ErrUnexpectedEOF | ErrInvalidLength
  | EndGroup | IllegalTag | WrongWireType int | IllegalWireType
  | SliceBounds \<comment> \<open>a run-time panic: slice bounds out of range\<close>

text \<open>
  The error values of \<^verbatim>\<open>errors.go\<close>. Where the code stores the text of another error as the
  message, the model keeps that error itself. \<^verbatim>\<open>errors.Trace\<close> and \<^verbatim>\<open>errors.Annotate\<close> only add
  a stack or a prefix, which every consumer strips with \<^verbatim>\<open>errors.Cause\<close>. \<open>Panic\<close> is a run-time
  panic of the Go program.
\<close>

datatype error =
    Errorf string
  | StoreError string
  | DecodeError decode_error
  | ProtoError pb_error
  | ValueError value_error
  | WriteIntentError Intent "Transaction option" int32
  | WriteTooOldError Timestamp Timestamp
  | InvalidResponseTypeError string string
  | NotLeaderError int32
  | InvalidKeyError
  | RangeNotFoundError int64
  | TransactionStatusError Transaction string bool
  | UnmarshalDataError bytes error
  | MarshalDataError error
  | EnginePutDataError bytes bytes error
  | EngineGetDataError bytes error
  | EngineClearDataError bytes error
  | InvalidTransactionError string
  | InvalidNilDataError string
  | TransactionAbortedError Transaction
  | HeartbeatTransactionError
  | RPCConnectError string
  | ReadPriorityError
  | NeedRetryError string
  | NotExistError bytes
  | ErrNotFound
  | GenericError error \<comment> \<open>an \<^verbatim>\<open>Error\<close> message without detail, with the text of an error\<close>
  | Panic string

text \<open>
  What \<^verbatim>\<open>NewError\<close> puts on the wire for an error and \<^verbatim>\<open>GoError\<close> gives back: the error itself if the
  union of details has its type (\<^verbatim>\<open>ErrorDetail.SetValue\<close>), else a message with its text. An error
  that has been through \<^verbatim>\<open>errors.Trace\<close> has none of those types.
\<close>

fun hasDetail :: "error \<Rightarrow> bool" where
  "hasDetail (Errorf m) = False"
| "hasDetail (StoreError m) = False"
| "hasDetail (DecodeError d) = False"
| "hasDetail (ProtoError p) = False"
| "hasDetail (ValueError v) = False"
| "hasDetail (RPCConnectError a) = False"
| "hasDetail ReadPriorityError = False"
| "hasDetail ErrNotFound = False"
| "hasDetail (GenericError e) = False"
| "hasDetail (Panic m) = False"
| "hasDetail e = True"

definition GoError :: "error \<Rightarrow> error" where
  "GoError e = (if hasDetail e then e else case e of GenericError e' \<Rightarrow> e | _ \<Rightarrow> GenericError e)"

definition NewWriteIntentError ::
    "Transaction option \<Rightarrow> int32 \<Rightarrow> bytes option \<Rightarrow> bytes \<Rightarrow> error" where
  "NewWriteIntentError pusherTxn pushType pusheeTxnID pusheekey =
     WriteIntentError
       \<lparr>IntentSpan = \<lparr>SpanKey = pusheekey, SpanEndKey = []\<rparr>, IntentTxn = zero_txn\<lparr>ID := pusheeTxnID\<rparr>\<rparr>
       pusherTxn pushType"

subsection \<open>Ranges and statistics\<close>

record ReplicaDescriptor =
  RepNodeID :: int32
  RepReplicaID :: int32

record RangeDescriptor =
  RangeID :: int64
  StartKey :: bytes
  EndKey :: bytes
  Replicas :: "ReplicaDescriptor list"

text \<open>The scan of \<^verbatim>\<open>GetNextNodeID\<close>, at index \<open>i\<close> of the replica list \<open>all\<close>.\<close>

fun GetNextNodeID_loop ::
    "ReplicaDescriptor list \<Rightarrow> nat \<Rightarrow> ReplicaDescriptor list \<Rightarrow> int32 \<Rightarrow> int32" where
  "GetNextNodeID_loop all i [] nid = 0"
| "GetNextNodeID_loop all i (rp # rps) nid =
     (if RepNodeID rp = nid then RepNodeID (all ! ((i + 1) mod length all))
      else GetNextNodeID_loop all (i + 1) rps nid)"

definition GetNextNodeID :: "RangeDescriptor \<Rightarrow> int32 \<Rightarrow> int32" where
  "GetNextNodeID r nid = GetNextNodeID_loop (Replicas r) 0 (Replicas r) nid"

definition RangeDescriptor_IsSystem :: "RangeDescriptor \<Rightarrow> bool" where
  "RangeDescriptor_IsSystem r \<longleftrightarrow> prefix SystemPrefix (StartKey r)"

record RangeStatsInfo =
  StatRangeID :: int64
  StatNodeID :: int32
  TotalBytes :: int64
  TotalCount :: int64
  IsRaftLeader :: bool
  IsRemoved :: bool

definition UpdateRangeStats ::
    "nat \<Rightarrow> nat \<Rightarrow> nat \<Rightarrow> nat \<Rightarrow> RangeStatsInfo \<Rightarrow> RangeStatsInfo" where
  "UpdateRangeStats origKeySize origValSize keySize valueSize rs =
     (let rs = (if keySize \<noteq> 0 \<or> valueSize \<noteq> 0
                then rs\<lparr>TotalBytes := TotalBytes rs + of_nat keySize + of_nat valueSize,
                        TotalCount := TotalCount rs + 1\<rparr>
                else rs)
      in if origKeySize \<noteq> 0 \<or> origValSize \<noteq> 0
         then rs\<lparr>TotalBytes := TotalBytes rs - of_nat origKeySize - of_nat origValSize,
                 TotalCount := TotalCount rs - 1\<rparr>
         else rs)"

section \<open>The timestamp order\<close>

text \<open>
  Timestamps the cluster hands out have non-negative parts; on those the signed comparisons
  of \<^verbatim>\<open>Less\<close> agree with the unsigned encoding in the key.
\<close>

definition valid_ts :: "Timestamp \<Rightarrow> bool" where
  "valid_ts t \<longleftrightarrow> 0 \<le> sint (WallTime t) \<and> 0 \<le> sint (Logical t)"

lemma sint_eq_uint_nonneg: "0 \<le> sint (w :: 'a::len word) \<Longrightarrow> sint w = uint w"
proof -
  assume "0 \<le> sint w"
  moreover have "sint w < 2 ^ LENGTH('a)"
    using sint_lt [of w] by (rule order_less_le_trans) (auto intro: power_increasing)
  ultimately show ?thesis by (metis uint_sint take_bit_int_eq_self)
qed

lemma sint_less_iff_nonneg:
  "0 \<le> sint v \<Longrightarrow> 0 \<le> sint w \<Longrightarrow> sint v < sint w \<longleftrightarrow> v < (w :: 'a::len word)"
  by (metis sint_eq_uint_nonneg word_less_def)

lemma Timestamp_Large_flip: "Timestamp_Large t s \<longleftrightarrow> Timestamp_Less s t"
  by (auto simp: Timestamp_Large_def Timestamp_Less_def)

lemma Timestamp_Equal_eq [simp]: "Timestamp_Equal t s \<longleftrightarrow> t = s"
  by (cases t; cases s) (simp add: Timestamp_Equal_def)

lemma Timestamp_Less_irrefl [simp]: "\<not> Timestamp_Less t t"
  by (simp add: Timestamp_Less_def)

lemma Timestamp_Less_trans: "Timestamp_Less a b \<Longrightarrow> Timestamp_Less b c \<Longrightarrow> Timestamp_Less a c"
  by (auto simp: Timestamp_Less_def)

lemma Timestamp_Less_linear: "Timestamp_Less a b \<or> a = b \<or> Timestamp_Less b a"
  by (cases a; cases b)
    (simp add: Timestamp_Less_def, metis linorder_neqE signed_word_eqI)

lemma Timestamp_not_Less: "\<not> Timestamp_Less a b \<longleftrightarrow> a = b \<or> Timestamp_Less b a"
  using Timestamp_Less_linear Timestamp_Less_trans Timestamp_Less_irrefl by metis

lemma sint_plus_one: 
  assumes "sint (w :: 'a::len word) < 2 ^ (LENGTH('a) - 1) - 1"
  shows "sint (w + 1) = sint w + 1"
proof -
  have "- (2 ^ (LENGTH('a) - 1)) \<le> sint w" by (rule sint_ge)
  then have "signed_take_bit (LENGTH('a) - 1) (sint w + 1) = sint w + 1"
    using assms by (intro signed_take_bit_int_eq_self) auto
  then show ?thesis by (metis sint_word_succ word_succ_p1)
qed

lemma sint_Suc_int64: "w \<noteq> MaxInt64 \<Longrightarrow> sint (w + 1) = sint w + 1"
proof -
  assume "w \<noteq> MaxInt64"
  then have "sint w \<noteq> 2 ^ 63 - 1"
    using word_eq_iff_signed [of w MaxInt64] by (simp add: MaxInt64_def)
  with sint_lt [of w] show ?thesis by (intro sint_plus_one) simp
qed

lemma sint_Suc_int32: "w \<noteq> MaxInt32 \<Longrightarrow> sint (w + 1) = sint w + 1"
proof -
  assume "w \<noteq> MaxInt32"
  then have "sint w \<noteq> 2 ^ 31 - 1"
    using word_eq_iff_signed [of w MaxInt32] by (simp add: MaxInt32_def)
  with sint_lt [of w] show ?thesis by (intro sint_plus_one) simp
qed

lemma Timestamp_Next_Less: "Timestamp_Next t = Some n \<Longrightarrow> Timestamp_Less t n"
  by (auto simp: Timestamp_Next_def Timestamp_Less_def sint_Suc_int32 sint_Suc_int64
      split: if_splits)

lemma Timestamp_Next_carry:
  assumes "Timestamp_Next t = Some n" "Logical t = MaxInt32"
  shows "n = \<lparr>WallTime = WallTime t + 1, Logical = 0\<rparr>" "WallTime t \<noteq> MaxInt64"
  using assms unfolding Timestamp_Next_def by (simp_all split: if_splits)

lemma Timestamp_Next_no_carry:
  assumes "Timestamp_Next t = Some n" "Logical t \<noteq> MaxInt32"
  shows "n = \<lparr>WallTime = WallTime t, Logical = Logical t + 1\<rparr>"
  using assms unfolding Timestamp_Next_def by (simp split: if_splits)

lemma sint_le_MaxInt32: "sint (w :: int32) \<le> sint MaxInt32"
  using sint_lt [of w] by (simp add: MaxInt32_def)

lemma Timestamp_Next_least:
  assumes n: "Timestamp_Next t = Some n" and s: "Timestamp_Less t s" "valid_ts s"
  shows "\<not> Timestamp_Less s n"
proof (cases "Logical t = MaxInt32")
  case True
  have "\<not> sint (Logical t) < sint (Logical s)"
    unfolding True using sint_le_MaxInt32 by (simp add: not_less)
  then have "sint (WallTime t) < sint (WallTime s)"
    using s(1) unfolding Timestamp_Less_def by blast
  moreover have "sint (WallTime n) = sint (WallTime t) + 1" "Logical n = 0"
    using Timestamp_Next_carry [OF n True] by (simp_all add: sint_Suc_int64)
  moreover have "0 \<le> sint (Logical s)" using s(2) unfolding valid_ts_def by blast
  ultimately show ?thesis unfolding Timestamp_Less_def by simp
next
  case False
  have "WallTime n = WallTime t" "sint (Logical n) = sint (Logical t) + 1"
    using Timestamp_Next_no_carry [OF n False] False by (simp_all add: sint_Suc_int32)
  with s(1) show ?thesis unfolding Timestamp_Less_def by fastforce
qed

section \<open>MVCC keys\<close>

definition ts_suffix :: "Timestamp \<Rightarrow> bytes" where
  "ts_suffix ts = EncodeUint64Decreasing [] (WallTime ts) @ EncodeUint32Decreasing [] (Logical ts)"

lemma ts_suffix_length [simp]: "length (ts_suffix ts) = 12"
  by (simp add: ts_suffix_def EncodeUint64Decreasing_def EncodeUint32Decreasing_def)

lemma ts_suffix_nonempty [simp]: "ts_suffix ts \<noteq> []"
  using ts_suffix_length [of ts] by (metis length_0_conv zero_neq_numeral)

lemma NewMVCCTimeKey_split: "NewMVCCTimeKey k ts = NewMVCCKey k @ ts_suffix ts"
  by (simp add: NewMVCCTimeKey_def NewMVCCKey_def ts_suffix_def EncodeUint32Decreasing_def
      EncodeUint64Decreasing_def EncodeUint32_def EncodeUint64_def)

lemma ts_suffix_wall_less: "WallTime t < WallTime s \<Longrightarrow> ts_suffix s < ts_suffix t"
  unfolding ts_suffix_def
  by (rule bytes_less_prefix)
    (simp add: EncodeUint64Decreasing_def, simp add: EncodeUint64Decreasing_less_iff)

lemma ts_suffix_less_iff:
  assumes "valid_ts s" and "valid_ts t"
  shows "ts_suffix s < ts_suffix t \<longleftrightarrow> Timestamp_Less t s"
proof -
  have ts: "Timestamp_Less t s \<longleftrightarrow> WallTime t < WallTime s \<or>
      (WallTime t = WallTime s \<and> Logical t < Logical s)"
    using assms by (simp add: Timestamp_Less_def valid_ts_def sint_less_iff_nonneg)
  consider "WallTime t < WallTime s" | "WallTime t = WallTime s" | "WallTime s < WallTime t"
    by (rule linorder_cases)
  then show ?thesis
  proof cases
    case 2
    then show ?thesis
      unfolding ts ts_suffix_def by (simp add: EncodeUint32Decreasing_less_iff)
  qed (use ts_suffix_wall_less ts in \<open>auto dest: less_asym\<close>)
qed

lemma NewMVCCKey_append_less_iff:
  "NewMVCCKey a @ s < NewMVCCKey b @ t \<longleftrightarrow> a < b \<or> (a = b \<and> s < t)"
  by (simp add: NewMVCCKey_def EncodeBytes_escaped escaped_append_less_iff)

lemma NewMVCCKey_append_inject:
  "NewMVCCKey a @ s = NewMVCCKey b @ t \<longleftrightarrow> a = b \<and> s = t"
  using NewMVCCKey_append_less_iff [of a s b t] NewMVCCKey_append_less_iff [of b t a s]
  by (metis less_irrefl linorder_less_linear)

lemma ts_suffix_inject: "ts_suffix s = ts_suffix t \<longleftrightarrow> s = t"
proof
  assume "ts_suffix s = ts_suffix t"
  then have "DecodeUint64Decreasing (ts_suffix s) = DecodeUint64Decreasing (ts_suffix t)" by simp
  then have "WallTime s = WallTime t"
      "EncodeUint32Decreasing [] (Logical s) = EncodeUint32Decreasing [] (Logical t)"
    by (simp_all add: ts_suffix_def)
  moreover from this(2) have "Logical s = Logical t"
    using EncodeUint32Decreasing_less_iff by (metis less_irrefl linorder_less_linear)
  ultimately show "s = t" by (cases s; cases t) simp
qed simp

lemma DecodeBytes_NewMVCCKey [simp]: "DecodeBytes (NewMVCCKey k @ rest) None = Inr (rest, Some k)"
  by (simp add: NewMVCCKey_def DecodeBytes_def decodeBytes_def EncodeBytes_escaped
      decodeBytesLoop_escaped) (metis EncodeBytes_escaped EncodeBytes_nonempty append_Nil)

lemma DecodeBytes_sound:
  "DecodeBytes b None = Inr (rest, Some k) \<Longrightarrow> b = NewMVCCKey k @ rest"
  by (auto simp: NewMVCCKey_def DecodeBytes_def decodeBytes_def EncodeBytes_escaped
      split: if_splits dest: decodeBytesLoop_sound)

lemma MVCCKey_Decode_meta [simp]: "MVCCKey_Decode (NewMVCCKey k) = Inr (Some k, zero_ts, False)"
  using DecodeBytes_NewMVCCKey [of k "[]"] by (simp add: MVCCKey_Decode_def del: DecodeBytes_NewMVCCKey)

lemma MVCCKey_Decode_time [simp]: "MVCCKey_Decode (NewMVCCTimeKey k ts) = Inr (Some k, ts, True)"
proof -
  have "DecodeUint32Decreasing (EncodeUint32Decreasing [] v) = Inr ([], v)" for v
    using DecodeUint32Decreasing_Encode [of v "[]"] by simp
  then have "DecodeUint64Decreasing (ts_suffix ts)
      = Inr (EncodeUint32Decreasing [] (Logical ts), WallTime ts)"
    "DecodeUint32Decreasing (EncodeUint32Decreasing [] (Logical ts)) = Inr ([], Logical ts)"
    by (simp_all add: ts_suffix_def)
  then show ?thesis
    by (simp add: MVCCKey_Decode_def NewMVCCTimeKey_split EncodeTimestampSize_def)
qed

lemma MVCCKey_Decode_sound:
  assumes "MVCCKey_Decode b = Inr (Some k, ts, v)"
  shows "b = (if v then NewMVCCTimeKey k ts else NewMVCCKey k) \<and> (v \<or> ts = zero_ts)"
proof -
  from assms obtain buf where buf: "DecodeBytes b None = Inr (buf, Some k)"
    by (auto simp: MVCCKey_Decode_def split: sum.splits prod.splits if_splits)
  then have b: "b = NewMVCCKey k @ buf" by (rule DecodeBytes_sound)
  show ?thesis
  proof (cases "buf = []")
    case True
    with assms buf b show ?thesis by (simp add: MVCCKey_Decode_def)
  next
    case False
    with assms buf obtain buf' r wt lt where ts: "length buf = 12"
        "DecodeUint64Decreasing buf = Inr (buf', wt)" "DecodeUint32Decreasing buf' = Inr (r, lt)"
        "ts = \<lparr>WallTime = wt, Logical = lt\<rparr>" v
      by (auto simp: MVCCKey_Decode_def EncodeTimestampSize_def
          split: sum.splits prod.splits if_splits)
    then have "buf = EncodeUint64Decreasing [] wt @ EncodeUint32Decreasing [] lt @ r"
      by (metis DecodeUint64Decreasing_sound DecodeUint32Decreasing_sound)
    moreover from this ts(1) have "r = []"
      by (simp add: EncodeUint64Decreasing_def EncodeUint32Decreasing_def)
    ultimately show ?thesis
      using ts b by (simp add: NewMVCCTimeKey_split ts_suffix_def)
  qed
qed

section \<open>Replica rotation\<close>

lemma GetNextNodeID_loop_nth:
  assumes "distinct (map RepNodeID (pre @ rps))" "j < length rps" "all = pre @ rps"
  shows "GetNextNodeID_loop all (length pre) rps (RepNodeID (rps ! j))
     = RepNodeID (all ! ((length pre + j + 1) mod length all))"
  using assms
proof (induction rps arbitrary: pre j)
  case (Cons r rps)
  show ?case
  proof (cases j)
    case (Suc k)
    with Cons.prems have "RepNodeID (rps ! k) \<in> RepNodeID ` set rps" by simp
    with Cons.prems have "RepNodeID r \<noteq> RepNodeID (rps ! k)" by fastforce
    with Suc Cons.IH [of "pre @ [r]" k] Cons.prems show ?thesis by simp
  qed simp
qed simp

lemma GetNextNodeID_nth:
  assumes "distinct (map RepNodeID (Replicas r))" "j < length (Replicas r)"
  shows "GetNextNodeID r (RepNodeID (Replicas r ! j))
     = RepNodeID (Replicas r ! ((j + 1) mod length (Replicas r)))"
  using GetNextNodeID_loop_nth [of "[]" "Replicas r" j "Replicas r"] assms
  by (simp add: GetNextNodeID_def)

section \<open>Properties\<close>


text \<open>
  C26. MVCC keys sort by user key, then the metadata key before every version, then versions
  from the newest timestamp to the oldest. This is the order every scan relies on.
\<close>

theorem MVCCKey_order:
  assumes "valid_ts s" and "valid_ts t"
  shows "(NewMVCCTimeKey a s < NewMVCCTimeKey b t \<longleftrightarrow> a < b \<or> (a = b \<and> Timestamp_Less t s)) \<and>
    (NewMVCCKey a < NewMVCCTimeKey b t \<longleftrightarrow> a \<le> b) \<and>
    (NewMVCCTimeKey a s < NewMVCCKey b \<longleftrightarrow> a < b)"
  using NewMVCCKey_append_less_iff [of a "ts_suffix s" b "ts_suffix t"]
    NewMVCCKey_append_less_iff [of a "[]" b "ts_suffix t"]
    NewMVCCKey_append_less_iff [of a "ts_suffix s" b "[]"]
    bytes_less_append [of "ts_suffix t" "[]"]
  by (auto simp: NewMVCCTimeKey_split ts_suffix_less_iff [OF assms])

theorem MVCCKey_order_witness:
  "NewMVCCTimeKey [1] \<lparr>WallTime = 9, Logical = 1\<rparr> < NewMVCCTimeKey [1] \<lparr>WallTime = 9, Logical = 0\<rparr>"
  using MVCCKey_order [of "\<lparr>WallTime = 9, Logical = 1\<rparr>" "\<lparr>WallTime = 9, Logical = 0\<rparr>" "[1]" "[1]"]
  by (simp add: valid_ts_def Timestamp_Less_def)

text \<open>
  \<^verbatim>\<open>Timestamp.Next\<close> is the successor in the timestamp order: it is larger than its argument
  and no valid timestamp lies strictly between; it panics only at the largest timestamp.
\<close>

theorem Timestamp_Next_successor:
  "case Timestamp_Next t of
     None \<Rightarrow> WallTime t = MaxInt64 \<and> Logical t = MaxInt32
   | Some n \<Rightarrow> Timestamp_Less t n \<and>
       \<not> (\<exists>s. valid_ts s \<and> Timestamp_Less t s \<and> Timestamp_Less s n)"
proof (cases "Timestamp_Next t")
  case None
  then show ?thesis by (simp add: Timestamp_Next_def split: if_splits)
next
  case (Some n)
  then show ?thesis using Timestamp_Next_Less Timestamp_Next_least by auto
qed

text \<open>
  On a range whose replicas live on distinct nodes, repeated calls of \<^verbatim>\<open>GetNextNodeID\<close> rotate
  through all of them: after \<open>n\<close> calls the answer is \<open>n\<close> places further in the replica list.
\<close>

theorem GetNextNodeID_rotation:
  assumes "distinct (map RepNodeID (Replicas r))" and "j < length (Replicas r)"
  shows "(GetNextNodeID r ^^ n) (RepNodeID (Replicas r ! j))
     = RepNodeID (Replicas r ! ((j + n) mod length (Replicas r)))"
proof (induction n)
  case (Suc n)
  have "(j + n) mod length (Replicas r) < length (Replicas r)"
    using assms(2) by (intro mod_less_divisor) auto
  from GetNextNodeID_nth [OF assms(1) this] Suc show ?case
    by (simp add: mod_Suc_eq)
qed (use assms in simp)

theorem GetNextNodeID_rotation_witness:
  "let r = \<lparr>RangeID = 1, StartKey = [], EndKey = [],
             Replicas = [\<lparr>RepNodeID = 4, RepReplicaID = 1\<rparr>, \<lparr>RepNodeID = 7, RepReplicaID = 2\<rparr>,
               \<lparr>RepNodeID = 9, RepReplicaID = 3\<rparr>]\<rparr>
   in (GetNextNodeID r ^^ 2) 7 = 4"
  using GetNextNodeID_rotation [of "\<lparr>RangeID = 1, StartKey = [], EndKey = [],
             Replicas = [\<lparr>RepNodeID = 4, RepReplicaID = 1\<rparr>, \<lparr>RepNodeID = 7, RepReplicaID = 2\<rparr>,
               \<lparr>RepNodeID = 9, RepReplicaID = 3\<rparr>]\<rparr>" 1 2]
  by simp

end
