(* ===== verification/Wire.thy ===== *)
theory Wire
  imports Meta
begin

text \<open>
  The protobuf wire format as the generated code of \<^verbatim>\<open>src/meta/data.pb.go\<close> and
  \<^verbatim>\<open>src/storage/engine/mvcc.pb.go\<close> reads and writes it. Both files carry their own copy of
  \<^verbatim>\<open>encodeVarint\<close>, \<^verbatim>\<open>sov\<close> and \<^verbatim>\<open>skip\<close>, and every \<^verbatim>\<open>Unmarshal\<close> repeats the same tag loop; the model
  has each of them once. A reader's position is the index \<^verbatim>\<open>iNdEx\<close> with the bytes from there on.
  A message decoded halfway before an error is dropped: no caller looks at it.
  Proved: varints and length-delimited fields are read back as written, and the driver lemmas
  that the message theories apply field by field.
\<close>

section \<open>Definitions\<close>

subsection \<open>Writing\<close>

function encodeVarint :: "uint64 \<Rightarrow> bytes" where
  "encodeVarint v =
     (if v \<ge> 0x80 then ucast (v AND 0x7f OR 0x80) # encodeVarint (drop_bit 7 v) else [ucast v])"
  by pat_completeness auto
termination
proof (relation "measure unat")
  fix v :: uint64
  assume "0x80 \<le> v"
  then show "(drop_bit 7 v, v) \<in> measure unat"
    by (auto intro!: unat_drop_bit_less)
qed simp

function sov :: "uint64 \<Rightarrow> nat" where
  "sov x = (let x' = drop_bit 7 x in if x' = 0 then 1 else 1 + sov x')"
  by pat_completeness auto
termination
proof (relation "measure unat")
  fix x x' :: uint64
  assume x': "x' = drop_bit 7 x" "x' \<noteq> 0"
  then show "(x', x) \<in> measure unat" by (auto intro!: unat_drop_bit_less)
qed simp

text \<open>\<^verbatim>\<open>binary.LittleEndian.PutUint32\<close> and \<^verbatim>\<open>Uint32\<close>.\<close>

definition PutUint32 :: "uint32 \<Rightarrow> bytes" where
  "PutUint32 v = rev (be_bytes 4 v)"

definition Uint32 :: "bytes \<Rightarrow> uint32" where
  "Uint32 b = be_word (rev (take 4 b)) 0"

text \<open>A field with its tag byte: a varint, a length-delimited string, a fixed 32-bit word.\<close>

definition varintField :: "byte \<Rightarrow> uint64 \<Rightarrow> bytes" where
  "varintField t v = t # encodeVarint v"

definition bytesField :: "byte \<Rightarrow> bytes \<Rightarrow> bytes" where
  "bytesField t b = t # encodeVarint (of_nat (length b)) @ b"

text \<open>An embedded message: its tag, its size as a varint, its bytes.\<close>

definition msgField :: "byte \<Rightarrow> nat \<Rightarrow> bytes \<Rightarrow> bytes" where
  "msgField t n body = t # encodeVarint (of_nat n) @ body"

definition boolField :: "byte \<Rightarrow> bool \<Rightarrow> bytes" where
  "boolField t b = [t, if b then 1 else 0]"

definition bytesFieldSize :: "nat \<Rightarrow> nat" where
  "bytesFieldSize l = 1 + l + sov (of_nat l)"

subsection \<open>Reading\<close>

fun varintLoop :: "nat \<Rightarrow> 'a::len word \<Rightarrow> nat \<Rightarrow> bytes \<Rightarrow> pb_error + 'a word \<times> nat" where
  "varintLoop shift acc i [] = (if shift \<ge> 64 then Inl ErrIntOverflow else Inl ErrUnexpectedEOF)"
| "varintLoop shift acc i (b # bs) =
     (if shift \<ge> 64 then Inl ErrIntOverflow
      else let acc' = acc OR push_bit shift (ucast b AND 0x7F)
           in if b < 0x80 then Inr (acc', i + 1) else varintLoop (shift + 7) acc' (i + 1) bs)"

fun skipVarint :: "nat \<Rightarrow> nat \<Rightarrow> bytes \<Rightarrow> pb_error + nat" where
  "skipVarint shift i [] = (if shift \<ge> 64 then Inl ErrIntOverflow else Inl ErrUnexpectedEOF)"
| "skipVarint shift i (b # bs) =
     (if shift \<ge> 64 then Inl ErrIntOverflow
      else if b < 0x80 then Inr (i + 1) else skipVarint (shift + 7) (i + 1) bs)"

text \<open>The value of an \<^verbatim>\<open>int\<close> after an addition that may wrap.\<close>

definition wrap64 :: "int \<Rightarrow> int" where
  "wrap64 x = signed_take_bit 63 x"

lemma varintLoop_index:
  "varintLoop s acc i bs = Inr (v, j) \<Longrightarrow> i < j \<and> j \<le> i + length bs"
  by (induction s acc i bs rule: varintLoop.induct) (fastforce simp: Let_def split: if_splits)+

text \<open>
  \<^verbatim>\<open>skipData\<close> and its inner loop over a group. The inner loop continues at \<^verbatim>\<open>start + next\<close>; when
  that sum has wrapped it is negative and the next read panics.
\<close>

function (sequential) skip :: "bytes \<Rightarrow> pb_error + int"
  and skipGroup :: "nat \<Rightarrow> bytes \<Rightarrow> pb_error + int" where
  "skip d =
     (if d = [] then Inl SliceBounds
      else case varintLoop 0 (0 :: uint64) 0 d of
        Inl e \<Rightarrow> Inl e
      | Inr (wire, i) \<Rightarrow>
          (let wireType = unat (wire AND 7)
           in if wireType = 0 then map_sum (\<lambda>e. e) int (skipVarint 0 i (drop i d))
              else if wireType = 1 then Inr (wrap64 (int i + 8))
              else if wireType = 2 then
                (case varintLoop 0 (0 :: int64) i (drop i d) of
                   Inl e \<Rightarrow> Inl e
                 | Inr (len, j) \<Rightarrow>
                     if sint len < 0 then Inl ErrInvalidLength
                     else Inr (wrap64 (int j + sint len)))
              else if wireType = 3 then skipGroup i (drop i d)
              else if wireType = 4 then Inr (int i)
              else if wireType = 5 then Inr (wrap64 (int i + 4))
              else Inl IllegalWireType))"
| "skipGroup start d =
     (case varintLoop 0 (0 :: uint64) start d of
        Inl e \<Rightarrow> Inl e
      | Inr (innerWire, j) \<Rightarrow>
          if unat (innerWire AND 7) = 4 then Inr (int j)
          else (case skip d of
                  Inl e \<Rightarrow> Inl e
                | Inr nxt \<Rightarrow>
                    (let k = wrap64 (int start + nxt)
                     in if k \<le> int start then Inl SliceBounds
                        else skipGroup (nat k) (drop (nat k - start) d))))"
  by pat_completeness auto
termination
proof (relation "measure (case_sum (\<lambda>d. 2 * length d) (\<lambda>(i, d). 2 * length d + 1))", goal_cases)
  case (2 d x wire i wt)
  then show ?case using varintLoop_index [of 0 0 0 d wire i] by (cases d) auto
next
  case (4 start d x wire j n k)
  then show ?case using varintLoop_index [of 0 0 start d wire j] by (cases d) auto
qed auto

text \<open>
  The decoders of one field, at index \<open>i\<close> with the bytes \<open>rest\<close> from there on. The result is what
  was read and the new index. \<^verbatim>\<open>postIndex\<close> is an unchecked addition: where it wraps, it is not
  larger than the length and the slice expression panics.
\<close>

definition readVarint :: "nat \<Rightarrow> nat \<Rightarrow> bytes \<Rightarrow> pb_error + 'a::len word \<times> nat" where
  "readVarint wireType i rest =
     (if wireType \<noteq> 0 then Inl (WrongWireType (int wireType)) else varintLoop 0 0 i rest)"

definition readSlice :: "nat \<Rightarrow> bytes \<Rightarrow> nat \<Rightarrow> pb_error + bytes \<times> nat" where
  "readSlice i rest n =
     (let postIndex = i + n
      in if postIndex \<ge> 2 ^ 63 then Inl SliceBounds
         else if postIndex > i + length rest then Inl ErrUnexpectedEOF
         else Inr (take n rest, postIndex))"

definition readBytes :: "nat \<Rightarrow> nat \<Rightarrow> bytes \<Rightarrow> pb_error + bytes \<times> nat" where
  "readBytes wireType i rest =
     (if wireType \<noteq> 2 then Inl (WrongWireType (int wireType))
      else case varintLoop 0 (0 :: int64) i rest of
        Inl e \<Rightarrow> Inl e
      | Inr (byteLen, j) \<Rightarrow>
          if sint byteLen < 0 then Inl ErrInvalidLength
          else readSlice j (drop (j - i) rest) (unat byteLen))"

definition readFixed32 :: "nat \<Rightarrow> nat \<Rightarrow> bytes \<Rightarrow> pb_error + uint32 \<times> nat" where
  "readFixed32 wireType i rest =
     (if wireType \<noteq> 5 then Inl (WrongWireType (int wireType))
      else if length rest < 4 then Inl ErrUnexpectedEOF
      else Inr (Uint32 rest, i + 4))"

text \<open>The default branch: the skipped bytes, tag included, and the index after them.\<close>

definition readUnknown :: "nat \<Rightarrow> bytes \<Rightarrow> pb_error + bytes \<times> nat" where
  "readUnknown preIndex rest =
     (case skip rest of
        Inl e \<Rightarrow> Inl e
      | Inr skippy \<Rightarrow>
          if skippy < 0 then Inl ErrInvalidLength else readSlice preIndex rest (nat skippy))"

text \<open>
  The tag loop of every \<^verbatim>\<open>Unmarshal\<close>. The argument \<open>h\<close> is the \<^verbatim>\<open>switch\<close> on the field number: it
  gets the field number, the wire type, the message so far, the position before the tag and the
  position after it, and returns the message and the new index.
\<close>

type_synonym cursor = "nat \<times> bytes"
type_synonym 'm fields = "int \<Rightarrow> nat \<Rightarrow> 'm \<Rightarrow> cursor \<Rightarrow> cursor \<Rightarrow> pb_error + 'm \<times> nat"

function unmarshalLoop :: "'m fields \<Rightarrow> nat \<Rightarrow> 'm \<Rightarrow> nat \<Rightarrow> bytes \<Rightarrow> pb_error + 'm" where
  "unmarshalLoop h l m i rest =
     (if rest = [] then (if i > l then Inl ErrUnexpectedEOF else Inr m)
      else case varintLoop 0 (0 :: uint64) i rest of
        Inl e \<Rightarrow> Inl e
      | Inr (wire, j) \<Rightarrow>
          (let fieldNum = sint (ucast (drop_bit 3 wire) :: int32);
               wireType = unat (wire AND 7);
               rest' = drop (j - i) rest
           in if wireType = 4 then Inl EndGroup
              else if fieldNum \<le> 0 then Inl IllegalTag
              else (case h fieldNum wireType m (i, rest) (j, rest') of
                      Inl e \<Rightarrow> Inl e
                    | Inr (m', k) \<Rightarrow> unmarshalLoop h l m' k (drop (k - j) rest'))))"
  by pat_completeness auto
termination
proof (relation "measure (\<lambda>(h, l, m, i, rest). length rest)", goal_cases)
  case (2 h l m i rest x wire j)
  then show ?case using varintLoop_index [of 0 0 i rest wire j] by (cases rest) auto
qed simp

declare encodeVarint.simps [simp del] sov.simps [simp del] skip.simps [simp del]
  skipGroup.simps [simp del] unmarshalLoop.simps [simp del]

section \<open>Varints\<close>

lemma encodeVarint_nonempty [simp]: "encodeVarint v \<noteq> []"
  by (subst encodeVarint.simps) simp

lemma sov_length: "length (encodeVarint v) = sov v"
proof (induction v rule: encodeVarint.induct)
  case (1 v)
  have "v \<ge> 0x80 \<longleftrightarrow> drop_bit 7 v \<noteq> 0"
  proof -
    have "unat (drop_bit 7 v) \<noteq> 0 \<longleftrightarrow> unat v \<ge> 0x80"
      by (simp only: unat_drop_bit) (simp add: div_eq_0_iff not_less)
    then show ?thesis by (simp add: word_le_nat_alt unat_eq_0)
  qed
  with 1 show ?case
    by (subst encodeVarint.simps, subst sov.simps) (simp add: Let_def)
qed

lemma varint_low_bits_mask:
  "push_bit s (ucast (ucast (v AND mask 7 OR push_bit 7 1 :: uint64) :: byte) AND mask 7)
     OR push_bit (s + 7) (ucast (drop_bit 7 v)) = push_bit s (ucast v :: 'a::len word)"
proof (rule bit_word_eqI)
  fix n assume n: "n < LENGTH('a)"
  have m: "bit (mask 7 :: 'b::len word) k \<longleftrightarrow> k < LENGTH('b) \<and> k < 7" for k
    by (simp only: bit_mask_iff possible_bit_word) 
  consider "n < s" | "s \<le> n" "n - s < 7" | "s + 7 \<le> n" by linarith
  then show "bit (push_bit s (ucast (ucast (v AND mask 7 OR push_bit 7 1 :: uint64) :: byte) AND mask 7)
     OR push_bit (s + 7) (ucast (drop_bit 7 v)) :: 'a word) n = bit (push_bit s (ucast v :: 'a word)) n"
  proof cases
    case 1
    then show ?thesis using n by (simp only: bit_or_iff bit_push_bit_iff) auto
  next
    case 2
    then show ?thesis using n
      by (simp only: bit_or_iff bit_push_bit_iff bit_and_iff m bit_unsigned_iff possible_bit_word) auto
  next
    case 3
    then show ?thesis using n
      by (simp only: bit_or_iff bit_push_bit_iff bit_and_iff m bit_unsigned_iff bit_drop_bit_eq possible_bit_word) 
       (auto dest: bit_imp_le_length)
  qed
qed

lemma word_0x7f: "(0x7f :: 'a::len word) = mask 7"
  by (simp add: mask_eq_exp_minus_1)

lemma word_0x80: "(0x80 :: 'a::len word) = push_bit 7 1"
  by simp

lemma varint_low_bits:
  "push_bit s (ucast (ucast (v AND 0x7f OR 0x80 :: uint64) :: byte) AND 0x7F)
     OR push_bit (s + 7) (ucast (drop_bit 7 v)) = push_bit s (ucast v :: 'a::len word)"
  unfolding word_0x7f word_0x80 by (rule varint_low_bits_mask)

lemma small_varint: 
  assumes "\<not> (0x80 :: uint64) \<le> v" 
  shows "v AND mask 7 = v" "unat v < 128"
proof -
  show "unat v < 128" using assms by (simp add: word_le_nat_alt)
  then show "v AND mask 7 = v"
    by (intro less_mask_eq) (simp add: word_less_nat_alt)
qed

lemma varint_low_byte:
  assumes "\<not> (0x80 :: uint64) \<le> v"
  shows "ucast (ucast v :: byte) AND 0x7F = (ucast v :: 'a::len word)"
proof -
  have "ucast (ucast (v AND mask 7) :: byte) AND mask 7 = (ucast (v AND mask 7) :: 'a word)"
    by (rule bit_word_eqI)
      (auto simp only: bit_and_iff bit_mask_iff bit_unsigned_iff possible_bit_word
        dest: bit_imp_le_length, auto)
  then show ?thesis using small_varint(1) [OF assms] word_0x7f [where 'a = 'a] by simp
qed

lemma varint_cont_byte: "\<not> (ucast (v AND 0x7f OR 0x80 :: uint64) :: byte) < 0x80"
proof -
  have "(0x80 :: byte) \<le> ucast (v AND 0x7f) OR 0x80" by (rule le_word_or1)
  then show ?thesis by (simp add: unsigned_or_eq not_less)
qed

lemma varint_last_byte: "\<not> (0x80 :: uint64) \<le> v \<Longrightarrow> (ucast v :: byte) < 0x80"
  by (drule small_varint(2)) (simp add: word_less_nat_alt unsigned_ucast_eq take_bit_nat_eq_self)

lemma varintLoop_encode:
  "unat v < 2 ^ (64 - s) \<Longrightarrow> s < 64 \<Longrightarrow>
     varintLoop s (acc :: 'a::len word) i (encodeVarint v @ rest)
       = Inr (acc OR push_bit s (ucast v), i + length (encodeVarint v))"
proof (induction v arbitrary: s acc i rule: encodeVarint.induct)
  case (1 v)
  show ?case
  proof (cases "v \<ge> 0x80")
    case True
    have "(2::nat) ^ 7 < 2 ^ (64 - s)"
      using True "1.prems"(1) by (simp add: word_le_nat_alt)
    then have s: "s + 7 < 64" by (subst (asm) power_strict_increasing_iff) auto
    have "unat (drop_bit 7 v) < 2 ^ (64 - (s + 7))"
      using "1.prems"(1) s power_add [of "2::nat" "57 - s" 7]
      by (simp only: unat_drop_bit) (simp add: div_less_iff_less_mult)
    from "1.IH" [OF True this s] s show ?thesis
      using True varint_cont_byte [of v] varint_low_bits [where 'a = 'a, of s v]
      by (subst (1 2) encodeVarint.simps) (simp add: Let_def or.assoc)
  next
    case False
    with "1.prems"(2) show ?thesis
      by (subst (1 2) encodeVarint.simps)
        (simp add: Let_def varint_low_byte varint_last_byte)
  qed
qed


lemma encodeVarint_max: "unat (v :: uint64) < 2 ^ (64 - 0)"
  using unsigned_less [of v] by simp

lemma readVarint_encode [simp]:
  "readVarint 0 i (encodeVarint v @ rest) = Inr (ucast v, i + sov v)"
  by (simp add: readVarint_def varintLoop_encode [OF encodeVarint_max] sov_length)

lemma readVarint_bool [simp]:
  "readVarint 0 i ((if b then 1 else 0) # rest) = Inr (if b then 1 else 0, i + 1)"
  by (simp add: readVarint_def Let_def)

lemma unat_of_nat_length: "n < 2 ^ 63 \<Longrightarrow> unat (of_nat n :: int64) = n"
  by (simp add: unat_of_nat)

lemma sint_small: "unat w < 2 ^ (LENGTH('a) - 1) \<Longrightarrow> sint (w :: 'a::len word) = int (unat w)"
proof -
  assume "unat w < 2 ^ (LENGTH('a) - 1)"
  then have "int (unat w) < 2 ^ (LENGTH('a) - 1)" by (metis of_nat_less_iff of_nat_numeral of_nat_power)
  then have "signed_take_bit (LENGTH('a) - 1) (uint w) = uint w"
    by (intro signed_take_bit_int_eq_self) (auto intro: order_trans [of _ 0])
  then show ?thesis by (simp add: sint_uint)
qed

lemma sint_of_nat_length: "n < 2 ^ 63 \<Longrightarrow> sint (of_nat n :: int64) = int n"
  by (subst sint_small) (simp_all add: unat_of_nat_length)

lemma readBytes_encode [simp]:
  assumes "i + sov (of_nat (length b)) + length b < 2 ^ 63"
  shows "readBytes 2 i (encodeVarint (of_nat (length b)) @ b @ rest)
    = Inr (b, i + sov (of_nat (length b)) + length b)"
proof -
  have b: "length b < 2 ^ 63" using assms by simp
  then have "\<not> sint (of_nat (length b) :: int64) < 0" by (simp add: sint_of_nat_length)
  with assms b show ?thesis
    by (simp add: readBytes_def varintLoop_encode [OF encodeVarint_max] sov_length
        readSlice_def unat_of_nat_length)
qed

lemma Uint32_PutUint32 [simp]: "Uint32 (PutUint32 v @ rest) = v"
  using be_word_be_bytes [of 4 v] by (simp add: Uint32_def PutUint32_def)

lemma PutUint32_length [simp]: "length (PutUint32 v) = 4"
  by (simp add: PutUint32_def)

lemma readFixed32_encode [simp]: "readFixed32 5 i (PutUint32 v @ rest) = Inr (v, i + 4)"
  by (simp add: readFixed32_def)

lemma varintField_length [simp]: "length (varintField t v) = 1 + sov v"
  by (simp add: varintField_def sov_length)

lemma bytesField_length [simp]: "length (bytesField t b) = bytesFieldSize (length b)"
  by (simp add: bytesField_def bytesFieldSize_def sov_length)

lemma boolField_length [simp]: "length (boolField t b) = 2"
  by (simp add: boolField_def)

section \<open>The tag loop\<close>

lemma unmarshalLoop_Nil [simp]: "i \<le> l \<Longrightarrow> unmarshalLoop h l m i [] = Inr m"
  by (simp add: unmarshalLoop.simps)

text \<open>The tags of the modelled messages have field numbers below 16 and fit one byte.\<close>

definition tag_ok :: "byte \<Rightarrow> bool" where
  "tag_ok t \<longleftrightarrow> t < 0x80 \<and> unat (t AND 7) \<noteq> 4 \<and> 0 < unat (drop_bit 3 t)"

lemma tag_word:
  assumes "t < (0x80 :: byte)"
  shows "(ucast t :: uint64) AND 0x7F = ucast t"
proof -
  have "unat (ucast t :: uint64) < 128"
    using assms by (simp add: word_less_nat_alt unsigned_ucast_eq take_bit_nat_eq_self)
  then show ?thesis unfolding word_0x7f by (intro less_mask_eq) (simp add: word_less_nat_alt)
qed

lemma tag_fieldNum: "sint (ucast (drop_bit 3 (ucast t :: uint64)) :: int32) = int (unat (drop_bit 3 (t :: byte)))"
proof -
  have "unat (ucast (drop_bit 3 (ucast t :: uint64)) :: int32) = unat (drop_bit 3 t)"
    using unat_word_bound [of t]
    by (simp only: unsigned_ucast_eq unat_drop_bit) (simp add: unsigned_ucast_eq take_bit_nat_eq_self)
  moreover have "unat (drop_bit 3 t) < 2 ^ 31"
    using unat_word_bound [of t] by (simp only: unat_drop_bit) simp
  ultimately show ?thesis by (subst sint_small) simp_all
qed

lemma tag_wireType: "unat (ucast t AND 7 :: uint64) = unat (t AND 7 :: byte)"
proof -
  have "(ucast (t AND 7) :: uint64) = ucast t AND 7" by (simp add: unsigned_and_eq)
  moreover have "unat (ucast (t AND 7) :: uint64) = unat (t AND 7)"
    using unat_word_bound [of "t AND 7"] by (simp add: unsigned_ucast_eq take_bit_nat_eq_self)
  ultimately show ?thesis by simp
qed

lemma unmarshalLoop_field:
  assumes "tag_ok t"
    and "h (int (unat (drop_bit 3 t))) (unat (t AND 7)) m (i, t # x @ rest) (i + 1, x @ rest)
      = Inr (m', i + 1 + length x)"
  shows "unmarshalLoop h l m i (t # x @ rest) = unmarshalLoop h l m' (i + 1 + length x) rest"
proof -
  have t: "t < 0x80" "unat (t AND 7) \<noteq> 4" "0 < unat (drop_bit 3 t)"
    using assms(1) unfolding tag_ok_def by blast+
  then have "varintLoop 0 (0 :: uint64) i (t # x @ rest) = Inr (ucast t, i + 1)"
    by (simp add: Let_def tag_word)
  moreover have "uint (drop_bit 3 t) \<noteq> 0"
    using t(3) by (metis unsigned_eq_0_iff less_irrefl unsigned_0)
  ultimately show ?thesis using t assms(2)
    by (subst unmarshalLoop.simps) (simp add: tag_fieldNum tag_wireType Let_def)
qed

lemma unmarshalLoop_opt:
  assumes "tag_ok t" "f = (if c then t # x else [])"
    and "c \<Longrightarrow> h (int (unat (drop_bit 3 t))) (unat (t AND 7)) m (i, t # x @ rest) (i + 1, x @ rest)
      = Inr (m', i + 1 + length x)"
    and "\<not> c \<Longrightarrow> m' = m"
  shows "unmarshalLoop h l m i (f @ rest) = unmarshalLoop h l m' (i + length f) rest"
  using assms unmarshalLoop_field [OF assms(1), of h m i x rest m' l] by (cases c) auto

lemma msgField_length [simp]: "length (msgField t n b) = 1 + sov (of_nat n) + length b"
  by (simp add: msgField_def sov_length)

lemma ucast_scast_32 [simp]: "ucast (scast (v :: 32 word) :: uint64) = v"
  by (rule bit_word_eqI) (auto simp: bit_simps)

lemma ucast_ucast_32 [simp]: "ucast (ucast (v :: 32 word) :: uint64) = v"
  by (rule bit_word_eqI) (auto simp: bit_simps)

lemma readVarint_encode_end [simp]: "readVarint 0 i (encodeVarint v) = Inr (ucast v, i + sov v)"
  using readVarint_encode [of i v "[]"] by simp

lemma readBytes_encode_end [simp]:
  "i + sov (of_nat (length b)) + length b < 2 ^ 63 \<Longrightarrow>
     readBytes 2 i (encodeVarint (of_nat (length b)) @ b) = Inr (b, i + sov (of_nat (length b)) + length b)"
  using readBytes_encode [of i b "[]"] by simp

section \<open>Reading field by field\<close>

text \<open>Reading the bytes \<open>d\<close> at index \<open>i\<close> of a buffer of length \<open>l\<close> takes \<open>m\<close> to \<open>r\<close>.\<close>

definition reads :: "'m fields \<Rightarrow> nat \<Rightarrow> 'm \<Rightarrow> nat \<Rightarrow> bytes \<Rightarrow> 'm \<Rightarrow> bool" where
  "reads h l m i d r \<longleftrightarrow> (i + length d = l \<longrightarrow> unmarshalLoop h l m i d = Inr r)"

lemma reads_start: "reads h (length d) m 0 d r \<Longrightarrow> unmarshalLoop h (length d) m 0 d = Inr r"
  by (simp add: reads_def)

lemma reads_Nil: "reads h l m i [] m"
  by (simp add: reads_def)

lemma bytesField_msg: "bytesField t b = msgField t (length b) b"
  by (simp add: bytesField_def msgField_def)

lemma reads_Nil_eq: "m = r \<Longrightarrow> reads h l m i [] r"
  by (simp add: reads_Nil)

lemma reads_field:
  assumes "tag_ok t"
    and "i + 1 + length x \<le> l \<Longrightarrow>
      h (int (unat (drop_bit 3 t))) (unat (t AND 7)) m (i, t # x @ rest) (i + 1, x @ rest)
        = Inr (m', i + 1 + length x)"
    and "\<And>j. reads h l m' j rest r"
  shows "reads h l m i (t # x @ rest) r"
  using assms unmarshalLoop_field [OF assms(1), of h m i x rest m' l]
  by (fastforce simp: reads_def)

lemma reads_varint:
  assumes "tag_ok t"
    and "\<And>p pr j. c \<Longrightarrow>
      h (int (unat (drop_bit 3 t))) (unat (t AND 7)) m (p, pr) (j, encodeVarint v @ rest)
        = Inr (m', j + sov v)"
    and "\<not> c \<Longrightarrow> m = m'" and "\<And>j. reads h l m' j rest r"
  shows "reads h l m i ((if c then varintField t v else []) @ rest) r"
proof (cases c)
  case True
  with assms show ?thesis
    by (simp add: varintField_def) (rule reads_field, auto simp: sov_length)
qed (use assms in simp)

lemma reads_bytes:
  assumes "tag_ok t" "l < 2 ^ 63"
    and "\<And>p pr j. c \<Longrightarrow> j + sov (of_nat (length b)) + length b < 2 ^ 63 \<Longrightarrow>
      h (int (unat (drop_bit 3 t))) (unat (t AND 7)) m (p, pr)
         (j, encodeVarint (of_nat (length b)) @ b @ rest)
        = Inr (m', j + sov (of_nat (length b)) + length b)"
    and "\<not> c \<Longrightarrow> m = m'" and "\<And>j. reads h l m' j rest r"
  shows "reads h l m i ((if c then bytesField t b else []) @ rest) r"
proof (cases c)
  case True
  with reads_field [of t i "encodeVarint (of_nat (length b)) @ b" l h m rest m' r] assms
  show ?thesis by (simp add: bytesField_def sov_length add.assoc)
qed (use assms in simp)

lemma reads_fixed32:
  assumes "tag_ok t"
    and "\<And>p pr j. c \<Longrightarrow>
      h (int (unat (drop_bit 3 t))) (unat (t AND 7)) m (p, pr) (j, PutUint32 v @ rest)
        = Inr (m', j + 4)"
    and "\<not> c \<Longrightarrow> m = m'" and "\<And>j. reads h l m' j rest r"
  shows "reads h l m i ((if c then t # PutUint32 v else []) @ rest) r"
  using assms reads_field [of t i "PutUint32 v" l h m rest m' r] by (cases c) auto

lemma reads_bool:
  assumes "tag_ok t"
    and "\<And>p pr j. h (int (unat (drop_bit 3 t))) (unat (t AND 7)) m (p, pr)
        (j, (if b then 1 else 0) # rest) = Inr (m', j + 1)"
    and "\<And>j. reads h l m' j rest r"
  shows "reads h l m i (boolField t b @ rest) r"
  using assms reads_field [of t i "[if b then 1 else 0]" l h m rest m' r]
  by (simp add: boolField_def)

lemma reads_msg:
  assumes "tag_ok t" "l < 2 ^ 63" "n = length b"
    and "\<And>p pr j. j + sov (of_nat (length b)) + length b < 2 ^ 63 \<Longrightarrow>
      h (int (unat (drop_bit 3 t))) (unat (t AND 7)) m (p, pr)
         (j, encodeVarint (of_nat (length b)) @ b @ rest)
        = Inr (m', j + sov (of_nat (length b)) + length b)"
    and "\<And>j. reads h l m' j rest r"
  shows "reads h l m i (msgField t n b @ rest) r"
  using reads_bytes [of t l True b h m rest m' r i] assms by (simp add: msgField_def bytesField_def)

lemma reads_option:
  assumes "\<And>x. opt = Some x \<Longrightarrow> reads h l m i (f x @ rest) r"
    and "opt = None \<Longrightarrow> reads h l m i rest r"
  shows "reads h l m i ((case opt of None \<Rightarrow> [] | Some x \<Rightarrow> f x) @ rest) r"
  using assms by (cases opt) auto

section \<open>The tags in use\<close>

lemma tag_ok_tags [simp]:
  "tag_ok 0x08" "tag_ok 0x0a" "tag_ok 0x10" "tag_ok 0x12" "tag_ok 0x15" "tag_ok 0x18" "tag_ok 0x1a"
  "tag_ok 0x20" "tag_ok 0x22" "tag_ok 0x28" "tag_ok 0x32" "tag_ok 0x38"
  by code_simp+

lemma tag_numbers [simp]:
  "unat (drop_bit 3 (0x08 :: byte)) = 1" "unat (drop_bit 3 (0x0a :: byte)) = 1"
  "unat (drop_bit 3 (0x10 :: byte)) = 2" "unat (drop_bit 3 (0x12 :: byte)) = 2"
  "unat (drop_bit 3 (0x15 :: byte)) = 2" "unat (drop_bit 3 (0x18 :: byte)) = 3"
  "unat (drop_bit 3 (0x1a :: byte)) = 3" "unat (drop_bit 3 (0x20 :: byte)) = 4"
  "unat (drop_bit 3 (0x22 :: byte)) = 4" "unat (drop_bit 3 (0x28 :: byte)) = 5"
  "unat (drop_bit 3 (0x32 :: byte)) = 6" "unat (drop_bit 3 (0x38 :: byte)) = 7"
  by code_simp+

lemma tag_wireTypes [simp]:
  "unat (0x08 AND 7 :: byte) = 0" "unat (0x0a AND 7 :: byte) = 2" "unat (0x10 AND 7 :: byte) = 0"
  "unat (0x12 AND 7 :: byte) = 2" "unat (0x15 AND 7 :: byte) = 5" "unat (0x18 AND 7 :: byte) = 0"
  "unat (0x1a AND 7 :: byte) = 2" "unat (0x20 AND 7 :: byte) = 0" "unat (0x22 AND 7 :: byte) = 2"
  "unat (0x28 AND 7 :: byte) = 0" "unat (0x32 AND 7 :: byte) = 2" "unat (0x38 AND 7 :: byte) = 0"
  by code_simp+

end
