(* ===== verification/Messages.thy ===== *)
theory Messages
  imports Wire
begin

text \<open>
  The messages of \<^verbatim>\<open>src/meta/data.pb.go\<close> and \<^verbatim>\<open>src/storage/engine/mvcc.pb.go\<close> with their
  generated \<^verbatim>\<open>MarshalTo\<close>, \<^verbatim>\<open>Size\<close> and \<^verbatim>\<open>Unmarshal\<close>. \<^verbatim>\<open>MarshalTo\<close> returns the bytes it writes;
  \<^verbatim>\<open>Marshal\<close> allocates \<^verbatim>\<open>Size\<close> bytes and cuts the buffer to what was written. A conversion
  \<^verbatim>\<open>uint64(x)\<close> of an \<^verbatim>\<open>int32\<close> extends the sign. Each \<open>..._fields\<close> is the \<^verbatim>\<open>switch\<close> on the field
  number in the message's \<^verbatim>\<open>Unmarshal\<close>.
  Proved for every message: \<^verbatim>\<open>Size\<close> is the number of bytes written, and unmarshalling what was
  marshalled gives the message back.
\<close>

section \<open>Definitions\<close>

subsection \<open>Timestamp\<close>

definition Timestamp_MarshalTo :: "Timestamp \<Rightarrow> bytes" where
  "Timestamp_MarshalTo m =
     (if WallTime m \<noteq> 0 then varintField 0x08 (WallTime m) else []) @
     (if Logical m \<noteq> 0 then varintField 0x10 (scast (Logical m)) else [])"

definition Timestamp_Size :: "Timestamp \<Rightarrow> nat" where
  "Timestamp_Size m =
     (if WallTime m \<noteq> 0 then 1 + sov (WallTime m) else 0) +
     (if Logical m \<noteq> 0 then 1 + sov (scast (Logical m)) else 0)"

fun Timestamp_fields :: "Timestamp fields" where
  "Timestamp_fields f w m (p, prest) (i, rest) =
     (if f = 1 then bindE (readVarint w i rest) (\<lambda>(v, j). Inr (m\<lparr>WallTime := v\<rparr>, j))
      else if f = 2 then bindE (readVarint w i rest) (\<lambda>(v, j). Inr (m\<lparr>Logical := v\<rparr>, j))
      else bindE (readUnknown p prest) (\<lambda>(_, j). Inr (m, j)))"

definition Timestamp_Unmarshal :: "Timestamp \<Rightarrow> bytes \<Rightarrow> pb_error + Timestamp" where
  "Timestamp_Unmarshal m d = unmarshalLoop Timestamp_fields (length d) m 0 d"

subsection \<open>Span\<close>

definition Span_MarshalTo :: "Span \<Rightarrow> bytes" where
  "Span_MarshalTo m =
     (if length (SpanKey m) > 0 then bytesField 0x1a (SpanKey m) else []) @
     (if length (SpanEndKey m) > 0 then bytesField 0x22 (SpanEndKey m) else [])"

definition Span_Size :: "Span \<Rightarrow> nat" where
  "Span_Size m =
     (let l = length (SpanKey m) in if l > 0 then bytesFieldSize l else 0) +
     (let l = length (SpanEndKey m) in if l > 0 then bytesFieldSize l else 0)"

fun Span_fields :: "Span fields" where
  "Span_fields f w m (p, prest) (i, rest) =
     (if f = 3 then bindE (readBytes w i rest) (\<lambda>(b, j). Inr (m\<lparr>SpanKey := b\<rparr>, j))
      else if f = 4 then bindE (readBytes w i rest) (\<lambda>(b, j). Inr (m\<lparr>SpanEndKey := b\<rparr>, j))
      else bindE (readUnknown p prest) (\<lambda>(_, j). Inr (m, j)))"

definition Span_Unmarshal :: "Span \<Rightarrow> bytes \<Rightarrow> pb_error + Span" where
  "Span_Unmarshal m d = unmarshalLoop Span_fields (length d) m 0 d"

subsection \<open>Value\<close>

definition Value_MarshalTo :: "Value \<Rightarrow> bytes" where
  "Value_MarshalTo m =
     (if length (Bytes m) > 0 then bytesField 0x0a (Bytes m) else []) @
     (if Checksum m \<noteq> 0 then 0x15 # PutUint32 (Checksum m) else []) @
     (case ValTimestamp m of
        None \<Rightarrow> []
      | Some ts \<Rightarrow> msgField 0x1a (Timestamp_Size ts) (Timestamp_MarshalTo ts)) @
     (if Tag m \<noteq> 0 then varintField 0x20 (scast (Tag m)) else [])"

definition Value_Size :: "Value \<Rightarrow> nat" where
  "Value_Size m =
     (let l = length (Bytes m) in if l > 0 then bytesFieldSize l else 0) +
     (if Checksum m \<noteq> 0 then 5 else 0) +
     (case ValTimestamp m of None \<Rightarrow> 0 | Some ts \<Rightarrow> bytesFieldSize (Timestamp_Size ts)) +
     (if Tag m \<noteq> 0 then 1 + sov (scast (Tag m)) else 0)"

fun Value_fields :: "Value fields" where
  "Value_fields f w m (p, prest) (i, rest) =
     (if f = 1 then bindE (readBytes w i rest) (\<lambda>(b, j). Inr (m\<lparr>Bytes := b\<rparr>, j))
      else if f = 2 then bindE (readFixed32 w i rest) (\<lambda>(v, j). Inr (m\<lparr>Checksum := v\<rparr>, j))
      else if f = 3 then
        bindE (readBytes w i rest) (\<lambda>(b, j).
          let ts = (case ValTimestamp m of None \<Rightarrow> zero_ts | Some ts \<Rightarrow> ts)
          in bindE (Timestamp_Unmarshal ts b) (\<lambda>ts'. Inr (m\<lparr>ValTimestamp := Some ts'\<rparr>, j)))
      else if f = 4 then bindE (readVarint w i rest) (\<lambda>(v, j). Inr (m\<lparr>Tag := v\<rparr>, j))
      else bindE (readUnknown p prest) (\<lambda>(_, j). Inr (m, j)))"

definition Value_Unmarshal :: "Value \<Rightarrow> bytes \<Rightarrow> pb_error + Value" where
  "Value_Unmarshal m d = unmarshalLoop Value_fields (length d) m 0 d"

subsection \<open>Key-value pairs\<close>

record KeyValue =
  KVKey :: bytes
  KVValue :: Value

definition KeyValue_MarshalTo :: "KeyValue \<Rightarrow> bytes" where
  "KeyValue_MarshalTo m =
     (if length (KVKey m) > 0 then bytesField 0x0a (KVKey m) else []) @
     msgField 0x12 (Value_Size (KVValue m)) (Value_MarshalTo (KVValue m))"

definition KeyValue_Size :: "KeyValue \<Rightarrow> nat" where
  "KeyValue_Size m =
     (let l = length (KVKey m) in if l > 0 then bytesFieldSize l else 0) +
     bytesFieldSize (Value_Size (KVValue m))"

fun KeyValue_fields :: "KeyValue fields" where
  "KeyValue_fields f w m (p, prest) (i, rest) =
     (if f = 1 then bindE (readBytes w i rest) (\<lambda>(b, j). Inr (m\<lparr>KVKey := b\<rparr>, j))
      else if f = 2 then
        bindE (readBytes w i rest) (\<lambda>(b, j).
          bindE (Value_Unmarshal (KVValue m) b) (\<lambda>v. Inr (m\<lparr>KVValue := v\<rparr>, j)))
      else bindE (readUnknown p prest) (\<lambda>(_, j). Inr (m, j)))"

definition KeyValue_Unmarshal :: "KeyValue \<Rightarrow> bytes \<Rightarrow> pb_error + KeyValue" where
  "KeyValue_Unmarshal m d = unmarshalLoop KeyValue_fields (length d) m 0 d"

record MVCCKeyValue =
  MKVKey :: bytes
  MKVValue :: bytes

definition MVCCKeyValue_MarshalTo :: "MVCCKeyValue \<Rightarrow> bytes" where
  "MVCCKeyValue_MarshalTo m =
     (if length (MKVKey m) > 0 then bytesField 0x0a (MKVKey m) else []) @
     (if length (MKVValue m) > 0 then bytesField 0x12 (MKVValue m) else [])"

definition MVCCKeyValue_Size :: "MVCCKeyValue \<Rightarrow> nat" where
  "MVCCKeyValue_Size m =
     (let l = length (MKVKey m) in if l > 0 then bytesFieldSize l else 0) +
     (let l = length (MKVValue m) in if l > 0 then bytesFieldSize l else 0)"

fun MVCCKeyValue_fields :: "MVCCKeyValue fields" where
  "MVCCKeyValue_fields f w m (p, prest) (i, rest) =
     (if f = 1 then bindE (readBytes w i rest) (\<lambda>(b, j). Inr (m\<lparr>MKVKey := b\<rparr>, j))
      else if f = 2 then bindE (readBytes w i rest) (\<lambda>(b, j). Inr (m\<lparr>MKVValue := b\<rparr>, j))
      else bindE (readUnknown p prest) (\<lambda>(_, j). Inr (m, j)))"

definition MVCCKeyValue_Unmarshal :: "MVCCKeyValue \<Rightarrow> bytes \<Rightarrow> pb_error + MVCCKeyValue" where
  "MVCCKeyValue_Unmarshal m d = unmarshalLoop MVCCKeyValue_fields (length d) m 0 d"

type_synonym SnapshotKeyValues = "MVCCKeyValue list"

fun SnapshotKeyValues_MarshalTo :: "SnapshotKeyValues \<Rightarrow> bytes" where
  "SnapshotKeyValues_MarshalTo [] = []"
| "SnapshotKeyValues_MarshalTo (msg # ms) =
     msgField 0x0a (MVCCKeyValue_Size msg) (MVCCKeyValue_MarshalTo msg) @
     SnapshotKeyValues_MarshalTo ms"

fun SnapshotKeyValues_Size :: "SnapshotKeyValues \<Rightarrow> nat" where
  "SnapshotKeyValues_Size [] = 0"
| "SnapshotKeyValues_Size (e # es) =
     bytesFieldSize (MVCCKeyValue_Size e) + SnapshotKeyValues_Size es"

fun SnapshotKeyValues_fields :: "SnapshotKeyValues fields" where
  "SnapshotKeyValues_fields f w m (p, prest) (i, rest) =
     (if f = 1 then
        bindE (readBytes w i rest) (\<lambda>(b, j).
          bindE (MVCCKeyValue_Unmarshal \<lparr>MKVKey = [], MKVValue = []\<rparr> b)
            (\<lambda>kv. Inr (m @ [kv], j)))
      else bindE (readUnknown p prest) (\<lambda>(_, j). Inr (m, j)))"

definition SnapshotKeyValues_Unmarshal ::
    "SnapshotKeyValues \<Rightarrow> bytes \<Rightarrow> pb_error + SnapshotKeyValues" where
  "SnapshotKeyValues_Unmarshal m d = unmarshalLoop SnapshotKeyValues_fields (length d) m 0 d"

subsection \<open>Transaction\<close>

definition key_bytes :: "bytes option \<Rightarrow> bytes" where
  "key_bytes k = (case k of None \<Rightarrow> [] | Some b \<Rightarrow> b)"

definition Transaction_MarshalTo :: "Transaction \<Rightarrow> bytes" where
  "Transaction_MarshalTo m =
     (if length (Name m) > 0 then bytesField 0x0a (Name m) else []) @
     (if length (key_bytes (ID m)) > 0 then bytesField 0x12 (key_bytes (ID m)) else []) @
     (if Priority m \<noteq> 0 then varintField 0x18 (scast (Priority m)) else []) @
     (if Status m \<noteq> 0 then varintField 0x20 (scast (Status m)) else []) @
     (if LastHeartbeat m \<noteq> 0 then varintField 0x28 (LastHeartbeat m) else []) @
     msgField 0x32 (Timestamp_Size (TxnTimestamp m)) (Timestamp_MarshalTo (TxnTimestamp m)) @
     (if Sequence m \<noteq> 0 then varintField 0x38 (ucast (Sequence m)) else [])"

definition Transaction_Size :: "Transaction \<Rightarrow> nat" where
  "Transaction_Size m =
     (let l = length (Name m) in if l > 0 then bytesFieldSize l else 0) +
     (let l = length (key_bytes (ID m)) in if l > 0 then bytesFieldSize l else 0) +
     (if Priority m \<noteq> 0 then 1 + sov (scast (Priority m)) else 0) +
     (if Status m \<noteq> 0 then 1 + sov (scast (Status m)) else 0) +
     (if LastHeartbeat m \<noteq> 0 then 1 + sov (LastHeartbeat m) else 0) +
     bytesFieldSize (Timestamp_Size (TxnTimestamp m)) +
     (if Sequence m \<noteq> 0 then 1 + sov (ucast (Sequence m)) else 0)"

fun Transaction_fields :: "Transaction fields" where
  "Transaction_fields f w m (p, prest) (i, rest) =
     (if f = 1 then bindE (readBytes w i rest) (\<lambda>(b, j). Inr (m\<lparr>Name := b\<rparr>, j))
      else if f = 2 then bindE (readBytes w i rest) (\<lambda>(b, j). Inr (m\<lparr>ID := Some b\<rparr>, j))
      else if f = 3 then bindE (readVarint w i rest) (\<lambda>(v, j). Inr (m\<lparr>Priority := v\<rparr>, j))
      else if f = 4 then bindE (readVarint w i rest) (\<lambda>(v, j). Inr (m\<lparr>Status := v\<rparr>, j))
      else if f = 5 then bindE (readVarint w i rest) (\<lambda>(v, j). Inr (m\<lparr>LastHeartbeat := v\<rparr>, j))
      else if f = 6 then
        bindE (readBytes w i rest) (\<lambda>(b, j).
          bindE (Timestamp_Unmarshal (TxnTimestamp m) b) (\<lambda>ts. Inr (m\<lparr>TxnTimestamp := ts\<rparr>, j)))
      else if f = 7 then bindE (readVarint w i rest) (\<lambda>(v, j). Inr (m\<lparr>Sequence := v\<rparr>, j))
      else bindE (readUnknown p prest) (\<lambda>(_, j). Inr (m, j)))"

definition Transaction_Unmarshal :: "Transaction \<Rightarrow> bytes \<Rightarrow> pb_error + Transaction" where
  "Transaction_Unmarshal m d = unmarshalLoop Transaction_fields (length d) m 0 d"

subsection \<open>Intent\<close>

definition Intent_MarshalTo :: "Intent \<Rightarrow> bytes" where
  "Intent_MarshalTo m =
     msgField 0x0a (Span_Size (IntentSpan m)) (Span_MarshalTo (IntentSpan m)) @
     msgField 0x12 (Transaction_Size (IntentTxn m)) (Transaction_MarshalTo (IntentTxn m))"

definition Intent_Size :: "Intent \<Rightarrow> nat" where
  "Intent_Size m =
     bytesFieldSize (Span_Size (IntentSpan m)) + bytesFieldSize (Transaction_Size (IntentTxn m))"

fun Intent_fields :: "Intent fields" where
  "Intent_fields f w m (p, prest) (i, rest) =
     (if f = 1 then
        bindE (readBytes w i rest) (\<lambda>(b, j).
          bindE (Span_Unmarshal (IntentSpan m) b) (\<lambda>s. Inr (m\<lparr>IntentSpan := s\<rparr>, j)))
      else if f = 2 then
        bindE (readBytes w i rest) (\<lambda>(b, j).
          bindE (Transaction_Unmarshal (IntentTxn m) b) (\<lambda>t. Inr (m\<lparr>IntentTxn := t\<rparr>, j)))
      else bindE (readUnknown p prest) (\<lambda>(_, j). Inr (m, j)))"

definition Intent_Unmarshal :: "Intent \<Rightarrow> bytes \<Rightarrow> pb_error + Intent" where
  "Intent_Unmarshal m d = unmarshalLoop Intent_fields (length d) m 0 d"

subsection \<open>MVCC values and metadata\<close>

text \<open>
  These two messages keep the fields they do not know in \<^verbatim>\<open>XXX_unrecognized\<close>; a nil slice there
  is the empty list, which marshals alike.
\<close>

record MVCCValue =
  MVDeleted :: bool
  MVValue :: "Value option"
  MVUnrecognized :: bytes

definition MVCCValue_MarshalTo :: "MVCCValue \<Rightarrow> bytes" where
  "MVCCValue_MarshalTo m =
     boolField 0x08 (MVDeleted m) @
     (case MVValue m of
        None \<Rightarrow> [] | Some v \<Rightarrow> msgField 0x12 (Value_Size v) (Value_MarshalTo v)) @
     MVUnrecognized m"

definition MVCCValue_Size :: "MVCCValue \<Rightarrow> nat" where
  "MVCCValue_Size m =
     2 + (case MVValue m of None \<Rightarrow> 0 | Some v \<Rightarrow> bytesFieldSize (Value_Size v)) +
     length (MVUnrecognized m)"

fun MVCCValue_fields :: "MVCCValue fields" where
  "MVCCValue_fields f w m (p, prest) (i, rest) =
     (if f = 1 then
        bindE (readVarint w i rest) (\<lambda>(v, j). Inr (m\<lparr>MVDeleted := (v \<noteq> (0 :: int64))\<rparr>, j))
      else if f = 2 then
        bindE (readBytes w i rest) (\<lambda>(b, j).
          let v = (case MVValue m of None \<Rightarrow> zero_value | Some v \<Rightarrow> v)
          in bindE (Value_Unmarshal v b) (\<lambda>v'. Inr (m\<lparr>MVValue := Some v'\<rparr>, j)))
      else bindE (readUnknown p prest)
        (\<lambda>(b, j). Inr (m\<lparr>MVUnrecognized := MVUnrecognized m @ b\<rparr>, j)))"

definition MVCCValue_Unmarshal :: "MVCCValue \<Rightarrow> bytes \<Rightarrow> pb_error + MVCCValue" where
  "MVCCValue_Unmarshal m d = unmarshalLoop MVCCValue_fields (length d) m 0 d"

record MVCCMetadata =
  TransactionID :: "bytes option"
  MetaTimestamp :: Timestamp
  MetaDeleted :: bool
  MetaValue :: "Value option"
  MetaUnrecognized :: bytes

definition zero_meta :: MVCCMetadata where
  "zero_meta = \<lparr>TransactionID = None, MetaTimestamp = zero_ts, MetaDeleted = False,
     MetaValue = None, MetaUnrecognized = []\<rparr>"

definition MVCCMetadata_MarshalTo :: "MVCCMetadata \<Rightarrow> bytes" where
  "MVCCMetadata_MarshalTo m =
     (case TransactionID m of None \<Rightarrow> [] | Some b \<Rightarrow> bytesField 0x0a b) @
     msgField 0x12 (Timestamp_Size (MetaTimestamp m)) (Timestamp_MarshalTo (MetaTimestamp m)) @
     boolField 0x18 (MetaDeleted m) @
     (case MetaValue m of
        None \<Rightarrow> [] | Some v \<Rightarrow> msgField 0x22 (Value_Size v) (Value_MarshalTo v)) @
     MetaUnrecognized m"

definition MVCCMetadata_Size :: "MVCCMetadata \<Rightarrow> nat" where
  "MVCCMetadata_Size m =
     (case TransactionID m of None \<Rightarrow> 0 | Some b \<Rightarrow> bytesFieldSize (length b)) +
     bytesFieldSize (Timestamp_Size (MetaTimestamp m)) + 2 +
     (case MetaValue m of None \<Rightarrow> 0 | Some v \<Rightarrow> bytesFieldSize (Value_Size v)) +
     length (MetaUnrecognized m)"

fun MVCCMetadata_fields :: "MVCCMetadata fields" where
  "MVCCMetadata_fields f w m (p, prest) (i, rest) =
     (if f = 1 then bindE (readBytes w i rest) (\<lambda>(b, j). Inr (m\<lparr>TransactionID := Some b\<rparr>, j))
      else if f = 2 then
        bindE (readBytes w i rest) (\<lambda>(b, j).
          bindE (Timestamp_Unmarshal (MetaTimestamp m) b)
            (\<lambda>ts. Inr (m\<lparr>MetaTimestamp := ts\<rparr>, j)))
      else if f = 3 then
        bindE (readVarint w i rest) (\<lambda>(v, j). Inr (m\<lparr>MetaDeleted := (v \<noteq> (0 :: int64))\<rparr>, j))
      else if f = 4 then
        bindE (readBytes w i rest) (\<lambda>(b, j).
          let v = (case MetaValue m of None \<Rightarrow> zero_value | Some v \<Rightarrow> v)
          in bindE (Value_Unmarshal v b) (\<lambda>v'. Inr (m\<lparr>MetaValue := Some v'\<rparr>, j)))
      else bindE (readUnknown p prest)
        (\<lambda>(b, j). Inr (m\<lparr>MetaUnrecognized := MetaUnrecognized m @ b\<rparr>, j)))"

definition MVCCMetadata_Unmarshal :: "MVCCMetadata \<Rightarrow> bytes \<Rightarrow> pb_error + MVCCMetadata" where
  "MVCCMetadata_Unmarshal m d = unmarshalLoop MVCCMetadata_fields (length d) m 0 d"

section \<open>Sizes\<close>

lemma Timestamp_Size [simp]: "length (Timestamp_MarshalTo m) = Timestamp_Size m"
  by (simp add: Timestamp_MarshalTo_def Timestamp_Size_def)

lemma Span_Size [simp]: "length (Span_MarshalTo m) = Span_Size m"
  by (simp add: Span_MarshalTo_def Span_Size_def Let_def)

lemma Value_Size [simp]: "length (Value_MarshalTo m) = Value_Size m"
  by (simp add: Value_MarshalTo_def Value_Size_def Let_def bytesFieldSize_def split: option.split)

lemma KeyValue_Size [simp]: "length (KeyValue_MarshalTo m) = KeyValue_Size m"
  by (simp add: KeyValue_MarshalTo_def KeyValue_Size_def Let_def bytesFieldSize_def)

lemma MVCCKeyValue_Size [simp]: "length (MVCCKeyValue_MarshalTo m) = MVCCKeyValue_Size m"
  by (simp add: MVCCKeyValue_MarshalTo_def MVCCKeyValue_Size_def Let_def)

lemma SnapshotKeyValues_Size [simp]:
  "length (SnapshotKeyValues_MarshalTo ms) = SnapshotKeyValues_Size ms"
  by (induction ms) (simp_all add: bytesFieldSize_def)

lemma Transaction_Size [simp]: "length (Transaction_MarshalTo m) = Transaction_Size m"
  by (simp add: Transaction_MarshalTo_def Transaction_Size_def Let_def bytesFieldSize_def)

lemma Intent_Size [simp]: "length (Intent_MarshalTo m) = Intent_Size m"
  by (simp add: Intent_MarshalTo_def Intent_Size_def bytesFieldSize_def)

lemma MVCCValue_Size [simp]: "length (MVCCValue_MarshalTo m) = MVCCValue_Size m"
  by (simp add: MVCCValue_MarshalTo_def MVCCValue_Size_def bytesFieldSize_def split: option.split)

lemma MVCCMetadata_Size [simp]: "length (MVCCMetadata_MarshalTo m) = MVCCMetadata_Size m"
  by (simp add: MVCCMetadata_MarshalTo_def MVCCMetadata_Size_def bytesFieldSize_def
      split: option.split)

section \<open>Round trips\<close>

lemma Timestamp_roundtrip: "Timestamp_Unmarshal zero_ts (Timestamp_MarshalTo t) = Inr t"
proof -
  let ?h = Timestamp_fields
  let ?f2 = "if Logical t \<noteq> 0 then varintField 0x10 (scast (Logical t)) else []"
  have 2: "reads ?h l (zero_ts\<lparr>WallTime := WallTime t\<rparr>) i (?f2 @ []) t" for i l
    by (rule reads_varint [OF _ _ _ reads_Nil]) (auto simp: zero_ts_def)
  have 1: "reads ?h l zero_ts i (Timestamp_MarshalTo t @ []) t" for i l
    unfolding Timestamp_MarshalTo_def append_assoc
    by (rule reads_varint [OF _ _ _ 2]) (auto simp: zero_ts_def)
  then show ?thesis unfolding Timestamp_Unmarshal_def append_Nil2 by (rule reads_start)
qed

lemma Value_roundtrip:
  assumes "Value_Size v < 2 ^ 63"
  shows "Value_Unmarshal zero_value (Value_MarshalTo v) = Inr v"
proof -
  let ?h = Value_fields
  let ?f4 = "if Tag v \<noteq> 0 then varintField 0x20 (scast (Tag v)) else []"
  let ?m1 = "zero_value\<lparr>Bytes := Bytes v\<rparr>"
  let ?m2 = "?m1\<lparr>Checksum := Checksum v\<rparr>"
  let ?m3 = "?m2\<lparr>ValTimestamp := ValTimestamp v\<rparr>"
  have 4: "reads ?h l ?m3 i (?f4 @ []) v" for i l
    by (rule reads_varint [OF _ _ _ reads_Nil]) (auto simp: zero_value_def)
  have 3: "reads ?h l ?m2 i (msgField 0x1a (Timestamp_Size ts) (Timestamp_MarshalTo ts) @ ?f4 @ []) v"
    if "l < 2 ^ 63" "ValTimestamp v = Some ts" for i l ts
    by (rule reads_msg [OF _ that(1) _ _ 4])
      (auto simp: zero_value_def Timestamp_roundtrip that(2) simp flip: Timestamp_Size)
  let ?f3 = "case ValTimestamp v of None \<Rightarrow> []
     | Some ts \<Rightarrow> msgField 0x1a (Timestamp_Size ts) (Timestamp_MarshalTo ts)"
  have 2: "reads ?h l ?m2 i (?f3 @ ?f4 @ []) v" if "l < 2 ^ 63" for i l
    by (rule reads_option [OF 3 [OF that]]) (use 4 [of l i] in \<open>simp_all add: zero_value_def\<close>)
  have 1: "reads ?h l ?m1 i
      ((if Checksum v \<noteq> 0 then 0x15 # PutUint32 (Checksum v) else []) @ ?f3 @ ?f4 @ []) v"
    if "l < 2 ^ 63" for i l
    by (rule reads_fixed32 [OF _ _ _ 2 [OF that]]) (auto simp: zero_value_def)
  have "reads ?h l zero_value i (Value_MarshalTo v @ []) v" if "l < 2 ^ 63" for i l
    unfolding Value_MarshalTo_def append_assoc
    by (rule reads_bytes [OF _ that _ _ 1 [OF that]]) (auto simp: zero_value_def)
  then show ?thesis unfolding Value_Unmarshal_def append_Nil2
    using assms by (intro reads_start) simp
qed

lemma Span_roundtrip:
  assumes "Span_Size m < 2 ^ 63"
  shows "Span_Unmarshal \<lparr>SpanKey = [], SpanEndKey = []\<rparr> (Span_MarshalTo m) = Inr m"
proof -
  have 2: "reads Span_fields l \<lparr>SpanKey = SpanKey m, SpanEndKey = []\<rparr> i
      ((if length (SpanEndKey m) > 0 then bytesField 0x22 (SpanEndKey m) else []) @ []) m"
    if "l < 2 ^ 63" for i l
    by (rule reads_bytes [OF _ that _ _ reads_Nil]) auto
  have "reads Span_fields l \<lparr>SpanKey = [], SpanEndKey = []\<rparr> i (Span_MarshalTo m @ []) m"
    if "l < 2 ^ 63" for i l
    unfolding Span_MarshalTo_def append_assoc
    by (rule reads_bytes [OF _ that _ _ 2 [OF that]]) auto
  then show ?thesis unfolding Span_Unmarshal_def append_Nil2
    using assms by (intro reads_start) simp
qed

lemma MVCCKeyValue_roundtrip:
  assumes "MVCCKeyValue_Size m < 2 ^ 63"
  shows "MVCCKeyValue_Unmarshal \<lparr>MKVKey = [], MKVValue = []\<rparr> (MVCCKeyValue_MarshalTo m) = Inr m"
proof -
  have 2: "reads MVCCKeyValue_fields l \<lparr>MKVKey = MKVKey m, MKVValue = []\<rparr> i
      ((if length (MKVValue m) > 0 then bytesField 0x12 (MKVValue m) else []) @ []) m"
    if "l < 2 ^ 63" for i l
    by (rule reads_bytes [OF _ that _ _ reads_Nil]) auto
  have "reads MVCCKeyValue_fields l \<lparr>MKVKey = [], MKVValue = []\<rparr> i (MVCCKeyValue_MarshalTo m @ []) m"
    if "l < 2 ^ 63" for i l
    unfolding MVCCKeyValue_MarshalTo_def append_assoc
    by (rule reads_bytes [OF _ that _ _ 2 [OF that]]) auto
  then show ?thesis unfolding MVCCKeyValue_Unmarshal_def append_Nil2
    using assms by (intro reads_start) simp
qed

lemma KeyValue_roundtrip:
  assumes "KeyValue_Size m < 2 ^ 63"
  shows "KeyValue_Unmarshal \<lparr>KVKey = [], KVValue = zero_value\<rparr> (KeyValue_MarshalTo m) = Inr m"
proof -
  have v: "Value_Size (KVValue m) < 2 ^ 63"
    using assms by (simp add: KeyValue_Size_def bytesFieldSize_def)
  have 2: "reads KeyValue_fields l \<lparr>KVKey = KVKey m, KVValue = zero_value\<rparr> i
      (msgField 0x12 (Value_Size (KVValue m)) (Value_MarshalTo (KVValue m)) @ []) m"
    if "l < 2 ^ 63" for i l
    by (rule reads_msg [OF _ that _ _ reads_Nil])
      (use Value_roundtrip [OF v] in \<open>auto simp flip: Value_Size\<close>)
  have "reads KeyValue_fields l \<lparr>KVKey = [], KVValue = zero_value\<rparr> i (KeyValue_MarshalTo m @ []) m"
    if "l < 2 ^ 63" for i l
    unfolding KeyValue_MarshalTo_def append_assoc
    by (rule reads_bytes [OF _ that _ _ 2 [OF that]]) auto
  then show ?thesis unfolding KeyValue_Unmarshal_def append_Nil2
    using assms by (intro reads_start) simp
qed

lemma SnapshotKeyValues_reads:
  assumes "l < 2 ^ 63" "\<forall>kv \<in> set ms. MVCCKeyValue_Size kv < 2 ^ 63"
  shows "reads SnapshotKeyValues_fields l acc i (SnapshotKeyValues_MarshalTo ms) (acc @ ms)"
  using assms(2)
proof (induction ms arbitrary: acc i)
  case Nil
  then show ?case by (simp add: reads_Nil)
next
  case (Cons kv ms)
  have IH: "reads SnapshotKeyValues_fields l (acc @ [kv]) j (SnapshotKeyValues_MarshalTo ms)
      (acc @ kv # ms)" for j
    using Cons.IH [of "acc @ [kv]" j] Cons.prems by simp
  show ?case unfolding SnapshotKeyValues_MarshalTo.simps
    by (rule reads_msg [OF _ assms(1) _ _ IH])
      (use MVCCKeyValue_roundtrip [of kv] Cons.prems in \<open>auto simp flip: MVCCKeyValue_Size\<close>)
qed

lemma SnapshotKeyValues_elem_size:
  "kv \<in> set ms \<Longrightarrow> MVCCKeyValue_Size kv \<le> SnapshotKeyValues_Size ms"
  by (induction ms) (auto simp: bytesFieldSize_def)

lemma SnapshotKeyValues_roundtrip:
  assumes "SnapshotKeyValues_Size ms < 2 ^ 63"
  shows "SnapshotKeyValues_Unmarshal [] (SnapshotKeyValues_MarshalTo ms) = Inr ms"
proof -
  have "\<forall>kv \<in> set ms. MVCCKeyValue_Size kv < 2 ^ 63"
    using assms SnapshotKeyValues_elem_size le_less_trans by blast
  with assms SnapshotKeyValues_reads [of "length (SnapshotKeyValues_MarshalTo ms)" ms "[]" 0]
  show ?thesis unfolding SnapshotKeyValues_Unmarshal_def by (intro reads_start) simp
qed

text \<open>An empty transaction id is not written, so it comes back as nil.\<close>

definition txn_norm :: "Transaction \<Rightarrow> Transaction" where
  "txn_norm t = t\<lparr>ID := (if key_bytes (ID t) = [] then None else ID t)\<rparr>"

lemma Transaction_roundtrip:
  assumes "Transaction_Size t < 2 ^ 63"
  shows "Transaction_Unmarshal zero_txn (Transaction_MarshalTo t) = Inr (txn_norm t)"
proof -
  let ?h = Transaction_fields and ?r = "txn_norm t"
  let ?id = "if key_bytes (ID t) = [] then None else ID t"
  let ?m1 = "zero_txn\<lparr>Name := Name t\<rparr>"
  let ?m2 = "?m1\<lparr>ID := ?id\<rparr>"
  let ?m3 = "?m2\<lparr>Priority := Priority t\<rparr>"
  let ?m4 = "?m3\<lparr>Status := Status t\<rparr>"
  let ?m5 = "?m4\<lparr>LastHeartbeat := LastHeartbeat t\<rparr>"
  let ?m6 = "?m5\<lparr>TxnTimestamp := TxnTimestamp t\<rparr>"
  let ?f7 = "(if Sequence t \<noteq> 0 then varintField 0x38 (ucast (Sequence t)) else []) @ []"
  let ?f6 = "msgField 0x32 (Timestamp_Size (TxnTimestamp t)) (Timestamp_MarshalTo (TxnTimestamp t)) @ ?f7"
  let ?f5 = "(if LastHeartbeat t \<noteq> 0 then varintField 0x28 (LastHeartbeat t) else []) @ ?f6"
  let ?f4 = "(if Status t \<noteq> 0 then varintField 0x20 (scast (Status t)) else []) @ ?f5"
  let ?f3 = "(if Priority t \<noteq> 0 then varintField 0x18 (scast (Priority t)) else []) @ ?f4"
  let ?f2 = "(if length (key_bytes (ID t)) > 0 then bytesField 0x12 (key_bytes (ID t)) else []) @ ?f3"
  note simps = zero_txn_def txn_norm_def Timestamp_roundtrip key_bytes_def
  have 7: "reads ?h l ?m6 i ?f7 ?r" for i l
    by (rule reads_varint [OF _ _ _ reads_Nil]) (auto simp: simps)
  have 6: "reads ?h l ?m5 i ?f6 ?r" if "l < 2 ^ 63" for i l
    by (rule reads_msg [OF _ that _ _ 7]) (auto simp: simps simp flip: Timestamp_Size)
  have 5: "reads ?h l ?m4 i ?f5 ?r" if "l < 2 ^ 63" for i l
    by (rule reads_varint [OF _ _ _ 6 [OF that]]) (auto simp: simps)
  have 4: "reads ?h l ?m3 i ?f4 ?r" if "l < 2 ^ 63" for i l
    by (rule reads_varint [OF _ _ _ 5 [OF that]]) (auto simp: simps)
  have 3: "reads ?h l ?m2 i ?f3 ?r" if "l < 2 ^ 63" for i l
    by (rule reads_varint [OF _ _ _ 4 [OF that]]) (auto simp: simps)
  have 2: "reads ?h l ?m1 i ?f2 ?r" if "l < 2 ^ 63" for i l
    by (rule reads_bytes [OF _ that _ _ 3 [OF that]]) (auto simp: simps split: option.splits)
  have "reads ?h l zero_txn i (Transaction_MarshalTo t @ []) ?r" if "l < 2 ^ 63" for i l
    unfolding Transaction_MarshalTo_def append_assoc
    by (rule reads_bytes [OF _ that _ _ 2 [OF that]]) (auto simp: simps)
  then show ?thesis unfolding Transaction_Unmarshal_def append_Nil2
    using assms by (intro reads_start) simp
qed

lemma Intent_roundtrip:
  assumes "Intent_Size m < 2 ^ 63"
  shows "Intent_Unmarshal \<lparr>IntentSpan = \<lparr>SpanKey = [], SpanEndKey = []\<rparr>, IntentTxn = zero_txn\<rparr>
      (Intent_MarshalTo m) = Inr (m\<lparr>IntentTxn := txn_norm (IntentTxn m)\<rparr>)"
proof -
  let ?r = "m\<lparr>IntentTxn := txn_norm (IntentTxn m)\<rparr>"
  have sizes: "Span_Size (IntentSpan m) < 2 ^ 63" "Transaction_Size (IntentTxn m) < 2 ^ 63"
    using assms by (simp_all add: Intent_Size_def bytesFieldSize_def)
  have 2: "reads Intent_fields l \<lparr>IntentSpan = IntentSpan m, IntentTxn = zero_txn\<rparr> i
      (msgField 0x12 (Transaction_Size (IntentTxn m)) (Transaction_MarshalTo (IntentTxn m)) @ []) ?r"
    if "l < 2 ^ 63" for i l
    by (rule reads_msg [OF _ that _ _ reads_Nil])
      (use Transaction_roundtrip [OF sizes(2)] in \<open>auto simp flip: Transaction_Size\<close>)
  have "reads Intent_fields l \<lparr>IntentSpan = \<lparr>SpanKey = [], SpanEndKey = []\<rparr>, IntentTxn = zero_txn\<rparr> i
      (Intent_MarshalTo m @ []) ?r" if "l < 2 ^ 63" for i l
    unfolding Intent_MarshalTo_def append_assoc
    by (rule reads_msg [OF _ that _ _ 2 [OF that]])
      (use Span_roundtrip [OF sizes(1)] in \<open>auto simp flip: Span_Size\<close>)
  then show ?thesis unfolding Intent_Unmarshal_def append_Nil2
    using assms by (intro reads_start) simp
qed

lemma MVCCValue_roundtrip:
  assumes "MVCCValue_Size m < 2 ^ 63" "MVUnrecognized m = []"
  shows "MVCCValue_Unmarshal \<lparr>MVDeleted = False, MVValue = None, MVUnrecognized = []\<rparr>
      (MVCCValue_MarshalTo m) = Inr m"
proof -
  let ?f2 = "(case MVValue m of None \<Rightarrow> [] | Some v \<Rightarrow> msgField 0x12 (Value_Size v) (Value_MarshalTo v)) @ []"
  let ?m1 = "\<lparr>MVDeleted = MVDeleted m, MVValue = None, MVUnrecognized = []\<rparr>"
  have sz: "Value_Size v < 2 ^ 63" if "MVValue m = Some v" for v
    using assms that by (simp add: MVCCValue_Size_def bytesFieldSize_def)
  have 3: "reads MVCCValue_fields l ?m1 i (msgField 0x12 (Value_Size v) (Value_MarshalTo v) @ []) m"
    if "l < 2 ^ 63" "MVValue m = Some v" for i l v
    by (rule reads_msg [OF _ that(1) _ _ reads_Nil])
      (use Value_roundtrip [OF sz [OF that(2)]] that(2) assms(2) in \<open>auto simp flip: Value_Size\<close>)
  have 2: "reads MVCCValue_fields l ?m1 i ?f2 m" if "l < 2 ^ 63" for i l
    by (rule reads_option [OF 3 [OF that]])
      (auto simp: assms(2) intro!: reads_Nil_eq)
  have "reads MVCCValue_fields l \<lparr>MVDeleted = False, MVValue = None, MVUnrecognized = []\<rparr> i
      (MVCCValue_MarshalTo m @ []) m" if "l < 2 ^ 63" for i l
    unfolding MVCCValue_MarshalTo_def append_assoc assms(2) append_Nil
    by (rule reads_bool [OF _ _ 2 [OF that]]) auto
  then show ?thesis unfolding MVCCValue_Unmarshal_def append_Nil2
    using assms by (intro reads_start) simp
qed

lemma MVCCMetadata_roundtrip:
  assumes "MVCCMetadata_Size m < 2 ^ 63" "MetaUnrecognized m = []"
  shows "MVCCMetadata_Unmarshal zero_meta (MVCCMetadata_MarshalTo m) = Inr m"
proof -
  let ?h = MVCCMetadata_fields
  let ?m1 = "zero_meta\<lparr>TransactionID := TransactionID m\<rparr>"
  let ?m2 = "?m1\<lparr>MetaTimestamp := MetaTimestamp m\<rparr>"
  let ?m3 = "?m2\<lparr>MetaDeleted := MetaDeleted m\<rparr>"
  let ?f4 = "(case MetaValue m of None \<Rightarrow> [] | Some v \<Rightarrow> msgField 0x22 (Value_Size v) (Value_MarshalTo v)) @ []"
  let ?f3 = "boolField 0x18 (MetaDeleted m) @ ?f4"
  let ?f2 = "msgField 0x12 (Timestamp_Size (MetaTimestamp m)) (Timestamp_MarshalTo (MetaTimestamp m)) @ ?f3"
  note simps = zero_meta_def Timestamp_roundtrip assms(2)
  have sz: "Value_Size v < 2 ^ 63" if "MetaValue m = Some v" for v
    using assms that by (simp add: MVCCMetadata_Size_def bytesFieldSize_def)
  have 5: "reads ?h l ?m3 i (msgField 0x22 (Value_Size v) (Value_MarshalTo v) @ []) m"
    if "l < 2 ^ 63" "MetaValue m = Some v" for i l v
    by (rule reads_msg [OF _ that(1) _ _ reads_Nil])
      (use Value_roundtrip [OF sz [OF that(2)]] that(2) in \<open>auto simp: simps simp flip: Value_Size\<close>)
  have 4: "reads ?h l ?m3 i ?f4 m" if "l < 2 ^ 63" for i l
    by (rule reads_option [OF 5 [OF that]]) (auto simp: simps intro!: reads_Nil_eq)
  have 3: "reads ?h l ?m2 i ?f3 m" if "l < 2 ^ 63" for i l
    by (rule reads_bool [OF _ _ 4 [OF that]]) (auto simp: simps)
  have 2: "reads ?h l ?m1 i ?f2 m" if "l < 2 ^ 63" for i l
    by (rule reads_msg [OF _ that _ _ 3 [OF that]]) (auto simp: simps simp flip: Timestamp_Size)
  have 1: "reads ?h l zero_meta i (bytesField 0x0a b @ ?f2) m"
    if "l < 2 ^ 63" "TransactionID m = Some b" for i l b
    unfolding bytesField_msg
    by (rule reads_msg [OF _ that(1) _ _ 2 [OF that(1)]]) (use that(2) in \<open>auto simp: simps\<close>)
  have "reads ?h l zero_meta i (MVCCMetadata_MarshalTo m @ []) m" if "l < 2 ^ 63" for i l
    unfolding MVCCMetadata_MarshalTo_def append_assoc assms(2) append_Nil
    by (rule reads_option [OF 1 [OF that]]) (use 2 [OF that, of i] in \<open>auto simp: simps\<close>)
  then show ?thesis unfolding MVCCMetadata_Unmarshal_def append_Nil2
    using assms by (intro reads_start) simp
qed

section \<open>Properties\<close>

text \<open>
  C38. A transaction record survives the wire format: \<^verbatim>\<open>Size\<close> is the number of bytes \<^verbatim>\<open>MarshalTo\<close>
  writes, and unmarshalling them into a fresh message gives the record back, negative numbers
  included; only an empty id comes back as nil.
\<close>

theorem Transaction_wire_roundtrip:
  assumes "Transaction_Size t < 2 ^ 63"
  shows "length (Transaction_MarshalTo t) = Transaction_Size t \<and>
    Transaction_Unmarshal zero_txn (Transaction_MarshalTo t) = Inr (txn_norm t)"
  using Transaction_roundtrip [OF assms] by simp

theorem Transaction_wire_roundtrip_witness:
  "let t = \<lparr>Name = [0x61], ID = Some [1, 2], Priority = -1, Status = 1, LastHeartbeat = 300,
            TxnTimestamp = \<lparr>WallTime = 70000, Logical = 3\<rparr>, Sequence = 5\<rparr>
   in Transaction_Size t < 2 ^ 63 \<and> Transaction_Unmarshal zero_txn (Transaction_MarshalTo t) = Inr t"
proof -
  let ?t = "\<lparr>Name = [0x61], ID = Some [1, 2], Priority = -1, Status = 1, LastHeartbeat = 300,
            TxnTimestamp = \<lparr>WallTime = 70000, Logical = 3\<rparr>, Sequence = 5\<rparr>"
  have "Transaction_Size ?t < 100" by code_simp
  then have "Transaction_Size ?t < 2 ^ 63" by simp
  with Transaction_wire_roundtrip [of ?t] show ?thesis by (simp add: txn_norm_def key_bytes_def)
qed

text \<open>
  C39. MVCC metadata survives the wire format, the difference between a nil and an empty
  transaction id included.
\<close>

theorem MVCCMetadata_wire_roundtrip:
  assumes "MVCCMetadata_Size m < 2 ^ 63" and "MetaUnrecognized m = []"
  shows "length (MVCCMetadata_MarshalTo m) = MVCCMetadata_Size m \<and>
    MVCCMetadata_Unmarshal zero_meta (MVCCMetadata_MarshalTo m) = Inr m"
  using MVCCMetadata_roundtrip [OF assms] by simp

theorem MVCCMetadata_wire_roundtrip_witness:
  "let m = zero_meta\<lparr>TransactionID := Some [], MetaTimestamp := \<lparr>WallTime = 200, Logical = 0\<rparr>\<rparr>
   in MVCCMetadata_Unmarshal zero_meta (MVCCMetadata_MarshalTo m) = Inr m"
proof -
  let ?m = "zero_meta\<lparr>TransactionID := Some [], MetaTimestamp := \<lparr>WallTime = 200, Logical = 0\<rparr>\<rparr>"
  have "MVCCMetadata_Size ?m < 100" by code_simp
  then have "MVCCMetadata_Size ?m < 2 ^ 63" by simp
  moreover have "MetaUnrecognized ?m = []" by (simp add: zero_meta_def)
  ultimately show ?thesis using MVCCMetadata_wire_roundtrip [of ?m] by simp
qed

text \<open>
  A raft snapshot, a list of encoded key-value pairs of any length, survives the wire format
  in order.
\<close>

theorem SnapshotKeyValues_wire_roundtrip:
  assumes "SnapshotKeyValues_Size ms < 2 ^ 63"
  shows "length (SnapshotKeyValues_MarshalTo ms) = SnapshotKeyValues_Size ms \<and>
    SnapshotKeyValues_Unmarshal [] (SnapshotKeyValues_MarshalTo ms) = Inr ms"
  using SnapshotKeyValues_roundtrip [OF assms] by simp

theorem SnapshotKeyValues_wire_roundtrip_witness:
  "let ms = [\<lparr>MKVKey = [1], MKVValue = [2, 3]\<rparr>, \<lparr>MKVKey = [4], MKVValue = []\<rparr>]
   in SnapshotKeyValues_Unmarshal [] (SnapshotKeyValues_MarshalTo ms) = Inr ms"
proof -
  let ?ms = "[\<lparr>MKVKey = [1], MKVValue = [2, 3]\<rparr>, \<lparr>MKVKey = [4], MKVValue = []\<rparr>]"
  have "SnapshotKeyValues_Size ?ms < 100" by code_simp
  then have "SnapshotKeyValues_Size ?ms < 2 ^ 63" by simp
  with SnapshotKeyValues_wire_roundtrip [of ?ms] show ?thesis by simp
qed

end
