(* ===== verification/Engine.thy ===== *)
theory Engine
  imports Messages
begin

text \<open>
  The storage engine of \<^verbatim>\<open>src/storage/engine/engine.go\<close> and \<^verbatim>\<open>src/storage/engine/badger.go\<close>. The
  embedded store badger is a third-party package: its operations are the record \<open>badger\<close>, a
  parameter of every definition, and what the code relies on is the locale \<open>badger_laws\<close>. The
  Go interface \<^verbatim>\<open>Engine\<close> is the record \<open>Engine\<close> with its three implementations \<open>rocksdb\<close>,
  \<open>rocksDBSnapshot\<close> and \<open>rocksDBBatch\<close>. An iterator is what a \<^verbatim>\<open>Seek\<close> leaves in front of it: the
  list of the remaining pairs, a value being \<^const>\<open>None\<close> for a nil slice. The engine is open: the
  opening and closing of files is not modelled.
  The contract a client of an engine relies on is the locale \<open>engine_read\<close> with its extensions;
  the interpretations show which implementation keeps which part of it. \<^verbatim>\<open>RocksDB.Clear\<close> does not
  keep the contract of \<open>Clear\<close>, because it never commits.
\<close>

section \<open>Definitions\<close>

subsection \<open>Badger\<close>

text \<open>
  The operations of badger the code calls. \<open>bGet\<close> is \<^verbatim>\<open>txn.Get\<close> followed by \<^verbatim>\<open>item.Value\<close>;
  \<open>bIter\<close> is an iterator of a transaction after \<^verbatim>\<open>Seek\<close>; \<^const>\<open>ErrNotFound\<close> stands for
  \<^verbatim>\<open>badger.ErrKeyNotFound\<close>.
\<close>

record ('db, 'txn) badger =
  bNewTransaction :: "bool \<Rightarrow> 'db \<Rightarrow> 'txn"
  bSet :: "bytes \<Rightarrow> bytes \<Rightarrow> ('txn, error, unit) op"
  bDelete :: "bytes \<Rightarrow> ('txn, error, unit) op"
  bGet :: "bytes \<Rightarrow> 'txn \<Rightarrow> error + bytes option"
  bIter :: "bool \<Rightarrow> bytes \<Rightarrow> 'txn \<Rightarrow> (bytes \<times> bytes option) list"
  bCommit :: "'txn \<Rightarrow> ('db, error, unit) op"
  bUpdate :: "('txn, error, unit) op \<Rightarrow> ('db, error, unit) op"

subsection \<open>The engine interface\<close>

record 'e Engine =
  Put :: "bytes \<Rightarrow> bytes \<Rightarrow> ('e, error, unit) op"
  Get :: "bytes \<Rightarrow> 'e \<Rightarrow> error + bytes option"
  Clear :: "bytes \<Rightarrow> ('e, error, unit) op"
  Seek :: "bool \<Rightarrow> bytes \<Rightarrow> 'e \<Rightarrow> (bytes \<times> bytes option) list"

definition emptyKeyError :: error where
  "emptyKeyError = Errorf ''attempted access to empty key''"

text \<open>
  The loop all three \<^verbatim>\<open>Iterate\<close> methods share: stop at \<open>stop\<close>, or when the callback is done or
  fails. The callback works on a state of its own.
\<close>

fun iterateLoop ::
    "bytes \<Rightarrow> (MVCCKeyValue \<Rightarrow> ('s, error, bool) op) \<Rightarrow> (bytes \<times> bytes option) list
       \<Rightarrow> ('s, error, unit) op" where
  "iterateLoop stop f [] s = (Inr (), s)"
| "iterateLoop stop f ((k, v) # kvs) s =
     (if \<not> k < stop then (Inr (), s)
      else case f \<lparr>MKVKey = k, MKVValue = key_bytes v\<rparr> s of
        (Inl e, s') \<Rightarrow> (Inl e, s')
      | (Inr done, s') \<Rightarrow> if done then (Inr (), s') else iterateLoop stop f kvs s')"

definition Iterate ::
    "'e Engine \<Rightarrow> bytes \<Rightarrow> bytes \<Rightarrow> (MVCCKeyValue \<Rightarrow> ('s, error, bool) op) \<Rightarrow> 'e
       \<Rightarrow> ('s, error, unit) op" where
  "Iterate E start stop f e s =
     (if start \<ge> stop then (Inr (), s) else iterateLoop stop f (Seek E False start e) s)"

definition Scan ::
    "'e Engine \<Rightarrow> bytes \<Rightarrow> bytes \<Rightarrow> int64 \<Rightarrow> 'e \<Rightarrow> error + MVCCKeyValue list" where
  "Scan E start stop mx e =
     (case Iterate E start stop
        (\<lambda>kv kvs. if mx \<noteq> 0 \<and> int (length kvs) \<ge> sint mx then (Inr True, kvs)
                  else (Inr False, kvs @ [kv])) e [] of
        (Inl err, _) \<Rightarrow> Inl err
      | (Inr _, kvs) \<Rightarrow> Inr kvs)"

text \<open>\<^verbatim>\<open>PutProto\<close>, for a message given by its marshalled bytes; the result is both sizes.\<close>

definition PutProto :: "'e Engine \<Rightarrow> bytes \<Rightarrow> pb_error + bytes \<Rightarrow> ('e, error, nat \<times> nat) op" where
  "PutProto E key marshalled =
     (case marshalled of
        Inl err \<Rightarrow> fail (ProtoError err)
      | Inr data \<Rightarrow> bindM (Put E key data) (\<lambda>_. ret (length key, length data)))"

subsection \<open>RocksDB\<close>

definition RocksDB_Put :: "('db, 'txn) badger \<Rightarrow> bytes \<Rightarrow> bytes \<Rightarrow> ('db, error, unit) op" where
  "RocksDB_Put B key val =
     (if length key = 0 then fail emptyKeyError else bUpdate B (bSet B key val))"

text \<open>A nil transaction handle is \<^const>\<open>None\<close>.\<close>

definition getInternal ::
    "('db, 'txn) badger \<Rightarrow> bytes \<Rightarrow> 'txn option \<Rightarrow> 'db \<Rightarrow> error + bytes option" where
  "getInternal B key txn db =
     (if length key = 0 then Inl emptyKeyError
      else let txn = (case txn of None \<Rightarrow> bNewTransaction B False db | Some t \<Rightarrow> t)
           in case bGet B key txn of
                Inl err \<Rightarrow> if err = ErrNotFound then Inr None else Inl err
              | Inr v \<Rightarrow> Inr v)"

text \<open>
  \<^verbatim>\<open>getProtoInternal\<close> with the message's \<open>unmarshal\<close> (\<^const>\<open>None\<close> for a nil message): the
  decoded message, whether it was found, and the sizes.
\<close>

definition getProtoInternal ::
    "('db, 'txn) badger \<Rightarrow> bytes \<Rightarrow> (bytes \<Rightarrow> pb_error + 'm) option \<Rightarrow> 'txn option \<Rightarrow> 'db
       \<Rightarrow> error + 'm option \<times> bool \<times> nat \<times> nat" where
  "getProtoInternal B key unmarshal txn db =
     (if length key = 0 then Inl emptyKeyError
      else case getInternal B key txn db of
        Inl e \<Rightarrow> Inl e
      | Inr data \<Rightarrow>
          (case unmarshal of
             None \<Rightarrow> Inr (None, True, length key, length (key_bytes data))
           | Some u \<Rightarrow>
               (case u (key_bytes data) of
                  Inl err \<Rightarrow> Inl (ProtoError err)
                | Inr msg \<Rightarrow> Inr (Some msg, True, length key, length (key_bytes data)))))"

text \<open>The transaction that holds the deletion is dropped; the database stays as it is.\<close>

definition RocksDB_Clear :: "('db, 'txn) badger \<Rightarrow> bytes \<Rightarrow> ('db, error, unit) op" where
  "RocksDB_Clear B key db =
     (if length key = 0 then (Inl emptyKeyError, db)
      else (fst (bDelete B key (bNewTransaction B True db)), db))"

text \<open>\<^verbatim>\<open>newRocksDBIterator\<close> and \<^verbatim>\<open>Seek\<close>; without a transaction handle \<open>reverse\<close> is not used.\<close>

definition newRocksDBIterator ::
    "('db, 'txn) badger \<Rightarrow> 'txn option \<Rightarrow> bool \<Rightarrow> bytes \<Rightarrow> 'db \<Rightarrow> (bytes \<times> bytes option) list" where
  "newRocksDBIterator B txn reverse key db =
     (case txn of
        Some t \<Rightarrow> bIter B reverse key t
      | None \<Rightarrow> bIter B False key (bNewTransaction B True db))"

definition rocksdb :: "('db, 'txn) badger \<Rightarrow> 'db Engine" where
  "rocksdb B = \<lparr>Put = RocksDB_Put B, Get = (\<lambda>key. getInternal B key None),
     Clear = RocksDB_Clear B, Seek = newRocksDBIterator B None\<rparr>"

subsection \<open>Snapshots\<close>

record ('db, 'txn) snapshot =
  parent :: 'db
  handle :: 'txn

definition NewSnapshot :: "('db, 'txn) badger \<Rightarrow> 'db \<Rightarrow> ('db, 'txn) snapshot" where
  "NewSnapshot B db = \<lparr>parent = db, handle = bNewTransaction B False db\<rparr>"

definition rocksDBSnapshot :: "('db, 'txn) badger \<Rightarrow> ('db, 'txn) snapshot Engine" where
  "rocksDBSnapshot B =
     \<lparr>Put = (\<lambda>key val. fail (Errorf ''cannot Put to a snapshot'')),
      Get = (\<lambda>key s. getInternal B key (Some (handle s)) (parent s)),
      Clear = (\<lambda>key. fail (Errorf ''cannot Clear from a snapshot'')),
      Seek = (\<lambda>reverse key s.
        newRocksDBIterator B (Some (handle s)) reverse key (parent s))\<rparr>"

subsection \<open>Batches\<close>

text \<open>A batch that was committed or closed has a nil transaction; using it then panics.\<close>

record ('txn, 'f) batch =
  batchTxn :: "'txn option"
  defers :: "'f list"

definition NilPointer :: error where
  "NilPointer = Panic ''nil pointer dereference''"

definition newRocksDBBatch :: "('db, 'txn) badger \<Rightarrow> 'db \<Rightarrow> ('txn, 'f) batch" where
  "newRocksDBBatch B db = \<lparr>batchTxn = Some (bNewTransaction B True db), defers = []\<rparr>"

definition onBatch :: "('txn, error, unit) op \<Rightarrow> (('txn, 'f) batch, error, unit) op" where
  "onBatch m b =
     (case batchTxn b of
        None \<Rightarrow> (Inl NilPointer, b)
      | Some t \<Rightarrow> (case m t of (r, t') \<Rightarrow> (r, b\<lparr>batchTxn := Some t'\<rparr>)))"

definition rocksDBBatch_Get ::
    "('db, 'txn) badger \<Rightarrow> bytes \<Rightarrow> ('txn, 'f) batch \<Rightarrow> error + bytes option" where
  "rocksDBBatch_Get B key b =
     (if length key = 0 then Inl emptyKeyError
      else case batchTxn b of None \<Rightarrow> Inl NilPointer | Some t \<Rightarrow> bGet B key t)"

definition rocksDBBatch :: "('db, 'txn) badger \<Rightarrow> ('txn, 'f) batch Engine" where
  "rocksDBBatch B =
     \<lparr>Put = (\<lambda>key val. if length key = 0 then fail emptyKeyError else onBatch (bSet B key val)),
      Get = rocksDBBatch_Get B,
      Clear = (\<lambda>key. if length key = 0 then fail emptyKeyError else onBatch (bDelete B key)),
      Seek = (\<lambda>reverse key b.
        case batchTxn b of None \<Rightarrow> [] | Some t \<Rightarrow> bIter B reverse key t)\<rparr>"

text \<open>On success the result is the deferred callbacks in the order they run.\<close>

definition rocksDBBatch_Commit ::
    "('db, 'txn) badger \<Rightarrow> (('txn, 'f) batch \<times> 'db, error, 'f list) op" where
  "rocksDBBatch_Commit B s =
     (case s of (b, db) \<Rightarrow>
        case batchTxn b of
          None \<Rightarrow> (Inl (Panic ''this batch was already committed''), s)
        | Some t \<Rightarrow>
            (case bCommit B t db of
               (Inl e, db') \<Rightarrow> (Inl e, (b, db'))
             | (Inr _, db') \<Rightarrow> (Inr (rev (defers b)), (\<lparr>batchTxn = None, defers = []\<rparr>, db'))))"

definition rocksDBBatch_Close :: "('txn, 'f) batch \<Rightarrow> ('txn, 'f) batch" where
  "rocksDBBatch_Close b = b\<lparr>batchTxn := None\<rparr>"

definition rocksDBBatch_Defer :: "'f \<Rightarrow> ('txn, 'f) batch \<Rightarrow> ('txn, 'f) batch" where
  "rocksDBBatch_Defer f b = b\<lparr>defers := defers b @ [f]\<rparr>"

text \<open>\<^verbatim>\<open>ClearRange\<close> on the database: the deletions are collected in a batch and committed at once.\<close>

definition ClearRange :: "('db, 'txn) badger \<Rightarrow> bytes \<Rightarrow> bytes \<Rightarrow> ('db, error, nat) op" where
  "ClearRange B start stop db =
     (case Iterate (rocksdb B) start stop
        (\<lambda>kv (b, count).
           case Clear (rocksDBBatch B) (MKVKey kv) b of
             (Inl e, b') \<Rightarrow> (Inl e, (b', count))
           | (Inr _, b') \<Rightarrow> (Inr False, (b', count + 1))) db
        (newRocksDBBatch B db :: ('txn, unit) batch, 0) of
        (Inl e, _) \<Rightarrow> (Inl e, db)
      | (Inr _, (b, count)) \<Rightarrow>
          (case rocksDBBatch_Commit B (b, db) of
             (Inl e, (_, db')) \<Rightarrow> (Inl e, db')
           | (Inr _, (_, db')) \<Rightarrow> (Inr count, db')))"

section \<open>Sorted key lists\<close>

lemma sorted_list_of_set_filter:
  assumes "finite A"
  shows "filter P (sorted_list_of_set A) = sorted_list_of_set {x \<in> A. P x}"
  using assms by (intro sorted_distinct_set_unique) (auto intro: sorted_wrt_filter)

lemma sorted_takeWhile_less: "sorted xs \<Longrightarrow> takeWhile (\<lambda>x. x < b) xs = filter (\<lambda>x. x < b) xs"
proof (induction xs)
  case (Cons x xs)
  then have "b \<le> x \<Longrightarrow> filter (\<lambda>y. y < b) xs = []"
    by (simp add: filter_empty_conv not_less) (meson order_trans)
  with Cons show ?case by (auto simp: not_less)
qed simp

section \<open>Contracts\<close>

text \<open>
  The pairs badger stores: a non-empty key of at most 65000 bytes without badger's own prefix,
  and a value that fits one transaction with room to spare. Values the program stores are never
  empty.
\<close>

definition badgerPrefix :: bytes where
  "badgerPrefix = [0x21, 0x62, 0x61, 0x64, 0x67, 0x65, 0x72, 0x21]"

definition storable :: "bytes \<Rightarrow> bool" where
  "storable k \<longleftrightarrow> k \<noteq> [] \<and> \<not> prefix badgerPrefix k \<and> length k \<le> 65000"

definition fits :: "bytes \<Rightarrow> bytes \<Rightarrow> bool" where
  "fits k v \<longleftrightarrow> storable k \<and> v \<noteq> [] \<and> length v \<le> 2 ^ 20"

text \<open>
  What badger documents, for a store whose disk does not fail: \<open>dview\<close> is the content of the
  database, \<open>tview\<close> what a transaction sees, its own writes included, and \<open>current t db\<close> says
  that \<open>t\<close> is a writable transaction started on \<open>db\<close>, which no other commit has changed since.
\<close>

locale badger_laws =
  fixes B :: "('db, 'txn) badger"
    and dview :: "'db \<Rightarrow> bytes \<rightharpoonup> bytes"
    and tview :: "'txn \<Rightarrow> bytes \<rightharpoonup> bytes"
    and current :: "'txn \<Rightarrow> 'db \<Rightarrow> bool"
  assumes new_view: "tview (bNewTransaction B w db) = dview db"
    and new_current: "current (bNewTransaction B True db) db"
    and set_law: "current t db \<Longrightarrow> fits k v \<Longrightarrow>
      \<exists>t'. bSet B k v t = (Inr (), t') \<and> tview t' = (tview t)(k \<mapsto> v) \<and> current t' db"
    and delete_law: "current t db \<Longrightarrow> storable k \<Longrightarrow>
      \<exists>t'. bDelete B k t = (Inr (), t') \<and> tview t' = (tview t)(k := None) \<and> current t' db"
    and get_found: "tview t k = Some v \<Longrightarrow> v \<noteq> [] \<Longrightarrow> bGet B k t = Inr (Some v)"
    and get_missing: "storable k \<Longrightarrow> tview t k = None \<Longrightarrow> bGet B k t = Inl ErrNotFound"
    and iter_keys: "map fst (bIter B rv k t) =
      (if rv then rev (sorted_list_of_set {x \<in> dom (tview t). x \<le> k})
       else sorted_list_of_set {x \<in> dom (tview t). k \<le> x})"
    and iter_vals: "(x, ov) \<in> set (bIter B rv k t) \<Longrightarrow> tview t x = Some u \<Longrightarrow> u \<noteq> [] \<Longrightarrow>
      ov = Some u"
    and commit_law: "current t db \<Longrightarrow> \<exists>db'. bCommit B t db = (Inr (), db') \<and> dview db' = tview t"
    and update_law: "bUpdate B f db =
      (case f (bNewTransaction B True db) of
         (Inl e, _) \<Rightarrow> (Inl e, db) | (Inr _, t) \<Rightarrow> bCommit B t db)"
    and finite_view: "finite (dom (dview db))" "finite (dom (tview t))"
    and stored_keys: "k \<in> dom (tview t) \<Longrightarrow> storable k"

text \<open>The contract of an engine, in the parts its implementations keep.\<close>

locale engine_read =
  fixes E :: "'e Engine" and view :: "'e \<Rightarrow> bytes \<rightharpoonup> bytes" and live :: "'e \<Rightarrow> bool"
  assumes Get_found: "live e \<Longrightarrow> view e k = Some v \<Longrightarrow> v \<noteq> [] \<Longrightarrow> Get E k e = Inr (Some v)"
    and Seek_keys: "live e \<Longrightarrow>
      map fst (Seek E False k e) = sorted_list_of_set {x \<in> dom (view e). k \<le> x}"
    and Seek_vals: "live e \<Longrightarrow> (x, ov) \<in> set (Seek E False k e) \<Longrightarrow> view e x = Some u \<Longrightarrow>
      u \<noteq> [] \<Longrightarrow> ov = Some u"
    and finite_dom: "live e \<Longrightarrow> finite (dom (view e))"

locale engine_nil = engine_read +
  assumes Get_missing: "live e \<Longrightarrow> storable k \<Longrightarrow> view e k = None \<Longrightarrow> Get E k e = Inr None"

locale engine_reverse = engine_nil +
  assumes Seek_reverse: "live e \<Longrightarrow>
      map fst (Seek E True k e) = rev (sorted_list_of_set {x \<in> dom (view e). x \<le> k})"

locale engine_write = engine_read +
  assumes Put_law: "live e \<Longrightarrow> fits k v \<Longrightarrow>
      \<exists>e'. Put E k v e = (Inr (), e') \<and> view e' = (view e)(k \<mapsto> v) \<and> live e'"

locale engine_store = engine_nil + engine_write +
  assumes Clear_keeps: "live e \<Longrightarrow> storable k \<Longrightarrow> Clear E k e = (Inr (), e)"

locale engine_clear = engine_write +
  assumes Clear_law: "live e \<Longrightarrow> storable k \<Longrightarrow>
      \<exists>e'. Clear E k e = (Inr (), e') \<and> view e' = (view e)(k := None) \<and> live e'"

section \<open>What the implementations keep\<close>

text \<open>What a live batch sees.\<close>

definition batch_view :: "('txn \<Rightarrow> bytes \<rightharpoonup> bytes) \<Rightarrow> ('txn, 'f) batch \<Rightarrow> bytes \<rightharpoonup> bytes" where
  "batch_view tview b = (case batchTxn b of None \<Rightarrow> Map.empty | Some t \<Rightarrow> tview t)"

context badger_laws
begin

lemma rocksdb_store: "engine_store (rocksdb B) dview (\<lambda>_. True)"
proof (unfold_locales, goal_cases)
  case (1 e k v)
  then show ?case
    using get_found [of "bNewTransaction B False e" k v]
      stored_keys [of k "bNewTransaction B False e"]
    by (auto simp: rocksdb_def getInternal_def new_view storable_def)
next
  case (2 e k)
  then show ?case by (simp add: rocksdb_def newRocksDBIterator_def iter_keys new_view)
next
  case (3 e x ov k u)
  then show ?case
    using iter_vals [of x ov False k "bNewTransaction B True e" u]
    by (simp add: rocksdb_def newRocksDBIterator_def new_view)
next
  case (4 e)
  show ?case by (rule finite_view)
next
  case (5 e k)
  then show ?case
    using get_missing [of k "bNewTransaction B False e"]
    by (auto simp: rocksdb_def getInternal_def new_view storable_def)
next
  case (6 e k v)
  then obtain t where t: "bSet B k v (bNewTransaction B True e) = (Inr (), t)"
      "tview t = (dview e)(k \<mapsto> v)" "current t e"
    using set_law [OF new_current, of k v e] by (auto simp: new_view)
  obtain e' where "bCommit B t e = (Inr (), e')" "dview e' = tview t"
    using commit_law [OF t(3)] by auto
  with t 6 show ?case
    by (simp add: rocksdb_def RocksDB_Put_def update_law fits_def storable_def)
next
  case (7 e k)
  then show ?case
    using delete_law [OF new_current, of k e]
    by (auto simp: rocksdb_def RocksDB_Clear_def storable_def)
qed

lemma snapshot_reverse:
  "engine_reverse (rocksDBSnapshot B) (\<lambda>s. tview (handle s)) (\<lambda>_. True)"
proof (unfold_locales, goal_cases)
  case (1 e k v)
  then show ?case
    using get_found [of "handle e" k v] stored_keys [of k "handle e"]
    by (auto simp: rocksDBSnapshot_def getInternal_def storable_def)
next
  case (3 e x ov k u)
  then show ?case
    using iter_vals [of x ov False k "handle e" u]
    by (simp add: rocksDBSnapshot_def newRocksDBIterator_def)
next
  case (5 e k)
  then show ?case
    using get_missing [of k "handle e"]
    by (auto simp: rocksDBSnapshot_def getInternal_def storable_def)
qed (simp_all add: rocksDBSnapshot_def newRocksDBIterator_def iter_keys finite_view)

lemma batch_clear:
  "engine_clear (rocksDBBatch B) (batch_view tview) (\<lambda>b. \<exists>t. batchTxn b = Some t \<and> current t db)"
proof (unfold_locales, goal_cases)
  case (1 e k v)
  then obtain t where "batchTxn e = Some t" "tview t k = Some v" by (auto simp: batch_view_def)
  with 1 show ?case
    using get_found [of t k v] stored_keys [of k t]
    by (auto simp: rocksDBBatch_def rocksDBBatch_Get_def storable_def)
next
  case (3 e x ov k u)
  then show ?case
    using iter_vals [of x ov False k _ u] by (auto simp: rocksDBBatch_def batch_view_def)
next
  case (5 e k v)
  then show ?case
    using set_law [of _ db k v]
    by (fastforce simp: rocksDBBatch_def onBatch_def batch_view_def fits_def storable_def)
next
  case (6 e k)
  then show ?case
    using delete_law [of _ db k]
    by (fastforce simp: rocksDBBatch_def onBatch_def batch_view_def storable_def)
qed (auto simp: rocksDBBatch_def batch_view_def iter_keys finite_view)

end

sublocale badger_laws \<subseteq> rocks: engine_store "rocksdb B" dview "\<lambda>_. True"
  by (rule rocksdb_store)

sublocale badger_laws \<subseteq> snap: engine_reverse "rocksDBSnapshot B" "\<lambda>s. tview (handle s)" "\<lambda>_. True"
  by (rule snapshot_reverse)

section \<open>A reference store\<close>

text \<open>
  The laws have a model: a store that keeps its pairs in a list, the newest first. It serves the
  concrete evaluations.
\<close>

type_synonym pairs = "(bytes \<times> bytes) list"

definition ref_view :: "pairs \<Rightarrow> bytes \<rightharpoonup> bytes" where
  "ref_view db = map_of (filter (\<lambda>(k, v). storable k) db)"

definition ref_keys :: "pairs \<Rightarrow> bytes list" where
  "ref_keys db = sort (remdups (filter storable (map fst db)))"

definition ref_badger :: "(pairs, pairs) badger" where
  "ref_badger = \<lparr>
     bNewTransaction = (\<lambda>w db. db),
     bSet = (\<lambda>k v t. (Inr (), (k, v) # t)),
     bDelete = (\<lambda>k t. (Inr (), filter (\<lambda>(k', v). k' \<noteq> k) t)),
     bGet = (\<lambda>k t. case ref_view t k of None \<Rightarrow> Inl ErrNotFound | Some v \<Rightarrow> Inr (Some v)),
     bIter = (\<lambda>rv k t. map (\<lambda>x. (x, ref_view t x))
        (if rv then rev (filter (\<lambda>x. x \<le> k) (ref_keys t)) else filter (\<lambda>x. k \<le> x) (ref_keys t))),
     bCommit = (\<lambda>t db. (Inr (), t)),
     bUpdate = (\<lambda>f db. case f db of (Inl e, _) \<Rightarrow> (Inl e, db) | (Inr _, t) \<Rightarrow> (Inr (), t))\<rparr>"

lemma dom_ref_view: "dom (ref_view db) = set (ref_keys db)"
  by (force simp: ref_view_def ref_keys_def dom_map_of_conv_image_fst)

lemma ref_keys_storable: "k \<in> set (ref_keys db) \<Longrightarrow> storable k"
  by (auto simp: ref_keys_def)

lemma ref_keys_sorted: "ref_keys db = sorted_list_of_set (dom (ref_view db))"
  unfolding dom_ref_view by (rule sorted_distinct_set_unique) (auto simp: ref_keys_def)

lemma map_of_filter_key:
  "map_of (filter (\<lambda>(k, v). P k) xs) k = (if P k then map_of xs k else None)"
  by (induction xs) auto

lemma ref_view_iff: "ref_view db k = (if storable k then map_of db k else None)"
  by (simp add: ref_view_def map_of_filter_key)

lemma ref_view_delete: "ref_view (filter (\<lambda>(k', v). k' \<noteq> k) t) = (ref_view t)(k := None)"
  by (rule ext) (simp add: ref_view_iff map_of_filter_key [where P = "\<lambda>x. x \<noteq> k"])

interpretation ref: badger_laws ref_badger ref_view ref_view "\<lambda>_ _. True"
proof (unfold_locales, goal_cases)
  case (3 t db k v)
  then show ?case by (auto simp: ref_badger_def ref_view_def fits_def)
next
  case (7 rv k t)
  have fin: "finite (dom (ref_view t))" by (simp add: ref_view_def finite_dom_map_of)
  show ?case
    by (simp add: ref_badger_def ref_keys_sorted sorted_list_of_set_filter [OF fin] comp_def)
qed (auto simp: ref_badger_def ref_view_delete ref_view_iff dom_ref_view
    dest: ref_keys_storable split: sum.splits prod.splits if_splits)

section \<open>Scans\<close>

text \<open>The pairs of a store with keys in \<open>[start, stop)\<close>, in key order.\<close>

definition range_pairs :: "(bytes \<rightharpoonup> bytes) \<Rightarrow> bytes \<Rightarrow> bytes \<Rightarrow> MVCCKeyValue list" where
  "range_pairs m start stop =
     map (\<lambda>k. \<lparr>MKVKey = k, MKVValue = the (m k)\<rparr>)
       (sorted_list_of_set {x \<in> dom m. start \<le> x \<and> x < stop})"

lemma range_pairs_empty: "start \<ge> stop \<Longrightarrow> range_pairs m start stop = []"
proof -
  assume "start \<ge> stop"
  then have "{x \<in> dom m. start \<le> x \<and> x < stop} = {}" by auto
  then show ?thesis unfolding range_pairs_def by (simp only: sorted_list_of_set_empty list.map)
qed

context engine_read
begin

lemma Seek_range_keys:
  assumes "live e"
  shows "map fst (takeWhile (\<lambda>(k, v). k < stop) (Seek E False start e))
      = sorted_list_of_set {x \<in> dom (view e). start \<le> x \<and> x < stop}"
proof -
  have fin: "finite {x \<in> dom (view e). start \<le> x}" using finite_dom [OF assms] by simp
  have "map fst (takeWhile (\<lambda>(k, v). k < stop) (Seek E False start e))
      = takeWhile (\<lambda>k. k < stop) (map fst (Seek E False start e))"
    by (simp add: takeWhile_map comp_def case_prod_unfold)
  then show ?thesis
    unfolding Seek_keys [OF assms]
    by (simp add: sorted_takeWhile_less sorted_list_of_set_filter [OF fin] conj_assoc)
qed

lemma Seek_range:
  assumes "live e" "\<forall>v \<in> ran (view e). v \<noteq> []"
  shows "map (\<lambda>(k, v). \<lparr>MKVKey = k, MKVValue = key_bytes v\<rparr>)
      (takeWhile (\<lambda>(k, v). k < stop) (Seek E False start e)) = range_pairs (view e) start stop"
proof -
  let ?S = "Seek E False start e"
  have fin: "finite {x \<in> dom (view e). start \<le> x}" using finite_dom [OF assms(1)] by simp
  have "key_bytes v = the (view e k)" if "(k, v) \<in> set ?S" for k v
  proof -
    have "k \<in> set (map fst ?S)" using that by force
    then obtain u where "view e k = Some u"
      unfolding Seek_keys [OF assms(1)] using fin by auto
    with Seek_vals [OF assms(1) that] assms(2) show ?thesis
      by (auto simp: key_bytes_def ran_def)
  qed
  then have "map (\<lambda>(k, v). \<lparr>MKVKey = k, MKVValue = key_bytes v\<rparr>) (takeWhile (\<lambda>(k, v). k < stop) ?S)
      = map (\<lambda>k. \<lparr>MKVKey = k, MKVValue = the (view e k)\<rparr>)
          (map fst (takeWhile (\<lambda>(k, v). k < stop) ?S))"
    by (auto dest: set_takeWhileD)
  then show ?thesis by (simp only: Seek_range_keys [OF assms(1)] range_pairs_def)
qed

lemma iterateLoop_take:
  assumes "length acc \<le> n"
  shows "iterateLoop stop (\<lambda>kv kvs. if length kvs \<ge> n then (Inr True, kvs)
        else (Inr False, kvs @ [kv])) kvs acc
     = (Inr (), acc @ take (n - length acc) (map (\<lambda>(k, v). \<lparr>MKVKey = k, MKVValue = key_bytes v\<rparr>)
         (takeWhile (\<lambda>(k, v). k < stop) kvs)))"
  using assms
proof (induction kvs arbitrary: acc)
  case (Cons kv kvs)
  obtain k v where "kv = (k, v)" by (cases kv)
  with Cons.IH [of "acc @ [\<lparr>MKVKey = k, MKVValue = key_bytes v\<rparr>]"] Cons.prems show ?case
    by (auto simp: take_Cons')
qed simp

lemma iterateLoop_all:
  "iterateLoop stop (\<lambda>kv kvs. (Inr False, kvs @ [kv])) kvs acc
     = (Inr (), acc @ map (\<lambda>(k, v). \<lparr>MKVKey = k, MKVValue = key_bytes v\<rparr>)
         (takeWhile (\<lambda>(k, v). k < stop) kvs))"
  by (induction kvs arbitrary: acc) auto

lemma Scan_pairs:
  assumes "live e" "\<forall>v \<in> ran (view e). v \<noteq> []" "0 \<le> sint mx"
  shows "Scan E start stop mx e
     = Inr (if mx = 0 then range_pairs (view e) start stop else take (unat mx) (range_pairs (view e) start stop))"
proof (cases "start \<ge> stop")
  case True
  then show ?thesis by (simp add: Scan_def Iterate_def range_pairs_empty)
next
  case False
  have mx: "int n \<ge> sint mx \<longleftrightarrow> n \<ge> unat mx" for n
  proof -
    have "sint mx = int (unat mx)" using sint_eq_uint_nonneg [OF assms(3)] by simp
    then show ?thesis by (simp only: of_nat_le_iff)
  qed
  show ?thesis
  proof (cases "mx = 0")
    case True
    with False Seek_range [OF assms(1,2), of stop start] show ?thesis
      by (simp add: Scan_def Iterate_def iterateLoop_all)
  next
    case nz: False
    have "iterateLoop stop (\<lambda>kv kvs. if unat mx \<le> length kvs then (Inr True, kvs)
          else (Inr False, kvs @ [kv])) (Seek E False start e) []
        = (Inr (), take (unat mx) (range_pairs (view e) start stop))"
      using iterateLoop_take [of "[]" "unat mx" stop "Seek E False start e"]
        Seek_range [OF assms(1,2), of stop start] by simp
    with False nz show ?thesis by (simp add: Scan_def Iterate_def mx)
  qed
qed

end

section \<open>Batches\<close>

context badger_laws
begin

lemma ClearRange_loop:
  assumes "batchTxn b = Some t" "current t db" "\<forall>(k, v) \<in> set kvs. storable k"
  shows "\<exists>b' t'. iterateLoop stop
      (\<lambda>kv (b, count).
         case Clear (rocksDBBatch B) (MKVKey kv) b of
           (Inl e, b') \<Rightarrow> (Inl e, (b', count))
         | (Inr _, b') \<Rightarrow> (Inr False, (b', count + 1))) kvs (b, n)
       = (Inr (), (b', n + length (takeWhile (\<lambda>(k, v). k < stop) kvs))) \<and>
     batchTxn b' = Some t' \<and> current t' db \<and>
     tview t' = tview t |` (- fst ` set (takeWhile (\<lambda>(k, v). k < stop) kvs))"
  using assms
proof (induction kvs arbitrary: b t n)
  case Nil
  then show ?case by simp
next
  case (Cons kv kvs)
  obtain k v where kv: "kv = (k, v)" by (cases kv)
  with Cons.prems have k: "storable k" by simp
  then obtain t1 where t1: "bDelete B k t = (Inr (), t1)" "tview t1 = (tview t)(k := None)"
      "current t1 db"
    using delete_law [OF Cons.prems(2)] by blast
  show ?case
  proof (cases "k < stop")
    case True
    let ?b1 = "b\<lparr>batchTxn := Some t1\<rparr>"
    obtain b' t' where "batchTxn b' = Some t'" "current t' db"
        "tview t' = tview t1 |` (- fst ` set (takeWhile (\<lambda>(k, v). k < stop) kvs))"
        "iterateLoop stop
      (\<lambda>kv (b, count).
         case Clear (rocksDBBatch B) (MKVKey kv) b of
           (Inl e, b') \<Rightarrow> (Inl e, (b', count))
         | (Inr _, b') \<Rightarrow> (Inr False, (b', count + 1))) kvs (?b1, Suc n)
       = (Inr (), (b', Suc n + length (takeWhile (\<lambda>(k, v). k < stop) kvs)))"
      using Cons.IH [of ?b1 t1 "Suc n"] Cons.prems t1(3) by auto
    moreover have "Clear (rocksDBBatch B) k b = (Inr (), ?b1)"
      using k t1(1) Cons.prems(1) by (simp add: rocksDBBatch_def onBatch_def storable_def)
    ultimately show ?thesis
      using True kv t1(2) by (auto simp: restrict_map_def fun_eq_iff)
  qed (use Cons.prems kv in auto)
qed

lemma ClearRange_law:
  "\<exists>db'. ClearRange B start stop db
       = (Inr (card {x \<in> dom (dview db). start \<le> x \<and> x < stop}), db') \<and>
     dview db' = dview db |` (- {x. start \<le> x \<and> x < stop})"
proof -
  let ?R = "{x \<in> dom (dview db). start \<le> x \<and> x < stop}"
  let ?b = "newRocksDBBatch B db :: ('txn, unit) batch" and ?t = "bNewTransaction B True db"
  let ?f = "\<lambda>kv (b :: ('txn, unit) batch, count).
      case Clear (rocksDBBatch B) (MKVKey kv) b of
        (Inl e, b') \<Rightarrow> (Inl e, (b', count)) | (Inr _, b') \<Rightarrow> (Inr False, (b', count + 1))"
  have commit: "\<exists>db'. rocksDBBatch_Commit B (b', db)
        = (Inr (rev (defers b')), (\<lparr>batchTxn = None, defers = []\<rparr>, db')) \<and> dview db' = tview t'"
    if "batchTxn b' = Some t'" "current t' db" for b' :: "('txn, unit) batch" and t'
    using commit_law [OF that(2)] that(1) by (auto simp: rocksDBBatch_Commit_def)
  have b: "batchTxn ?b = Some ?t" by (simp add: newRocksDBBatch_def)
  have "\<exists>b' t'. Iterate (rocksdb B) start stop ?f db (?b, 0) = (Inr (), (b', card ?R)) \<and>
      batchTxn b' = Some t' \<and> current t' db \<and> tview t' = dview db |` (- ?R)"
  proof (cases "start \<ge> stop")
    case True
    then have R: "?R = {}" by auto
    show ?thesis unfolding R
      by (rule exI [of _ ?b], rule exI [of _ ?t])
        (use True in \<open>simp add: Iterate_def new_view b new_current restrict_map_def\<close>)
  next
    case False
    let ?K = "Seek (rocksdb B) False start db"
    have keys: "map fst (takeWhile (\<lambda>(k, v). k < stop) ?K) = sorted_list_of_set ?R"
      by (rule rocks.Seek_range_keys) simp
    have fin: "finite ?R" using finite_view(1) [of db] by simp
    have len: "length (takeWhile (\<lambda>(k, v). k < stop) ?K) = card ?R"
      using arg_cong [OF keys, of length] by simp
    have set: "fst ` set (takeWhile (\<lambda>(k, v). k < stop) ?K) = ?R"
      using arg_cong [OF keys, of set] fin by simp
    have "\<forall>(k, v) \<in> set ?K. storable k"
    proof safe
      fix k v assume "(k, v) \<in> set ?K"
      then have "k \<in> set (map fst ?K)" by force
      then have "k \<in> dom (tview ?t)"
        unfolding rocks.Seek_keys [OF TrueI] using finite_view(1) [of db] by (simp add: new_view)
      then show "storable k" by (rule stored_keys)
    qed
    from ClearRange_loop [OF b new_current this, of stop 0] False show ?thesis
      unfolding len set by (auto simp: Iterate_def new_view)
  qed
  then obtain b' t' where it: "Iterate (rocksdb B) start stop ?f db (?b, 0) = (Inr (), (b', card ?R))"
      and t': "batchTxn b' = Some t'" "current t' db" "tview t' = dview db |` (- ?R)"
    by blast
  from commit [OF t'(1,2)] obtain db' where "rocksDBBatch_Commit B (b', db)
      = (Inr (rev (defers b')), (\<lparr>batchTxn = None, defers = []\<rparr>, db'))" "dview db' = tview t'" by blast
  moreover have "dview db |` (- ?R) = dview db |` (- {x. start \<le> x \<and> x < stop})"
    by (auto simp: restrict_map_def fun_eq_iff)
  ultimately show ?thesis using it t'(3) by (simp add: ClearRange_def)
qed

end

text \<open>A sequence of writes on a batch: a value is put, \<^const>\<open>None\<close> clears the key.\<close>

fun batchWrites ::
    "('db, 'txn) badger \<Rightarrow> (bytes \<times> bytes option) list \<Rightarrow> (('txn, 'f) batch, error, unit) op" where
  "batchWrites B [] = ret ()"
| "batchWrites B ((k, Some v) # ws) = bindM (Put (rocksDBBatch B) k v) (\<lambda>_. batchWrites B ws)"
| "batchWrites B ((k, None) # ws) = bindM (Clear (rocksDBBatch B) k) (\<lambda>_. batchWrites B ws)"

definition writes_ok :: "(bytes \<times> bytes option) list \<Rightarrow> bool" where
  "writes_ok ws \<longleftrightarrow> (\<forall>(k, ov) \<in> set ws. case ov of Some v \<Rightarrow> fits k v | None \<Rightarrow> storable k)"

context badger_laws
begin

lemma batchWrites_law:
  assumes "batchTxn b = Some t" "current t db" "writes_ok ws"
  shows "\<exists>b' t'. batchWrites B ws b = (Inr (), b') \<and> batchTxn b' = Some t' \<and> current t' db \<and>
     defers b' = defers b \<and> tview t' = foldl (\<lambda>m (k, ov). m(k := ov)) (tview t) ws"
  using assms
proof (induction ws arbitrary: b t)
  case (Cons w ws)
  obtain k ov where w: "w = (k, ov)" by (cases w)
  have "\<exists>t1. (case ov of Some v \<Rightarrow> Put (rocksDBBatch B) k v | None \<Rightarrow> Clear (rocksDBBatch B) k) b
      = (Inr (), b\<lparr>batchTxn := Some t1\<rparr>) \<and> current t1 db \<and> tview t1 = (tview t)(k := ov)"
  proof (cases ov)
    case None
    with Cons.prems w have "storable k" by (simp add: writes_ok_def)
    with delete_law [OF Cons.prems(2) this] None Cons.prems(1) show ?thesis
      by (auto simp: rocksDBBatch_def onBatch_def storable_def)
  next
    case (Some v)
    with Cons.prems w have "fits k v" by (simp add: writes_ok_def)
    with set_law [OF Cons.prems(2) this] Some Cons.prems(1) show ?thesis
      by (auto simp: rocksDBBatch_def onBatch_def fits_def storable_def)
  qed
  then obtain t1 where t1: "(case ov of Some v \<Rightarrow> Put (rocksDBBatch B) k v
      | None \<Rightarrow> Clear (rocksDBBatch B) k) b = (Inr (), b\<lparr>batchTxn := Some t1\<rparr>)"
      "current t1 db" "tview t1 = (tview t)(k := ov)" by blast
  from Cons.IH [of "b\<lparr>batchTxn := Some t1\<rparr>" t1] Cons.prems t1 w show ?case
    by (cases ov) (auto simp: writes_ok_def)
qed simp

lemma batch_commit_law:
  assumes "writes_ok ws"
  shows "\<exists>b db'. batchWrites B ws (newRocksDBBatch B db :: ('txn, 'f) batch) = (Inr (), b) \<and>
    rocksDBBatch_Commit B (b, db) = (Inr [], \<lparr>batchTxn = None, defers = []\<rparr>, db') \<and>
    dview db' = foldl (\<lambda>m (k, ov). m(k := ov)) (dview db) ws"
proof -
  let ?b = "newRocksDBBatch B db :: ('txn, 'f) batch" and ?t = "bNewTransaction B True db"
  have b: "batchTxn ?b = Some ?t" "defers ?b = []" by (simp_all add: newRocksDBBatch_def)
  obtain b' t' where b': "batchWrites B ws ?b = (Inr (), b')" "batchTxn b' = Some t'"
      "current t' db" "defers b' = []" "tview t' = foldl (\<lambda>m (k, ov). m(k := ov)) (dview db) ws"
    using batchWrites_law [OF b(1) new_current assms] b(2) by (auto simp: new_view)
  obtain db' where "bCommit B t' db = (Inr (), db')" "dview db' = tview t'"
    using commit_law [OF b'(3)] by blast
  with b' show ?thesis by (auto simp: rocksDBBatch_Commit_def)
qed

end

section \<open>Properties\<close>



text \<open>
  \<^verbatim>\<open>ClearRange\<close> removes exactly the keys from \<open>start\<close> (inclusive) to \<open>stop\<close> (exclusive), keeps
  every other pair, and returns the number of keys it removed.
\<close>

theorem ClearRange_removes_range:
  assumes "badger_laws B dview tview current"
  shows "\<exists>db'. ClearRange B start stop db
       = (Inr (card {x \<in> dom (dview db). start \<le> x \<and> x < stop}), db') \<and>
     dview db' = dview db |` (- {x. start \<le> x \<and> x < stop})"
  using badger_laws.ClearRange_law [OF assms] .

theorem ClearRange_removes_range_witness:
  "\<exists>n db'. ClearRange ref_badger [1] [3] [([1], [7]), ([3], [8])] = (Inr n, db') \<and>
     ref_view db' [1] = None \<and> ref_view db' [3] = Some [8]"
proof -
  let ?db = "[([1], [7]), ([3], [8])] :: pairs"
  have "ref_view ?db [3] = Some [8]"
    by (simp add: ref_view_iff storable_def badgerPrefix_def)
  moreover obtain n db' where db': "ClearRange ref_badger [1] [3] ?db = (Inr n, db')"
      "ref_view db' = ref_view ?db |` (- {x. [1] \<le> x \<and> x < [3]})"
    using ClearRange_removes_range [OF ref.badger_laws_axioms, of "[1]" "[3]" ?db] by blast
  ultimately have "ref_view db' [1] = None" "ref_view db' [3] = Some [8]" by simp_all
  with db'(1) show ?thesis by blast
qed

text \<open>
  \<^verbatim>\<open>Scan\<close> returns the pairs with keys from \<open>start\<close> (inclusive) to \<open>stop\<close> (exclusive) in key
  order: all of them for a limit of zero, the first \<open>mx\<close> for a positive limit.
\<close>

theorem Scan_returns_range:
  assumes "badger_laws B dview tview current"
    and "\<forall>v \<in> ran (dview db). v \<noteq> []" and "0 \<le> sint mx"
  shows "Scan (rocksdb B) start stop mx db
     = Inr (if mx = 0 then range_pairs (dview db) start stop
            else take (unat mx) (range_pairs (dview db) start stop))"
proof -
  have "engine_store (rocksdb B) dview (\<lambda>_. True)"
    using badger_laws.rocksdb_store [OF assms(1)] .
  then have "engine_read (rocksdb B) dview (\<lambda>_. True)"
    by (simp add: engine_store_def engine_nil_def)
  from engine_read.Scan_pairs [OF this] assms(2,3) show ?thesis by simp
qed

theorem Scan_returns_range_witness:
  "Scan (rocksdb ref_badger) [1] [3] 1 [([2], [5]), ([1], [7]), ([3], [8])]
     = Inr (take 1 (range_pairs (ref_view [([2], [5]), ([1], [7]), ([3], [8])]) [1] [3]))"
proof -
  let ?db = "[([2], [5]), ([1], [7]), ([3], [8])] :: pairs"
  have "\<forall>v \<in> ran (ref_view ?db). v \<noteq> []"
    by (auto simp: ran_def ref_view_iff split: if_splits)
  from Scan_returns_range [OF ref.badger_laws_axioms this, of 1 "[1]" "[3]"] show ?thesis by simp
qed

text \<open>
  C37. \<^verbatim>\<open>RocksDB.Clear\<close> reports success and changes nothing: the transaction that holds the deletion
  is never committed, so the key stays readable.
\<close>

theorem RocksDB_Clear_is_lost:
  assumes "badger_laws B dview tview current" and "dview db k = Some v" and "v \<noteq> []"
  shows "Clear (rocksdb B) k db = (Inr (), db) \<and> Get (rocksdb B) k db = Inr (Some v)"
proof -
  have s: "engine_store (rocksdb B) dview (\<lambda>_. True)"
    using badger_laws.rocksdb_store [OF assms(1)] .
  then have r: "engine_read (rocksdb B) dview (\<lambda>_. True)"
    by (simp add: engine_store_def engine_nil_def)
  have "storable k"
    using badger_laws.stored_keys [OF assms(1), of k "bNewTransaction B True db"]
      badger_laws.new_view [OF assms(1)] assms(2) by auto
  with engine_store.Clear_keeps [OF s] engine_read.Get_found [OF r] assms(2,3) show ?thesis by simp
qed

theorem RocksDB_Clear_is_lost_witness:
  "Clear (rocksdb ref_badger) [1] [([1], [7])] = (Inr (), [([1], [7])]) \<and>
   Get (rocksdb ref_badger) [1] [([1], [7])] = Inr (Some [7])"
proof -
  have "ref_view [([1], [7])] [1] = Some [7]"
    by (simp add: ref_view_iff storable_def badgerPrefix_def)
  from RocksDB_Clear_is_lost [OF ref.badger_laws_axioms this] show ?thesis by simp
qed

end
