(* ===== verification/Mvcc.thy ===== *)
theory Mvcc
  imports Engine
begin

text \<open>
  Multi-version storage, \<^verbatim>\<open>src/storage/engine/mvcc.go\<close>: metadata, transaction records, versioned
  values and the resolution of write intents, over any engine. The state is the engine with the
  range statistics the functions update through a pointer; \<open>rstats\<close> is \<^const>\<open>None\<close> for a nil
  pointer, and the argument \<open>st\<close> says whether a caller passes that pointer or a literal nil.
  Proved, for every engine that keeps its contract: \<^verbatim>\<open>MVCCGet\<close> refines reading the newest version
  at or below a timestamp, \<^verbatim>\<open>MVCCPut\<close> adds exactly one version, transaction records never leave
  a final status, and what resolving an intent does to metadata and versions.
\<close>

section \<open>Definitions\<close>

record 'e estate =
  eng :: 'e
  rstats :: "RangeStatsInfo option"

text \<open>Reading from and writing to the engine of the state.\<close>

definition readEng :: "('e \<Rightarrow> error + 'a) \<Rightarrow> ('e estate, error, 'a) op" where
  "readEng f s = (f (eng s), s)"

definition onEng :: "('e, error, 'a) op \<Rightarrow> ('e estate, error, 'a) op" where
  "onEng m s = (case m (eng s) of (r, e') \<Rightarrow> (r, s\<lparr>eng := e'\<rparr>))"

text \<open>
  \<^verbatim>\<open>if stats != nil { stats.UpdateRangeStats(...) }\<close>, and the call without the test, which
  panics on a nil pointer.
\<close>

definition updateStats ::
    "bool \<Rightarrow> nat \<Rightarrow> nat \<Rightarrow> nat \<Rightarrow> nat \<Rightarrow> ('e estate, error, unit) op" where
  "updateStats st ok ov k v s =
     (Inr (), if st then s\<lparr>rstats := map_option (UpdateRangeStats ok ov k v) (rstats s)\<rparr> else s)"

definition updateStatsDeref ::
    "bool \<Rightarrow> nat \<Rightarrow> nat \<Rightarrow> nat \<Rightarrow> nat \<Rightarrow> ('e estate, error, unit) op" where
  "updateStatsDeref st ok ov k v s =
     (if st \<and> rstats s \<noteq> None then updateStats st ok ov k v s else (Inl NilPointer, s))"

text \<open>A failed \<^verbatim>\<open>Unmarshal\<close>: an error value, unless it panicked.\<close>

definition unmarshalError :: "bytes \<Rightarrow> pb_error \<Rightarrow> error" where
  "unmarshalError data err =
     (if err = SliceBounds then Panic ''slice bounds out of range''
      else UnmarshalDataError data (ProtoError err))"

definition zero_mvccvalue :: MVCCValue where
  "zero_mvccvalue = \<lparr>MVDeleted = False, MVValue = None, MVUnrecognized = []\<rparr>"

subsection \<open>Reading\<close>

text \<open>The metadata with the sizes of its key and value; \<^const>\<open>None\<close> without metadata.\<close>

definition MVCCGetMeta ::
    "'e Engine \<Rightarrow> bytes \<Rightarrow> 'e \<Rightarrow> error + (MVCCMetadata \<times> nat \<times> nat) option" where
  "MVCCGetMeta E key e =
     (if length key = 0 then Inl InvalidKeyError
      else let metaKey = NewMVCCKey key
           in case Get E metaKey e of
                Inl err \<Rightarrow> Inl (EngineGetDataError key (Errorf ''GetMeta failure''))
              | Inr None \<Rightarrow> Inr None
              | Inr (Some val) \<Rightarrow>
                  (case MVCCMetadata_Unmarshal zero_meta val of
                     Inl err \<Rightarrow> Inl (unmarshalError val err)
                   | Inr metaData \<Rightarrow> Inr (Some (metaData, length metaKey, length val))))"

definition MVCCGetTxn :: "'e Engine \<Rightarrow> bytes \<Rightarrow> 'e \<Rightarrow> error + Transaction option" where
  "MVCCGetTxn E key e =
     (if length key = 0 then Inl InvalidKeyError
      else let txnKey = NewMVCCKey key
           in case Get E txnKey e of
                Inl err \<Rightarrow> Inl (EngineGetDataError txnKey err)
              | Inr None \<Rightarrow> Inr None
              | Inr (Some val) \<Rightarrow>
                  (case Transaction_Unmarshal zero_txn val of
                     Inl err \<Rightarrow> Inl (unmarshalError val err)
                   | Inr txn \<Rightarrow> Inr (Some txn)))"

definition mvccGetInternal ::
    "'e Engine \<Rightarrow> bytes \<Rightarrow> Timestamp \<Rightarrow> 'e \<Rightarrow> error + Value option \<times> nat \<times> nat" where
  "mvccGetInternal E key ts e =
     (let encKey = NewMVCCTimeKey key ts
      in case Seek E False encKey e of
           [] \<Rightarrow> Inr (None, 0, 0)
         | (mvccKey, val) # _ \<Rightarrow>
             (let mvccKeySize = length mvccKey; encKeySize = length encKey
              in case val of
                   None \<Rightarrow> Inr (None, mvccKeySize, 0)
                 | Some val \<Rightarrow>
                     if mvccKeySize \<noteq> encKeySize \<or>
                        take (mvccKeySize - EncodeTimestampSize) mvccKey
                          \<noteq> take (encKeySize - EncodeTimestampSize) encKey
                     then Inr (None, mvccKeySize, 0)
                     else (case MVCCValue_Unmarshal zero_mvccvalue val of
                             Inl err \<Rightarrow> Inl (unmarshalError val err)
                           | Inr mvccValue \<Rightarrow> Inr (MVValue mvccValue, mvccKeySize, length val))))"

definition MVCCGet ::
    "'e Engine \<Rightarrow> bytes \<Rightarrow> Timestamp \<Rightarrow> 'e \<Rightarrow> error + Value option \<times> nat \<times> nat" where
  "MVCCGet E key ts e =
     (if length key = 0 then Inl InvalidKeyError else mvccGetInternal E key ts e)"

subsection \<open>Writing\<close>

definition MVCCPutMeta ::
    "'e Engine \<Rightarrow> bytes \<Rightarrow> Transaction \<Rightarrow> bool \<Rightarrow> bool \<Rightarrow> nat \<Rightarrow> nat
       \<Rightarrow> ('e estate, error, nat \<times> nat) op" where
  "MVCCPutMeta E key txn deleted st origKeySize origValSize =
     (if length key = 0 then fail InvalidKeyError
      else let metaKey = NewMVCCKey key;
               data = MVCCMetadata_MarshalTo
                 \<lparr>TransactionID = ID txn, MetaTimestamp = TxnTimestamp txn, MetaDeleted = deleted,
                  MetaValue = None, MetaUnrecognized = []\<rparr>
           in bindM (mapErr (EnginePutDataError metaKey data) (onEng (Put E metaKey data))) (\<lambda>_.
              bindM (updateStats st origKeySize origValSize (length metaKey) (length data)) (\<lambda>_.
              ret (length metaKey, length data))))"

text \<open>
  What \<^verbatim>\<open>MVCCPutTxn\<close> decides once it has the record \<open>localTxn\<close>: an error, nothing to do, or the
  record to store.
\<close>

definition txnUpdate ::
    "Transaction \<Rightarrow> int \<Rightarrow> Transaction \<Rightarrow> bool \<Rightarrow> error + Transaction option" where
  "txnUpdate reqTxn changeType localTxn needUpdate =
     (if Status localTxn = COMMITTED then
        Inl (TransactionStatusError localTxn ''Transaction had COMMITTED'' False)
      else if Status localTxn = ABORTED then
        Inl (TransactionStatusError localTxn ''Transaction had ABORTED'' True)
      else if changeType = TxnChangeTypePushTimestamp \<and>
              Timestamp_Less (TxnTimestamp reqTxn) (TxnTimestamp localTxn) then Inr None
      else
        let (localTxn, needUpdate) =
              (if changeType = TxnChangeTypeHeartbeat \<and>
                  sint (LastHeartbeat reqTxn) > sint (LastHeartbeat localTxn)
               then (localTxn\<lparr>LastHeartbeat := LastHeartbeat reqTxn\<rparr>, True)
               else (localTxn, needUpdate));
            (localTxn, needUpdate) =
              (if Timestamp_Less (TxnTimestamp localTxn) (TxnTimestamp reqTxn)
               then (localTxn\<lparr>TxnTimestamp := TxnTimestamp reqTxn\<rparr>, True)
               else (localTxn, needUpdate));
            (localTxn, needUpdate) =
              (if changeType = TxnChangeTypePushAbort \<or> changeType = TxnChangeTypeEnd
               then (localTxn\<lparr>Status := Status reqTxn\<rparr>, True)
               else (localTxn, needUpdate))
        in Inr (if needUpdate then Some localTxn else None))"

definition MVCCPutTxn ::
    "'e Engine \<Rightarrow> Transaction \<Rightarrow> int \<Rightarrow> bool \<Rightarrow> ('e estate, error, unit) op" where
  "MVCCPutTxn E reqTxn changeType st =
     (let key = NewMVCCKey (key_bytes (ID reqTxn));
          initTxn = reqTxn\<lparr>LastHeartbeat := WallTime (TxnTimestamp reqTxn)\<rparr>
      in bindM (if changeType \<noteq> TxnChangeTypeBegin
                then readEng (MVCCGetTxn E (key_bytes (ID reqTxn))) else ret None) (\<lambda>found.
         let (localTxn, needUpdate) =
               (case found of None \<Rightarrow> (initTxn, True) | Some txn \<Rightarrow> (txn, False))
         in case txnUpdate reqTxn changeType localTxn needUpdate of
              Inl err \<Rightarrow> fail err
            | Inr None \<Rightarrow> ret ()
            | Inr (Some txn) \<Rightarrow>
                (let data = Transaction_MarshalTo txn
                 in bindM (mapErr (EnginePutDataError key data) (onEng (Put E key data)))
                      (\<lambda>_. updateStats st 0 0 (length key) (length data)))))"

definition mvccPutInternal ::
    "'e Engine \<Rightarrow> bytes \<Rightarrow> MVCCValue \<Rightarrow> Transaction option \<Rightarrow> bool \<Rightarrow> ('e estate, error, unit) op"
where
  "mvccPutInternal E key val txn st =
     (case txn of
        None \<Rightarrow> fail (InvalidTransactionError ''transaction is nil'')
      | Some txn \<Rightarrow>
          (let mvccKey = NewMVCCTimeKey key (TxnTimestamp txn); data = MVCCValue_MarshalTo val
           in bindM (mapErr (EnginePutDataError mvccKey data) (onEng (Put E mvccKey data)))
                (\<lambda>_. updateStats st 0 0 (length mvccKey) (length data))))"

definition MVCCPut ::
    "'e Engine \<Rightarrow> bytes \<Rightarrow> Transaction option \<Rightarrow> Value \<Rightarrow> bool \<Rightarrow> ('e estate, error, unit) op" where
  "MVCCPut E key txn val st = mvccPutInternal E key (zero_mvccvalue\<lparr>MVValue := Some val\<rparr>) txn st"

definition MVCCClear :: "'e Engine \<Rightarrow> bytes \<Rightarrow> Timestamp \<Rightarrow> ('e estate, error, unit) op" where
  "MVCCClear E key ts =
     mapErr (EngineClearDataError key) (onEng (Clear E (NewMVCCTimeKey key ts)))"

subsection \<open>Resolving intents\<close>

definition mvccResolveIntentUpdate ::
    "'e Engine \<Rightarrow> bytes \<Rightarrow> Transaction \<Rightarrow> MVCCMetadata \<Rightarrow> bool \<Rightarrow> ('e estate, error, unit) op" where
  "mvccResolveIntentUpdate E key txn localMeta st =
     bindM (readEng (MVCCGet E key (MetaTimestamp localMeta))) (\<lambda>(val, mvccKeySize, bytesValSize).
       case val of
         None \<Rightarrow> fail NilPointer
       | Some val \<Rightarrow>
           bindM (MVCCPut E key (Some txn) val st) (\<lambda>_.
           bindM (MVCCClear E key (MetaTimestamp localMeta)) (\<lambda>_.
           updateStatsDeref st mvccKeySize bytesValSize 0 0)))"

definition mvccResolveIntentPending ::
    "'e Engine \<Rightarrow> bytes \<Rightarrow> Transaction \<Rightarrow> MVCCMetadata \<Rightarrow> bool \<Rightarrow> nat \<Rightarrow> nat
       \<Rightarrow> ('e estate, error, unit) op" where
  "mvccResolveIntentPending E key txn localMeta st origKeySize origValSize =
     (if \<not> Timestamp_Large (TxnTimestamp txn) (MetaTimestamp localMeta) then ret ()
      else bindM (MVCCPutMeta E key txn (MetaDeleted localMeta) st origKeySize origValSize)
        (\<lambda>_. mvccResolveIntentUpdate E key txn localMeta st))"

definition mvccResolveIntentCommit ::
    "'e Engine \<Rightarrow> bytes \<Rightarrow> Transaction \<Rightarrow> MVCCMetadata \<Rightarrow> bool \<Rightarrow> nat \<Rightarrow> nat
       \<Rightarrow> ('e estate, error, unit) op" where
  "mvccResolveIntentCommit E key txn localMeta st origKeySize origValSize =
     bindM (MVCCPutMeta E key txn (MetaDeleted localMeta) st origKeySize origValSize) (\<lambda>_.
       if \<not> Timestamp_Large (TxnTimestamp txn) (MetaTimestamp localMeta) then ret ()
       else mvccResolveIntentUpdate E key txn localMeta st)"

text \<open>The aborting branch once it has scanned for the version below the aborted one.\<close>

definition abortUpdateMeta ::
    "'e Engine \<Rightarrow> bytes \<Rightarrow> Transaction \<Rightarrow> bool \<Rightarrow> nat \<Rightarrow> nat \<Rightarrow> MVCCKeyValue list
       \<Rightarrow> ('e estate, error, unit) op" where
  "abortUpdateMeta E key txn st origKeySize origValSize kvs =
     (case kvs of
        [] \<Rightarrow>
          bindM (mapErr (EngineClearDataError key) (onEng (Clear E (NewMVCCKey key)))) (\<lambda>_.
          updateStatsDeref st origKeySize origValSize 0 0)
      | kv # _ \<Rightarrow>
          (case MVCCKey_Decode (MKVKey kv) of
             Inl err \<Rightarrow> fail (DecodeError err)
           | Inr (_, ts, _) \<Rightarrow>
               (case MVCCValue_Unmarshal zero_mvccvalue (MKVValue kv) of
                  Inl err \<Rightarrow> fail (unmarshalError (MKVValue kv) err)
                | Inr mvccVal \<Rightarrow>
                    (case MVValue mvccVal of
                       None \<Rightarrow> fail NilPointer
                     | Some v \<Rightarrow>
                         bindM (MVCCPutMeta E key (txn\<lparr>TxnTimestamp := ts\<rparr>) (length (Bytes v) = 0)
                           st origKeySize origValSize) (\<lambda>_. ret ())))))"

definition mvccResolveIntentAbort ::
    "'e Engine \<Rightarrow> bytes \<Rightarrow> Transaction \<Rightarrow> MVCCMetadata \<Rightarrow> bool \<Rightarrow> nat \<Rightarrow> nat
       \<Rightarrow> ('e estate, error, unit) op" where
  "mvccResolveIntentAbort E key txn localMeta st origKeySize origValSize =
     bindM (MVCCClear E key (MetaTimestamp localMeta)) (\<lambda>_.
     bindM (updateStatsDeref st origKeySize origValSize 0 0) (\<lambda>_.
     let latestKey = NewMVCCTimeKey key (MetaTimestamp localMeta);
         nextKey = MVCCKey_Next latestKey;
         endScanKey = NewMVCCKey (Key_Next key)
     in bindM (readEng (Scan E nextKey endScanKey 1))
          (abortUpdateMeta E key txn st origKeySize origValSize)))"

text \<open>One intent: what the body of the loop does; a \<^verbatim>\<open>continue\<close> is the value \<open>()\<close>.\<close>

definition resolveIntent :: "'e Engine \<Rightarrow> Intent \<Rightarrow> bool \<Rightarrow> ('e estate, error, unit) op" where
  "resolveIntent E intent st s =
     (let resolveTxn = IntentTxn intent; resolveKey = SpanKey (IntentSpan intent)
      in case MVCCGetMeta E resolveKey (eng s) of
           Inl (Panic p) \<Rightarrow> (Inl (Panic p), s)
         | Inl err \<Rightarrow> (Inr (), s)
         | Inr None \<Rightarrow> (Inr (), s)
         | Inr (Some (localMeta, origMetaKeySize, origMetaValSize)) \<Rightarrow>
             if key_bytes (TransactionID localMeta) \<noteq> key_bytes (ID resolveTxn) then (Inr (), s)
             else let updatedTxn = zero_txn\<lparr>TxnTimestamp := TxnTimestamp resolveTxn\<rparr>
                  in if Status resolveTxn = PENDING then
                       mvccResolveIntentPending E resolveKey (updatedTxn\<lparr>ID := ID resolveTxn\<rparr>)
                         localMeta st origMetaKeySize origMetaValSize s
                     else if Status resolveTxn = ABORTED then
                       mvccResolveIntentAbort E resolveKey updatedTxn
                         localMeta st origMetaKeySize origMetaValSize s
                     else if Status resolveTxn = COMMITTED then
                       mvccResolveIntentCommit E resolveKey updatedTxn
                         localMeta st origMetaKeySize origMetaValSize s
                     else (Inr (), s))"

text \<open>The loop logs an error and goes on with the next intent; a panic ends it.\<close>

fun MVCCResolveWriteIntent :: "'e Engine \<Rightarrow> Intent list \<Rightarrow> bool \<Rightarrow> ('e estate, error, unit) op" where
  "MVCCResolveWriteIntent E [] st s = (Inr (), s)"
| "MVCCResolveWriteIntent E (intent # intents) st s =
     (case resolveIntent E intent st s of
        (Inl (Panic p), s') \<Rightarrow> (Inl (Panic p), s')
      | (_, s') \<Rightarrow> MVCCResolveWriteIntent E intents st s')"

subsection \<open>Scanning\<close>

text \<open>\<^verbatim>\<open>GetMetaKey\<close>, given the key the iterator stands on.\<close>

definition GetMetaKey :: "bytes \<Rightarrow> bytes \<Rightarrow> bool \<Rightarrow> error + (bytes \<times> bytes) option" where
  "GetMetaKey metaKey encEndKey reverse =
     (if (metaKey < encEndKey) = reverse then Inr None
      else case MVCCKey_Decode metaKey of
        Inl err \<Rightarrow> Inl (DecodeError err)
      | Inr (None, _, _) \<Rightarrow> Inr None
      | Inr (Some key, _, isValue) \<Rightarrow>
          Inr (Some (key, if isValue then take (length metaKey - EncodeTimestampSize) metaKey
                          else metaKey)))"

section \<open>The versions of a key\<close>

text \<open>
  The specification of multi-version reads: a key has a map from timestamps to values, and a read
  at \<open>ts\<close> sees the value of the largest timestamp not above \<open>ts\<close>.
\<close>

definition latest :: "(Timestamp \<rightharpoonup> 'v) \<Rightarrow> Timestamp \<Rightarrow> Timestamp \<Rightarrow> bool" where
  "latest V ts t \<longleftrightarrow> t \<in> dom V \<and> \<not> Timestamp_Less ts t \<and>
     (\<forall>t' \<in> dom V. \<not> Timestamp_Less ts t' \<longrightarrow> \<not> Timestamp_Less t t')"

definition reads_at :: "(Timestamp \<rightharpoonup> 'v) \<Rightarrow> Timestamp \<Rightarrow> 'v option \<Rightarrow> bool" where
  "reads_at V ts r \<longleftrightarrow>
     (case r of
        None \<Rightarrow> \<forall>t \<in> dom V. Timestamp_Less ts t
      | Some v \<Rightarrow> \<exists>t. latest V ts t \<and> V t = Some v)"

text \<open>The versions a store holds for a key, and the shape of the store at a key.\<close>

definition versions :: "(bytes \<rightharpoonup> bytes) \<Rightarrow> bytes \<Rightarrow> Timestamp \<rightharpoonup> Value" where
  "versions m k t =
     (case m (NewMVCCTimeKey k t) of
        None \<Rightarrow> None
      | Some b \<Rightarrow> (case MVCCValue_Unmarshal zero_mvccvalue b of Inl _ \<Rightarrow> None | Inr mv \<Rightarrow> MVValue mv))"

definition wf_key :: "(bytes \<rightharpoonup> bytes) \<Rightarrow> bytes \<Rightarrow> bool" where
  "wf_key m k \<longleftrightarrow> (\<forall>x b. m x = Some b \<and> prefix (NewMVCCKey k) x \<longrightarrow>
     x = NewMVCCKey k \<or>
     (\<exists>t mv v. x = NewMVCCTimeKey k t \<and> valid_ts t \<and> b \<noteq> [] \<and>
        MVCCValue_Unmarshal zero_mvccvalue b = Inr mv \<and> MVValue mv = Some v))"

lemma latest_unique: "latest V ts t \<Longrightarrow> latest V ts t' \<Longrightarrow> t = t'"
  unfolding latest_def by (metis Timestamp_Less_linear)

lemma reads_at_unique: "reads_at V ts r \<Longrightarrow> reads_at V ts r' \<Longrightarrow> r = r'"
proof (cases r; cases r')
  fix a b
  assume *: "reads_at V ts r" "reads_at V ts r'" "r = Some a" "r' = Some b"
  then show "r = r'" by (auto simp: reads_at_def dest: latest_unique)
qed (auto simp: reads_at_def latest_def)

lemma bytes_between_prefix:
  "p @ a \<le> x \<Longrightarrow> x \<le> p @ b \<Longrightarrow> prefix p (x :: bytes)"
proof (induction p arbitrary: x)
  case (Cons c p)
  then obtain y where "x = c # y" by (cases x) auto
  with Cons show ?case by auto
qed simp

lemma hd_sorted_list_of_set:
  "finite A \<Longrightarrow> sorted_list_of_set A = x # xs \<Longrightarrow> x \<in> A \<and> (\<forall>y \<in> A. x \<le> y)"
  by (metis list.set_intros(1) set_ConsD set_sorted_list_of_set sorted_simps(2)
      strict_sorted_imp_sorted strict_sorted_list_of_set order_refl)

lemma wf_key_version:
  assumes "wf_key m k" "m (NewMVCCTimeKey k t) = Some b"
  shows "valid_ts t" "b \<noteq> []" "\<exists>mv v. MVCCValue_Unmarshal zero_mvccvalue b = Inr mv \<and>
    MVValue mv = Some v \<and> versions m k t = Some v"
proof -
  have "prefix (NewMVCCKey k) (NewMVCCTimeKey k t)" by (simp add: NewMVCCTimeKey_split)
  moreover have "NewMVCCTimeKey k t \<noteq> NewMVCCKey k" by (simp add: NewMVCCTimeKey_split)
  moreover have "NewMVCCTimeKey k t = NewMVCCTimeKey k t' \<longleftrightarrow> t = t'" for t'
    by (simp add: NewMVCCTimeKey_split ts_suffix_inject)
  ultimately obtain mv v where "valid_ts t" "b \<noteq> []" "MVCCValue_Unmarshal zero_mvccvalue b = Inr mv"
      "MVValue mv = Some v"
    using assms unfolding wf_key_def by metis
  then show "valid_ts t" "b \<noteq> []" "\<exists>mv v. MVCCValue_Unmarshal zero_mvccvalue b = Inr mv \<and>
    MVValue mv = Some v \<and> versions m k t = Some v"
    using assms(2) by (auto simp: versions_def)
qed

lemma dom_versions:
  "wf_key m k \<Longrightarrow> t \<in> dom (versions m k) \<longleftrightarrow> NewMVCCTimeKey k t \<in> dom m"
proof
  assume "t \<in> dom (versions m k)"
  then show "NewMVCCTimeKey k t \<in> dom m" by (auto simp: versions_def split: option.splits)
qed (auto dest: wf_key_version(3))

context engine_read
begin

lemma MVCCGet_reads:
  assumes "live e" "k \<noteq> []" "valid_ts ts" "wf_key (view e) k"
  shows "\<exists>r n l. MVCCGet E k ts e = Inr (r, n, l) \<and> reads_at (versions (view e) k) ts r"
proof -
  let ?m = "view e" and ?enc = "NewMVCCTimeKey k ts" and ?S = "Seek E False (NewMVCCTimeKey k ts) e"
  let ?A = "{x \<in> dom ?m. ?enc \<le> x}"
  have fin: "finite ?A" using finite_dom [OF assms(1)] by simp
  have keys: "map fst ?S = sorted_list_of_set ?A" by (rule Seek_keys [OF assms(1)])
  have ver: "t \<in> dom (versions ?m k) \<and> \<not> Timestamp_Less ts t \<longleftrightarrow> NewMVCCTimeKey k t \<in> ?A" for t
  proof -
    have "\<not> Timestamp_Less ts t \<longleftrightarrow> ?enc \<le> NewMVCCTimeKey k t" if "valid_ts t"
      using ts_suffix_less_iff [OF that assms(3)]
      by (simp add: NewMVCCTimeKey_split flip: not_less)
    then show ?thesis
      using dom_versions [OF assms(4)] wf_key_version(1) [OF assms(4)] by blast
  qed
  show ?thesis
  proof (cases ?S)
    case Nil
    then have "?A = {}" using keys set_sorted_list_of_set [OF fin] by auto
    then have "\<forall>t \<in> dom (versions ?m k). Timestamp_Less ts t" using ver by blast
    with Nil assms(2) show ?thesis
      by (simp add: MVCCGet_def mvccGetInternal_def reads_at_def)
  next
    case (Cons kv rest)
    obtain x ov where kv: "kv = (x, ov)" by (cases kv)
    with Cons keys have "sorted_list_of_set ?A = x # map fst rest" by simp
    from hd_sorted_list_of_set [OF fin this] have x: "x \<in> ?A" "\<forall>y \<in> ?A. x \<le> y" by auto
    then obtain b where b: "?m x = Some b" by auto
    show ?thesis
    proof (cases "prefix (NewMVCCKey k) x")
      case True
      have "x \<noteq> NewMVCCKey k"
        using x(1) bytes_less_append [OF ts_suffix_nonempty, of "NewMVCCKey k" ts]
        by (auto simp: NewMVCCTimeKey_split)
      with True b assms(4) obtain t where t: "x = NewMVCCTimeKey k t"
        unfolding wf_key_def by blast
      with b assms(4) obtain mv v where mv: "MVCCValue_Unmarshal zero_mvccvalue b = Inr mv"
          "MVValue mv = Some v" "versions ?m k t = Some v" "b \<noteq> []"
        using wf_key_version [OF assms(4), of t b] by auto
      have "ov = Some b" using Seek_vals [OF assms(1), of x ov ?enc b] Cons kv b mv(4) by simp
      moreover have "latest (versions ?m k) ts t"
      proof -
        have t': "t \<in> dom (versions ?m k)" "\<not> Timestamp_Less ts t" using ver [of t] x(1) t by auto
        have "\<not> Timestamp_Less t t'" if "t' \<in> dom (versions ?m k)" "\<not> Timestamp_Less ts t'" for t'
        proof -
          have "NewMVCCTimeKey k t' \<in> ?A" using ver [of t'] that by blast
          then have "NewMVCCTimeKey k t \<le> NewMVCCTimeKey k t'" "valid_ts t'"
            using x(2) t wf_key_version(1) [OF assms(4), of t'] by auto
          then show ?thesis
            using ts_suffix_less_iff [of t' t] wf_key_version(1) [OF assms(4), of t] b t
            by (simp add: NewMVCCTimeKey_split flip: not_less)
        qed
        with t' show ?thesis by (auto simp: latest_def)
      qed
      ultimately show ?thesis
        using Cons kv t mv assms(2)
        by (auto simp: MVCCGet_def mvccGetInternal_def reads_at_def NewMVCCTimeKey_split
            EncodeTimestampSize_def)
    next
      case False
      have "Timestamp_Less ts t" if "t \<in> dom (versions ?m k)" for t
      proof (rule ccontr)
        assume "\<not> Timestamp_Less ts t"
        then have "NewMVCCTimeKey k t \<in> ?A" using that ver by blast
        with x have "prefix (NewMVCCKey k) x"
          by (intro bytes_between_prefix [of _ "ts_suffix ts" _ "ts_suffix t"])
            (auto simp: NewMVCCTimeKey_split)
        with False show False by simp
      qed
      moreover have "take (length x - EncodeTimestampSize) x \<noteq> NewMVCCKey k"
        using False by (metis take_is_prefix)
      ultimately show ?thesis
        using Cons kv assms(2)
        by (cases ov) (auto simp: MVCCGet_def mvccGetInternal_def reads_at_def NewMVCCTimeKey_split
            EncodeTimestampSize_def Let_def)
    qed
  qed
qed

end

section \<open>Keys and values the store accepts\<close>

definition good_key :: "bytes \<Rightarrow> bool" where
  "good_key k \<longleftrightarrow> k \<noteq> [] \<and> \<not> prefix badgerPrefix k \<and> length k \<le> 32000"

lemma escaped_length: "length (escaped k) \<le> 2 * length k + 2"
  by (induction k) auto

lemma prefix_escaped: "0 \<notin> set p \<Longrightarrow> prefix p (escaped k @ s) \<Longrightarrow> prefix p k"
proof (induction k arbitrary: p)
  case Nil
  then show ?case by (cases p) auto
next
  case (Cons b k)
  then show ?case by (cases p) (auto split: if_splits)
qed

lemma storable_encoded:
  assumes "good_key k" "length s \<le> 12"
  shows "storable (NewMVCCKey k @ s)"
proof -
  have "NewMVCCKey k = escaped k" by (simp add: NewMVCCKey_def EncodeBytes_escaped)
  moreover have "length (escaped k @ s) \<le> 65000"
    using assms escaped_length [of k] by (simp add: good_key_def)
  moreover have "\<not> prefix badgerPrefix (escaped k @ s)"
    using assms(1) prefix_escaped [of badgerPrefix k s] by (auto simp: good_key_def badgerPrefix_def)
  moreover have "escaped k \<noteq> []" by (cases k) auto
  ultimately show ?thesis by (simp add: storable_def)
qed

lemma storable_meta [simp]: "good_key k \<Longrightarrow> storable (NewMVCCKey k)"
  using storable_encoded [of k "[]"] by simp

lemma storable_time [simp]: "good_key k \<Longrightarrow> storable (NewMVCCTimeKey k ts)"
  using storable_encoded [of k "ts_suffix ts"] by (simp add: NewMVCCTimeKey_split)

lemma good_key_nonempty: "good_key k \<Longrightarrow> k \<noteq> []"
  by (simp add: good_key_def)

text \<open>A value whose stored form is small enough.\<close>

definition good_value :: "Value \<Rightarrow> bool" where
  "good_value v \<longleftrightarrow> MVCCValue_Size (zero_mvccvalue\<lparr>MVValue := Some v\<rparr>) \<le> 2 ^ 20"

definition stored_value :: "Value \<Rightarrow> bytes" where
  "stored_value v = MVCCValue_MarshalTo (zero_mvccvalue\<lparr>MVValue := Some v\<rparr>)"

lemma fits_value: "good_key k \<Longrightarrow> good_value v \<Longrightarrow> fits (NewMVCCTimeKey k ts) (stored_value v)"
  by (auto simp: fits_def good_value_def stored_value_def MVCCValue_MarshalTo_def boolField_def
      simp flip: MVCCValue_Size)

lemma Unmarshal_stored_value:
  "good_value v \<Longrightarrow> MVCCValue_Unmarshal zero_mvccvalue (stored_value v)
     = Inr (zero_mvccvalue\<lparr>MVValue := Some v\<rparr>)"
  using MVCCValue_roundtrip [of "zero_mvccvalue\<lparr>MVValue := Some v\<rparr>"]
  by (simp add: good_value_def stored_value_def zero_mvccvalue_def)

lemma stored_value_nonempty [simp]: "stored_value v \<noteq> []"
  by (simp add: stored_value_def MVCCValue_MarshalTo_def boolField_def)

section \<open>Effects on the content\<close>

lemma NewMVCCTimeKey_inject [simp]:
  "NewMVCCTimeKey k t = NewMVCCTimeKey k' t' \<longleftrightarrow> k = k' \<and> t = t'"
  by (simp add: NewMVCCTimeKey_split NewMVCCKey_append_inject ts_suffix_inject)

lemma NewMVCCKey_inject [simp]: "NewMVCCKey k = NewMVCCKey k' \<longleftrightarrow> k = k'"
  using NewMVCCKey_append_inject [of k "[]" k' "[]"] by simp

lemma NewMVCCKey_neq_time [simp]:
  "NewMVCCKey k \<noteq> NewMVCCTimeKey k' t" "NewMVCCTimeKey k' t \<noteq> NewMVCCKey k"
  using NewMVCCKey_append_inject [of k "[]" k' "ts_suffix t"] by (auto simp: NewMVCCTimeKey_split ts_suffix_nonempty [symmetric])

lemma prefix_NewMVCCKey [simp]:
  "prefix (NewMVCCKey k) (NewMVCCKey k') \<longleftrightarrow> k = k'"
  "prefix (NewMVCCKey k) (NewMVCCTimeKey k' t) \<longleftrightarrow> k = k'"
  using NewMVCCKey_append_inject [of k' "[]" k] NewMVCCKey_append_inject [of k' "ts_suffix t" k]
  by (auto simp: prefix_def NewMVCCTimeKey_split)

lemma versions_put:
  assumes "good_value v"
  shows "versions (m(NewMVCCTimeKey k t \<mapsto> stored_value v)) k'
    = (if k' = k then (versions m k)(t \<mapsto> v) else versions m k')"
  using Unmarshal_stored_value [OF assms] by (auto simp: versions_def fun_eq_iff)

lemma versions_put_meta [simp]: "versions (m(NewMVCCKey k \<mapsto> b)) k' = versions m k'"
  by (auto simp: versions_def fun_eq_iff)

lemma wf_key_put:
  assumes "wf_key m k'" "good_value v" "valid_ts t"
  shows "wf_key (m(NewMVCCTimeKey k t \<mapsto> stored_value v)) k'"
  using assms Unmarshal_stored_value [OF assms(2)] unfolding wf_key_def by auto

lemma wf_key_put_meta: "wf_key m k' \<Longrightarrow> wf_key (m(NewMVCCKey k \<mapsto> b)) k'"
  unfolding wf_key_def by auto

text \<open>The metadata of a key and the transaction record of an id.\<close>

definition meta_of :: "(bytes \<rightharpoonup> bytes) \<Rightarrow> bytes \<Rightarrow> MVCCMetadata option" where
  "meta_of m k =
     (case m (NewMVCCKey k) of
        None \<Rightarrow> None
      | Some b \<Rightarrow> (case MVCCMetadata_Unmarshal zero_meta b of Inl _ \<Rightarrow> None | Inr md \<Rightarrow> Some md))"

definition wf_meta :: "(bytes \<rightharpoonup> bytes) \<Rightarrow> bytes \<Rightarrow> bool" where
  "wf_meta m k \<longleftrightarrow> (\<forall>b. m (NewMVCCKey k) = Some b \<longrightarrow>
     b \<noteq> [] \<and> (\<exists>md. MVCCMetadata_Unmarshal zero_meta b = Inr md))"

definition txn_of :: "(bytes \<rightharpoonup> bytes) \<Rightarrow> bytes \<Rightarrow> Transaction option" where
  "txn_of m i =
     (case m (NewMVCCKey i) of
        None \<Rightarrow> None
      | Some b \<Rightarrow> (case Transaction_Unmarshal zero_txn b of Inl _ \<Rightarrow> None | Inr t \<Rightarrow> Some t))"

definition wf_txn :: "(bytes \<rightharpoonup> bytes) \<Rightarrow> bytes \<Rightarrow> bool" where
  "wf_txn m i \<longleftrightarrow> (\<forall>b. m (NewMVCCKey i) = Some b \<longrightarrow>
     b \<noteq> [] \<and> (\<exists>t. Transaction_Unmarshal zero_txn b = Inr t))"

definition good_txn :: "Transaction \<Rightarrow> bool" where
  "good_txn t \<longleftrightarrow> good_key (key_bytes (ID t)) \<and> length (Name t) \<le> 2 ^ 16"

text \<open>The metadata \<^verbatim>\<open>MVCCPutMeta\<close> writes.\<close>

definition new_meta :: "Transaction \<Rightarrow> bool \<Rightarrow> MVCCMetadata" where
  "new_meta txn deleted = \<lparr>TransactionID = ID txn, MetaTimestamp = TxnTimestamp txn,
     MetaDeleted = deleted, MetaValue = None, MetaUnrecognized = []\<rparr>"

definition good_id :: "bytes option \<Rightarrow> bool" where
  "good_id i \<longleftrightarrow> length (key_bytes i) \<le> 32000"

lemma sov_le: "unat v < 2 ^ (7 * n) \<Longrightarrow> 0 < n \<Longrightarrow> sov v \<le> n"
proof (induction n arbitrary: v)
  case (Suc n)
  show ?case
  proof (cases "drop_bit 7 v = 0")
    case True
    then show ?thesis by (subst sov.simps) (simp add: Let_def)
  next
    case False
    have "unat (drop_bit 7 v) < 2 ^ (7 * n)"
      using Suc.prems(1) by (simp only: unat_drop_bit) (simp add: power_add div_less_iff_less_mult)
    moreover from this False have "0 < n" by (cases n) (auto simp: unat_eq_0)
    ultimately have "sov (drop_bit 7 v) \<le> n" using Suc.IH by blast
    with False show ?thesis by (subst sov.simps) (simp add: Let_def)
  qed
qed simp

lemma sov_max: "sov v \<le> 10"
  using unat_word_bound [of v] by (intro sov_le) simp_all

lemma Timestamp_Size_max: "Timestamp_Size ts \<le> 22"
  using sov_max [of "WallTime ts"] sov_max [of "scast (Logical ts)"]
  by (simp add: Timestamp_Size_def)

lemma new_meta_size:
  assumes "good_id (ID txn)"
  shows "MVCCMetadata_Size (new_meta txn d) \<le> 33000"
  using assms Timestamp_Size_max [of "TxnTimestamp txn"] sov_max
    [of "of_nat (length (key_bytes (ID txn)))"] sov_max [of "of_nat (Timestamp_Size (TxnTimestamp txn))"]
  by (auto simp: MVCCMetadata_Size_def new_meta_def bytesFieldSize_def good_id_def key_bytes_def
      split: option.splits)

lemma fits_meta:
  assumes "good_key k" "good_id (ID txn)"
  shows "fits (NewMVCCKey k) (MVCCMetadata_MarshalTo (new_meta txn d))"
  using new_meta_size [OF assms(2), of d] assms(1)
  by (auto simp: fits_def MVCCMetadata_MarshalTo_def boolField_def simp flip: MVCCMetadata_Size)

lemma Unmarshal_new_meta:
  "good_id (ID txn) \<Longrightarrow>
     MVCCMetadata_Unmarshal zero_meta (MVCCMetadata_MarshalTo (new_meta txn d)) = Inr (new_meta txn d)"
  using MVCCMetadata_roundtrip [of "new_meta txn d"] new_meta_size [of txn d]
  by (simp add: new_meta_def)

lemma MVCCMetadata_MarshalTo_nonempty [simp]: "MVCCMetadata_MarshalTo md \<noteq> []"
  by (simp add: MVCCMetadata_MarshalTo_def boolField_def)

lemma meta_of_put_meta:
  "good_id (ID txn) \<Longrightarrow>
     meta_of (m(NewMVCCKey k \<mapsto> MVCCMetadata_MarshalTo (new_meta txn d))) k'
       = (if k' = k then Some (new_meta txn d) else meta_of m k')"
  by (auto simp: meta_of_def Unmarshal_new_meta)

lemma meta_of_put [simp]: "meta_of (m(NewMVCCTimeKey k t \<mapsto> b)) k' = meta_of m k'"
  by (simp add: meta_of_def)

lemma wf_meta_put_meta:
  "wf_meta m k' \<Longrightarrow> good_id (ID txn) \<Longrightarrow>
     wf_meta (m(NewMVCCKey k \<mapsto> MVCCMetadata_MarshalTo (new_meta txn d))) k'"
  by (auto simp: wf_meta_def Unmarshal_new_meta)

lemma wf_meta_put: "wf_meta m k' \<Longrightarrow> wf_meta (m(NewMVCCTimeKey k t \<mapsto> b)) k'"
  by (auto simp: wf_meta_def)

lemma txn_norm_norm [simp]: "txn_norm (txn_norm t) = txn_norm t"
  by (simp add: txn_norm_def)

lemma good_txn_norm: "good_txn t \<Longrightarrow> txn_norm t = t"
  by (cases t) (auto simp: good_txn_def good_key_def txn_norm_def)

lemma Transaction_MarshalTo_nonempty [simp]: "Transaction_MarshalTo t \<noteq> []"
  by (simp add: Transaction_MarshalTo_def msgField_def)

lemma good_txn_size: "good_txn t \<Longrightarrow> Transaction_Size t \<le> 2 ^ 17"
  using Timestamp_Size_max [of "TxnTimestamp t"] sov_max [of "of_nat (length (Name t))"]
    sov_max [of "of_nat (length (key_bytes (ID t)))"] sov_max [of "scast (Priority t)"]
    sov_max [of "scast (Status t)"] sov_max [of "LastHeartbeat t"]
    sov_max [of "of_nat (Timestamp_Size (TxnTimestamp t))"] sov_max [of "ucast (Sequence t)"]
  by (simp add: Transaction_Size_def good_txn_def good_key_def bytesFieldSize_def Let_def)

lemma fits_txn: "good_txn t \<Longrightarrow> good_key i \<Longrightarrow> fits (NewMVCCKey i) (Transaction_MarshalTo t)"
  using good_txn_size [of t] by (simp add: fits_def)

lemma Unmarshal_txn:
  "good_txn t \<Longrightarrow> Transaction_Unmarshal zero_txn (Transaction_MarshalTo t) = Inr t"
  using Transaction_roundtrip [of t] good_txn_norm [of t] good_txn_size [of t] by simp

lemma txn_of_put:
  "good_txn t \<Longrightarrow> txn_of (m(NewMVCCKey i \<mapsto> Transaction_MarshalTo t)) i'
     = (if i' = i then Some t else txn_of m i')"
  by (auto simp: txn_of_def Unmarshal_txn)

lemma wf_txn_put:
  "wf_txn m i' \<Longrightarrow> good_txn t \<Longrightarrow> wf_txn (m(NewMVCCKey i \<mapsto> Transaction_MarshalTo t)) i'"
  by (auto simp: wf_txn_def Unmarshal_txn)

section \<open>The operations over an engine\<close>

context engine_nil
begin

lemma MVCCGetMeta_law:
  assumes "live e" "good_key k" "wf_meta (view e) k"
  shows "MVCCGetMeta E k e = Inr (case view e (NewMVCCKey k) of None \<Rightarrow> None
      | Some b \<Rightarrow> Some (the (meta_of (view e) k), length (NewMVCCKey k), length b))"
  using Get_missing [OF assms(1) storable_meta [OF assms(2)]]
    Get_found [OF assms(1), of "NewMVCCKey k"] assms(3) good_key_nonempty [OF assms(2)]
  by (auto simp: MVCCGetMeta_def meta_of_def wf_meta_def split: option.splits)

lemma MVCCGetTxn_law:
  assumes "live e" "good_key i" "wf_txn (view e) i"
  shows "MVCCGetTxn E i e = Inr (txn_of (view e) i)"
  using Get_missing [OF assms(1) storable_meta [OF assms(2)]]
    Get_found [OF assms(1), of "NewMVCCKey i"] assms(3) good_key_nonempty [OF assms(2)]
  by (auto simp: MVCCGetTxn_def txn_of_def wf_txn_def split: option.splits)

end

context engine_write
begin

lemma onEng_Put:
  assumes "live (eng s)" "fits k v"
  shows "\<exists>e'. onEng (Put E k v) s = (Inr (), s\<lparr>eng := e'\<rparr>) \<and> live e' \<and>
    view e' = (view (eng s))(k \<mapsto> v)"
  using Put_law [OF assms] by (auto simp: onEng_def)

lemma MVCCPut_law:
  assumes "live (eng s)" "good_key k" "good_value v"
  shows "\<exists>s'. MVCCPut E k (Some txn) v st s = (Inr (), s') \<and> live (eng s') \<and>
    view (eng s') = (view (eng s))(NewMVCCTimeKey k (TxnTimestamp txn) \<mapsto> stored_value v) \<and>
    rstats s' = (if st then map_option (UpdateRangeStats 0 0
      (length (NewMVCCTimeKey k (TxnTimestamp txn))) (length (stored_value v))) (rstats s)
      else rstats s)"
proof -
  obtain e' where "onEng (Put E (NewMVCCTimeKey k (TxnTimestamp txn)) (stored_value v)) s
      = (Inr (), s\<lparr>eng := e'\<rparr>)" "live e'"
      "view e' = (view (eng s))(NewMVCCTimeKey k (TxnTimestamp txn) \<mapsto> stored_value v)"
    using onEng_Put [OF assms(1) fits_value [OF assms(2,3)]] by blast
  then show ?thesis
    by (simp add: MVCCPut_def mvccPutInternal_def stored_value_def updateStats_def Let_def
        bindM_def mapErr_def)
qed

lemma MVCCPutMeta_law:
  assumes "live (eng s)" "good_key k" "good_id (ID txn)"
  shows "\<exists>s' n. MVCCPutMeta E k txn d st ok ov s = (Inr n, s') \<and> live (eng s') \<and>
    view (eng s') = (view (eng s))(NewMVCCKey k \<mapsto> MVCCMetadata_MarshalTo (new_meta txn d)) \<and>
    rstats s' = (if st then map_option (UpdateRangeStats ok ov (length (NewMVCCKey k))
      (length (MVCCMetadata_MarshalTo (new_meta txn d)))) (rstats s) else rstats s)"
proof -
  obtain e' where "onEng (Put E (NewMVCCKey k) (MVCCMetadata_MarshalTo (new_meta txn d))) s
      = (Inr (), s\<lparr>eng := e'\<rparr>)" "live e'"
      "view e' = (view (eng s))(NewMVCCKey k \<mapsto> MVCCMetadata_MarshalTo (new_meta txn d))"
    using onEng_Put [OF assms(1) fits_meta [OF assms(2,3)]] by blast
  then show ?thesis
    using good_key_nonempty [OF assms(2)]
    by (simp add: MVCCPutMeta_def updateStats_def Let_def bindM_def mapErr_def flip: new_meta_def)
qed

end

section \<open>Transaction records\<close>

text \<open>
  The record an update of type \<open>ct\<close> starts from, with whether it must be stored in any case, and
  the outcome of the update.
\<close>

definition local_txn :: "(bytes \<rightharpoonup> bytes) \<Rightarrow> Transaction \<Rightarrow> int \<Rightarrow> Transaction \<times> bool" where
  "local_txn m req ct =
     (case (if ct = TxnChangeTypeBegin then None else txn_of m (key_bytes (ID req))) of
        None \<Rightarrow> (req\<lparr>LastHeartbeat := WallTime (TxnTimestamp req)\<rparr>, True)
      | Some t \<Rightarrow> (t, False))"

definition txn_outcome :: "(bytes \<rightharpoonup> bytes) \<Rightarrow> Transaction \<Rightarrow> int \<Rightarrow> error + Transaction option" where
  "txn_outcome m req ct = (case local_txn m req ct of (l, n) \<Rightarrow> txnUpdate req ct l n)"

lemma txnUpdate_Some:
  assumes "txnUpdate req ct l n = Inr (Some t)"
  shows "Status l \<noteq> COMMITTED" "Status l \<noteq> ABORTED" "ID t = ID l" "Name t = Name l"
    "Priority t = Priority l" "\<not> Timestamp_Less (TxnTimestamp t) (TxnTimestamp l)"
    "sint (LastHeartbeat l) \<le> sint (LastHeartbeat t)"
    "Status t = (if ct = TxnChangeTypePushAbort \<or> ct = TxnChangeTypeEnd then Status req else Status l)"
    "\<not> Timestamp_Less (TxnTimestamp t) (TxnTimestamp req)"
  using assms
  by (auto simp: txnUpdate_def Let_def split: if_splits dest: Timestamp_Less_trans)

lemma txnUpdate_final:
  "Status l = COMMITTED \<Longrightarrow> \<exists>err. txnUpdate req ct l n = Inl err"
  "Status l = ABORTED \<Longrightarrow> \<exists>err. txnUpdate req ct l n = Inl err"
  by (simp_all add: txnUpdate_def)

lemma txn_outcome_good:
  assumes "txn_outcome m req ct = Inr (Some t)" "good_txn req"
    and "\<forall>r. txn_of m (key_bytes (ID req)) = Some r \<longrightarrow> good_txn r"
  shows "good_txn t"
proof -
  obtain l n where l: "local_txn m req ct = (l, n)" by (cases "local_txn m req ct")
  have "good_txn l"
    using l assms(2,3) by (auto simp: local_txn_def good_txn_def split: option.splits if_splits)
  moreover have "ID t = ID l" "Name t = Name l"
    using assms(1) l txnUpdate_Some(3,4) by (simp_all add: txn_outcome_def)
  ultimately show ?thesis by (simp add: good_txn_def)
qed

context engine_store
begin

lemma MVCCPutTxn_law:
  assumes "live (eng s)" "good_txn req" "wf_txn (view (eng s)) (key_bytes (ID req))"
    and "\<forall>r. txn_of (view (eng s)) (key_bytes (ID req)) = Some r \<longrightarrow> good_txn r"
  shows "case txn_outcome (view (eng s)) req ct of
      Inl err \<Rightarrow> MVCCPutTxn E req ct st s = (Inl err, s)
    | Inr None \<Rightarrow> MVCCPutTxn E req ct st s = (Inr (), s)
    | Inr (Some t) \<Rightarrow> \<exists>s'. MVCCPutTxn E req ct st s = (Inr (), s') \<and> live (eng s') \<and>
        view (eng s') = (view (eng s))(NewMVCCKey (key_bytes (ID req)) \<mapsto> Transaction_MarshalTo t)"
proof -
  let ?i = "key_bytes (ID req)" and ?m = "view (eng s)"
  have i: "good_key ?i" using assms(2) by (simp add: good_txn_def)
  obtain l n where l: "local_txn ?m req ct = (l, n)" by (cases "local_txn ?m req ct")
  have "(if ct \<noteq> TxnChangeTypeBegin then readEng (MVCCGetTxn E ?i) else ret None) s
      = (Inr (if ct = TxnChangeTypeBegin then None else txn_of ?m ?i), s)"
    using MVCCGetTxn_law [OF assms(1) i assms(3)] by (simp add: readEng_def)
  then have run: "MVCCPutTxn E req ct st s =
      (case txnUpdate req ct l n of
         Inl err \<Rightarrow> fail err
       | Inr None \<Rightarrow> ret ()
       | Inr (Some txn) \<Rightarrow>
           bindM (mapErr (EnginePutDataError (NewMVCCKey ?i) (Transaction_MarshalTo txn))
               (onEng (Put E (NewMVCCKey ?i) (Transaction_MarshalTo txn))))
             (\<lambda>_. updateStats st 0 0 (length (NewMVCCKey ?i)) (length (Transaction_MarshalTo txn)))) s"
    using l unfolding MVCCPutTxn_def Let_def
    by (auto simp: local_txn_def bindM_def split: option.splits)
  show ?thesis
  proof (cases "txn_outcome ?m req ct")
    case (Inl err)
    with run l show ?thesis by (simp add: txn_outcome_def)
  next
    case (Inr o')
    show ?thesis
    proof (cases o')
      case None
      with Inr run l show ?thesis by (simp add: txn_outcome_def)
    next
      case (Some t)
      with Inr have "good_txn t" using txn_outcome_good assms(2,4) by blast
      from onEng_Put [OF assms(1) fits_txn [OF this i]] obtain e' where
        "onEng (Put E (NewMVCCKey ?i) (Transaction_MarshalTo t)) s = (Inr (), s\<lparr>eng := e'\<rparr>)" "live e'"
        "view e' = ?m(NewMVCCKey ?i \<mapsto> Transaction_MarshalTo t)" by blast
      with Inr Some run l show ?thesis
        by (simp add: txn_outcome_def bindM_def mapErr_def updateStats_def)
    qed
  qed
qed

end

section \<open>Well-formed stores\<close>

text \<open>
  From the first transaction key on, a store holds only metadata keys and versions. The system
  keys sort below \<open>[1]\<close>.
\<close>

definition data_key :: "bytes \<Rightarrow> bool" where
  "data_key k \<longleftrightarrow> good_key k \<and> [1] \<le> k"

definition wf_store :: "(bytes \<rightharpoonup> bytes) \<Rightarrow> bool" where
  "wf_store m \<longleftrightarrow> (\<forall>x b. m x = Some b \<and> [1] \<le> x \<longrightarrow>
     (\<exists>k. x = NewMVCCKey k) \<or>
     (\<exists>k t mv v. x = NewMVCCTimeKey k t \<and> valid_ts t \<and> b \<noteq> [] \<and>
        MVCCValue_Unmarshal zero_mvccvalue b = Inr mv \<and> MVValue mv = Some v))"

lemma one_le_iff: "[1] \<le> (k :: bytes) \<longleftrightarrow> k \<noteq> [] \<and> hd k \<noteq> 0"
proof (cases k)
  case (Cons b bs)
  have "1 < b \<or> 1 = b \<longleftrightarrow> \<not> b < 1"
    by (metis less_asym less_irrefl linorder_less_linear)
  then show ?thesis using Cons by auto
qed simp

lemma one_le_encoded: "[1] \<le> k \<Longrightarrow> [1] \<le> NewMVCCKey k @ s"
  by (cases k) (auto simp: one_le_iff NewMVCCKey_def EncodeBytes_escaped)

lemma wf_store_key:
  assumes "wf_store m" "[1] \<le> k"
  shows "wf_key m k"
  unfolding wf_key_def
proof (intro allI impI)
  fix x b
  assume x: "m x = Some b \<and> prefix (NewMVCCKey k) x"
  then have "[1] \<le> x" using one_le_encoded [OF assms(2)] by (auto simp: prefix_def)
  with x assms(1) consider k' where "x = NewMVCCKey k'" |
    k' t mv v where "x = NewMVCCTimeKey k' t" "valid_ts t" "b \<noteq> []"
      "MVCCValue_Unmarshal zero_mvccvalue b = Inr mv" "MVValue mv = Some v"
    unfolding wf_store_def by blast
  then show "x = NewMVCCKey k \<or> (\<exists>t mv v. x = NewMVCCTimeKey k t \<and> valid_ts t \<and> b \<noteq> [] \<and>
      MVCCValue_Unmarshal zero_mvccvalue b = Inr mv \<and> MVValue mv = Some v)"
    by cases (use x in auto)
qed

lemma wf_store_put:
  "wf_store m \<Longrightarrow> good_value v \<Longrightarrow> valid_ts t \<Longrightarrow> wf_store (m(NewMVCCTimeKey k t \<mapsto> stored_value v))"
  using Unmarshal_stored_value [of v] unfolding wf_store_def by auto

lemma wf_store_put_meta: "wf_store m \<Longrightarrow> wf_store (m(NewMVCCKey k \<mapsto> b))"
  unfolding wf_store_def by auto

section \<open>Older versions\<close>

text \<open>The keys after a version and before the next user key are its older versions.\<close>

lemma Key_Next_greatest: "(a :: bytes) < k @ [0] \<Longrightarrow> a \<le> k"
proof (induction k arbitrary: a)
  case Nil
  then show ?case by (cases a) auto
next
  case (Cons c k)
  then show ?case by (cases a) auto
qed

lemma less_append_zero: "x @ [0] \<le> y \<longleftrightarrow> x < (y :: bytes)"
proof (induction x arbitrary: y)
  case Nil
  then show ?case by (cases y) (auto simp: word_neq_0_conv)
next
  case (Cons c x)
  then show ?case by (cases y) auto
qed

lemma older_versions:
  assumes "wf_store m" "[1] \<le> k" "valid_ts ts"
  shows "{x \<in> dom m. MVCCKey_Next (NewMVCCTimeKey k ts) \<le> x \<and> x < NewMVCCKey (Key_Next k)}
    = NewMVCCTimeKey k ` {t \<in> dom (versions m k). Timestamp_Less t ts}" (is "?L = ?R")
proof
  have wf: "wf_key m k" by (rule wf_store_key [OF assms(1,2)])
  show "?L \<subseteq> ?R"
  proof
    fix x assume "x \<in> ?L"
    then have x: "x \<in> dom m" "NewMVCCTimeKey k ts < x" "x < NewMVCCKey (k @ [0])"
      by (auto simp: MVCCKey_Next_def Key_Next_def BytesNext_def less_append_zero)
    then have "[1] \<le> x"
      using one_le_encoded [OF assms(2), of "ts_suffix ts"] by (auto simp: NewMVCCTimeKey_split)
    then consider k' where "x = NewMVCCKey k'" | k' t where "x = NewMVCCTimeKey k' t" "valid_ts t"
      using x(1) assms(1) unfolding wf_store_def by blast
    then show "x \<in> ?R"
    proof cases
      case (1 k')
      then have "k < k' \<or> k = k' \<and> ts_suffix ts < []" "k' < k @ [0]"
        using x(2,3) NewMVCCKey_append_less_iff [of k "ts_suffix ts" k' "[]"]
          NewMVCCKey_append_less_iff [of k' "[]" "k @ [0]" "[]"]
        by (auto simp: NewMVCCTimeKey_split)
      then show ?thesis using Key_Next_greatest [of k' k] by auto
    next
      case (2 k' t)
      then have "k < k' \<or> k = k' \<and> ts_suffix ts < ts_suffix t"
          "k' < k @ [0] \<or> k' = k @ [0] \<and> ts_suffix t < []"
        using x(2,3) NewMVCCKey_append_less_iff [of k "ts_suffix ts" k' "ts_suffix t"]
          NewMVCCKey_append_less_iff [of k' "ts_suffix t" "k @ [0]" "[]"]
        by (auto simp: NewMVCCTimeKey_split)
      then have "k' = k" "Timestamp_Less t ts"
        using Key_Next_greatest [of k' k] ts_suffix_less_iff [OF assms(3) 2(2)] by auto
      with 2 x(1) show ?thesis using dom_versions [OF wf, of t] by blast
    qed
  qed
  show "?R \<subseteq> ?L"
  proof
    fix x assume "x \<in> ?R"
    then obtain t where t: "x = NewMVCCTimeKey k t" "t \<in> dom (versions m k)" "Timestamp_Less t ts"
      by blast
    then have dom: "x \<in> dom m" using dom_versions [OF wf, of t] by simp
    then have "valid_ts t" using wf_key_version(1) [OF wf, of t] t(1) by auto
    then have "NewMVCCTimeKey k ts < x"
      using ts_suffix_less_iff [OF assms(3)] t by (simp add: NewMVCCTimeKey_split)
    moreover have "k < k @ [0]" by (rule bytes_less_append) simp
    then have "x < NewMVCCKey (k @ [0])"
      using NewMVCCKey_append_less_iff [of k "ts_suffix t" "k @ [0]" "[]"] t(1)
      by (simp add: NewMVCCTimeKey_split)
    ultimately show "x \<in> ?L" using dom
      by (simp add: MVCCKey_Next_def Key_Next_def BytesNext_def less_append_zero)
  qed
qed

section \<open>Resolving intents\<close>

context engine_store
begin

lemma MVCCClear_keeps:
  assumes "live (eng s)" "good_key k"
  shows "MVCCClear E k ts s = (Inr (), s)"
  using Clear_keeps [OF assms(1) storable_time [OF assms(2)]]
  by (simp add: MVCCClear_def mapErr_def onEng_def)

lemma MVCCGet_version:
  assumes "live e" "data_key k" "wf_store (view e)" "valid_ts ts" "versions (view e) k ts = Some v"
  shows "\<exists>n l. MVCCGet E k ts e = Inr (Some v, n, l)"
proof -
  have k: "wf_key (view e) k" "k \<noteq> []"
    using assms(2,3) wf_store_key by (auto simp: data_key_def good_key_def)
  obtain r n l where r: "MVCCGet E k ts e = Inr (r, n, l)" "reads_at (versions (view e) k) ts r"
    using MVCCGet_reads [OF assms(1) k(2) assms(4) k(1)] by blast
  have "latest (versions (view e) k) ts ts" using assms(5) by (auto simp: latest_def)
  then have "reads_at (versions (view e) k) ts (Some v)"
    using assms(5) by (auto simp: reads_at_def)
  with r reads_at_unique show ?thesis by blast
qed

lemma mvccResolveIntentUpdate_law:
  assumes "live (eng s)" "data_key k" "wf_store (view (eng s))" "valid_ts (MetaTimestamp md)"
    and "versions (view (eng s)) k (MetaTimestamp md) = Some v" "good_value v"
    and "st" "rstats s \<noteq> None"
  shows "\<exists>s'. mvccResolveIntentUpdate E k txn md st s = (Inr (), s') \<and> live (eng s') \<and>
    view (eng s') = (view (eng s))(NewMVCCTimeKey k (TxnTimestamp txn) \<mapsto> stored_value v)"
proof -
  have k: "good_key k" using assms(2) by (simp add: data_key_def)
  obtain n l where "MVCCGet E k (MetaTimestamp md) (eng s) = Inr (Some v, n, l)"
    using MVCCGet_version [OF assms(1-5)] by blast
  moreover obtain s1 where s1: "MVCCPut E k (Some txn) v st s = (Inr (), s1)" "live (eng s1)"
      "view (eng s1) = (view (eng s))(NewMVCCTimeKey k (TxnTimestamp txn) \<mapsto> stored_value v)"
      "rstats s1 \<noteq> None"
    using MVCCPut_law [OF assms(1) k assms(6), of txn st] assms(7,8) by fastforce
  ultimately show ?thesis
    using assms(7) MVCCClear_keeps [OF s1(2) k]
    by (simp add: mvccResolveIntentUpdate_def bindM_def readEng_def updateStatsDeref_def
        updateStats_def)
qed

lemma resolveIntent_found:
  assumes "live (eng s)" "data_key k" "wf_meta (view (eng s)) k"
    and "meta_of (view (eng s)) k = Some md"
    and "SpanKey (IntentSpan i) = k"
    and "key_bytes (TransactionID md) = key_bytes (ID (IntentTxn i))"
  shows "\<exists>ok ov. resolveIntent E i st s =
    (let txn = zero_txn\<lparr>TxnTimestamp := TxnTimestamp (IntentTxn i)\<rparr>
     in if Status (IntentTxn i) = PENDING then
          mvccResolveIntentPending E k (txn\<lparr>ID := ID (IntentTxn i)\<rparr>) md st ok ov s
        else if Status (IntentTxn i) = ABORTED then mvccResolveIntentAbort E k txn md st ok ov s
        else if Status (IntentTxn i) = COMMITTED then mvccResolveIntentCommit E k txn md st ok ov s
        else (Inr (), s))"
proof -
  obtain b where b: "view (eng s) (NewMVCCKey k) = Some b"
    using assms(4) by (auto simp: meta_of_def split: option.splits)
  have "good_key k" using assms(2) by (simp add: data_key_def)
  from MVCCGetMeta_law [OF assms(1) this assms(3)] assms(4) b
  have "MVCCGetMeta E k (eng s) = Inr (Some (md, length (NewMVCCKey k), length b))" by simp
  then show ?thesis unfolding resolveIntent_def Let_def using assms(5,6) by auto
qed

lemma resolve_commit_law:
  assumes s: "live (eng s)" "data_key k" "wf_store (view (eng s))" "wf_meta (view (eng s)) k"
    and md: "meta_of (view (eng s)) k = Some md" "valid_ts (MetaTimestamp md)"
      "versions (view (eng s)) k (MetaTimestamp md) = Some v" "good_value v"
    and i: "SpanKey (IntentSpan i) = k" "Status (IntentTxn i) = COMMITTED"
      "key_bytes (TransactionID md) = key_bytes (ID (IntentTxn i))"
    and st: "st" "rstats s \<noteq> None"
  shows "\<exists>s'. resolveIntent E i st s = (Inr (), s') \<and> live (eng s') \<and>
    view (eng s') =
      (let cts = TxnTimestamp (IntentTxn i);
           m = (view (eng s))(NewMVCCKey k \<mapsto> MVCCMetadata_MarshalTo
             (new_meta (zero_txn\<lparr>TxnTimestamp := cts\<rparr>) (MetaDeleted md)))
       in if Timestamp_Less (MetaTimestamp md) cts
          then m(NewMVCCTimeKey k cts \<mapsto> stored_value v) else m)"
proof -
  let ?txn = "zero_txn\<lparr>TxnTimestamp := TxnTimestamp (IntentTxn i)\<rparr>"
  have k: "good_key k" using s(2) by (simp add: data_key_def)
  obtain ok ov where run: "resolveIntent E i st s = mvccResolveIntentCommit E k ?txn md st ok ov s"
    using resolveIntent_found [OF s(1,2,4) md(1) i(1,3), of st] i(2) by auto
  have id: "good_id (ID ?txn)" by (simp add: good_id_def zero_txn_def key_bytes_def)
  obtain s1 n where s1: "MVCCPutMeta E k ?txn (MetaDeleted md) st ok ov s = (Inr n, s1)"
      "live (eng s1)" "rstats s1 \<noteq> None"
      "view (eng s1) = (view (eng s))(NewMVCCKey k \<mapsto>
         MVCCMetadata_MarshalTo (new_meta ?txn (MetaDeleted md)))"
    using MVCCPutMeta_law [OF s(1) k id, of "MetaDeleted md" st ok ov] st by fastforce
  show ?thesis
  proof (cases "Timestamp_Less (MetaTimestamp md) (TxnTimestamp (IntentTxn i))")
    case True
    have "versions (view (eng s1)) k (MetaTimestamp md) = Some v" using md(3) s1(4) by simp
    from mvccResolveIntentUpdate_law [OF s1(2) s(2) _ md(2) this md(4) st(1) s1(3), of ?txn]
    obtain s' where "mvccResolveIntentUpdate E k ?txn md st s1 = (Inr (), s')" "live (eng s')"
        "view (eng s') = (view (eng s1))(NewMVCCTimeKey k (TxnTimestamp (IntentTxn i))
           \<mapsto> stored_value v)"
      using wf_store_put_meta [OF s(3)] s1(4) by auto
    with True run s1 show ?thesis
      by (simp add: mvccResolveIntentCommit_def bindM_def Timestamp_Large_flip Let_def)
  next
    case False
    with run s1 show ?thesis
      by (simp add: mvccResolveIntentCommit_def bindM_def Timestamp_Large_flip Let_def)
  qed
qed

lemma resolve_pending_law:
  assumes s: "live (eng s)" "data_key k" "wf_store (view (eng s))" "wf_meta (view (eng s)) k"
    and md: "meta_of (view (eng s)) k = Some md" "valid_ts (MetaTimestamp md)"
      "versions (view (eng s)) k (MetaTimestamp md) = Some v" "good_value v"
    and i: "SpanKey (IntentSpan i) = k" "Status (IntentTxn i) = PENDING"
      "key_bytes (TransactionID md) = key_bytes (ID (IntentTxn i))" "good_id (ID (IntentTxn i))"
    and st: "st" "rstats s \<noteq> None"
  shows "\<exists>s'. resolveIntent E i st s = (Inr (), s') \<and> live (eng s') \<and>
    view (eng s') =
      (let pts = TxnTimestamp (IntentTxn i)
       in if Timestamp_Less (MetaTimestamp md) pts
          then (view (eng s))(NewMVCCKey k \<mapsto> MVCCMetadata_MarshalTo
               (new_meta (zero_txn\<lparr>TxnTimestamp := pts, ID := ID (IntentTxn i)\<rparr>) (MetaDeleted md)),
             NewMVCCTimeKey k pts \<mapsto> stored_value v)
          else view (eng s))"
proof -
  let ?txn = "zero_txn\<lparr>TxnTimestamp := TxnTimestamp (IntentTxn i), ID := ID (IntentTxn i)\<rparr>"
  have k: "good_key k" using s(2) by (simp add: data_key_def)
  obtain ok ov where run: "resolveIntent E i st s = mvccResolveIntentPending E k ?txn md st ok ov s"
    using resolveIntent_found [OF s(1,2,4) md(1) i(1,3), of st] i(2) by auto
  have id: "good_id (ID ?txn)" using i(4) by simp
  obtain s1 n where s1: "MVCCPutMeta E k ?txn (MetaDeleted md) st ok ov s = (Inr n, s1)"
      "live (eng s1)" "rstats s1 \<noteq> None"
      "view (eng s1) = (view (eng s))(NewMVCCKey k \<mapsto>
         MVCCMetadata_MarshalTo (new_meta ?txn (MetaDeleted md)))"
    using MVCCPutMeta_law [OF s(1) k id, of "MetaDeleted md" st ok ov] st by fastforce
  show ?thesis
  proof (cases "Timestamp_Less (MetaTimestamp md) (TxnTimestamp (IntentTxn i))")
    case True
    have "versions (view (eng s1)) k (MetaTimestamp md) = Some v" using md(3) s1(4) by simp
    from mvccResolveIntentUpdate_law [OF s1(2) s(2) _ md(2) this md(4) st(1) s1(3), of ?txn]
    obtain s' where "mvccResolveIntentUpdate E k ?txn md st s1 = (Inr (), s')" "live (eng s')"
        "view (eng s') = (view (eng s1))(NewMVCCTimeKey k (TxnTimestamp (IntentTxn i))
           \<mapsto> stored_value v)"
      using wf_store_put_meta [OF s(3)] s1(4) by auto
    with True run s1 show ?thesis
      by (simp add: mvccResolveIntentPending_def bindM_def Timestamp_Large_flip Let_def)
  next
    case False
    with run s show ?thesis
      by (simp add: mvccResolveIntentPending_def Timestamp_Large_flip Let_def)
  qed
qed

lemma Scan_older:
  assumes "live e" "\<forall>v \<in> ran (view e). v \<noteq> []" "wf_store (view e)" "[1] \<le> k" "valid_ts ts"
  shows "case Scan E (MVCCKey_Next (NewMVCCTimeKey k ts)) (NewMVCCKey (Key_Next k)) 1 e of
      Inl _ \<Rightarrow> False
    | Inr [] \<Rightarrow> \<forall>t \<in> dom (versions (view e) k). \<not> Timestamp_Less t ts
    | Inr (kv # kvs) \<Rightarrow> \<exists>t b. kvs = [] \<and> kv = \<lparr>MKVKey = NewMVCCTimeKey k t, MKVValue = b\<rparr> \<and>
        view e (NewMVCCTimeKey k t) = Some b \<and> Timestamp_Less t ts \<and>
        (\<forall>t' \<in> dom (versions (view e) k). Timestamp_Less t' ts \<longrightarrow> \<not> Timestamp_Less t t')"
proof -
  let ?s = "MVCCKey_Next (NewMVCCTimeKey k ts)" and ?e = "NewMVCCKey (Key_Next k)"
  let ?R = "{x \<in> dom (view e). ?s \<le> x \<and> x < ?e}"
  have wf: "wf_key (view e) k" by (rule wf_store_key [OF assms(3,4)])
  have R: "?R = NewMVCCTimeKey k ` {t \<in> dom (versions (view e) k). Timestamp_Less t ts}"
    by (rule older_versions [OF assms(3-5)])
  have fin: "finite ?R" using finite_dom [OF assms(1)] by simp
  have scan: "Scan E ?s ?e 1 e = Inr (take 1 (range_pairs (view e) ?s ?e))"
    using Scan_pairs [OF assms(1,2), of 1 ?s ?e] by simp
  show ?thesis
  proof (cases "sorted_list_of_set ?R")
    case Nil
    then have "?R = {}" using set_sorted_list_of_set [OF fin] by auto
    then have "\<forall>t \<in> dom (versions (view e) k). \<not> Timestamp_Less t ts" using R by blast
    moreover have "range_pairs (view e) ?s ?e = []" using Nil by (simp add: range_pairs_def)
    ultimately show ?thesis using scan by simp
  next
    case (Cons x xs)
    from hd_sorted_list_of_set [OF fin this] have x: "x \<in> ?R" "\<forall>y \<in> ?R. x \<le> y" by auto
    from x(1) obtain t where t: "x = NewMVCCTimeKey k t" "t \<in> dom (versions (view e) k)"
        "Timestamp_Less t ts" unfolding R by blast
    from x(1) obtain b where b: "view e x = Some b" by auto
    have valid: "valid_ts t'" if "t' \<in> dom (versions (view e) k)" for t'
      using dom_versions [OF wf] wf_key_version(1) [OF wf] that by blast
    have "\<not> Timestamp_Less t t'"
      if "t' \<in> dom (versions (view e) k)" "Timestamp_Less t' ts" for t'
    proof -
      have "x \<le> NewMVCCTimeKey k t'" using x(2) that unfolding R by blast
      then show ?thesis
        using ts_suffix_less_iff [OF valid [OF that(1)] valid [OF t(2)]] t(1)
        by (simp add: NewMVCCTimeKey_split flip: not_less)
    qed
    with t b Cons scan show ?thesis by (simp add: range_pairs_def)
  qed
qed

lemma updateStatsDeref_ok:
  fixes s :: "'a estate"
  assumes "st" "rstats s \<noteq> None"
  shows "\<exists>s'. updateStatsDeref st ok ov k v s = (Inr (), s') \<and> eng s' = eng s \<and> rstats s' \<noteq> None"
  using assms by (auto simp: updateStatsDeref_def updateStats_def)

lemma abortUpdateMeta_Nil:
  assumes s: "live (eng s)" "good_key k" and st: "st" "rstats s \<noteq> None"
  shows "\<exists>s'. abortUpdateMeta E k txn st ok ov [] s = (Inr (), s') \<and> eng s' = eng s"
proof -
  have "mapErr (EngineClearDataError k) (onEng (Clear E (NewMVCCKey k))) s = (Inr (), s)"
    using Clear_keeps [OF s(1) storable_meta [OF s(2)]] by (simp add: mapErr_def onEng_def)
  then show ?thesis
    using updateStatsDeref_ok [OF st, of ok ov 0 0] by (auto simp: abortUpdateMeta_def bindM_def)
qed

lemma abortUpdateMeta_Cons:
  assumes s: "live (eng s)" "good_key k" and id: "good_id (ID txn)"
    and mv: "MVCCValue_Unmarshal zero_mvccvalue b = Inr mv" "MVValue mv = Some v"
  shows "\<exists>s'. abortUpdateMeta E k txn st ok ov (\<lparr>MKVKey = NewMVCCTimeKey k t, MKVValue = b\<rparr> # rest) s
      = (Inr (), s') \<and> live (eng s') \<and>
    view (eng s') = (view (eng s))(NewMVCCKey k \<mapsto> MVCCMetadata_MarshalTo
      (new_meta (txn\<lparr>TxnTimestamp := t\<rparr>) (length (Bytes v) = 0)))"
proof -
  have "good_id (ID (txn\<lparr>TxnTimestamp := t\<rparr>))" using id by simp
  from MVCCPutMeta_law [OF s this, of "length (Bytes v) = 0" st ok ov]
  obtain s' n where "MVCCPutMeta E k (txn\<lparr>TxnTimestamp := t\<rparr>) (length (Bytes v) = 0)
      st ok ov s = (Inr n, s')" "live (eng s')"
      "view (eng s') = (view (eng s))(NewMVCCKey k \<mapsto> MVCCMetadata_MarshalTo
         (new_meta (txn\<lparr>TxnTimestamp := t\<rparr>) (length (Bytes v) = 0)))" by auto
  then show ?thesis using mv by (simp add: abortUpdateMeta_def bindM_def)
qed

lemma resolve_abort_law:
  assumes s: "live (eng s)" "data_key k" "wf_store (view (eng s))" "wf_meta (view (eng s)) k"
      "\<forall>v \<in> ran (view (eng s)). v \<noteq> []"
    and md: "meta_of (view (eng s)) k = Some md" "valid_ts (MetaTimestamp md)"
    and i: "SpanKey (IntentSpan i) = k" "Status (IntentTxn i) = ABORTED"
      "key_bytes (TransactionID md) = key_bytes (ID (IntentTxn i))"
    and st: "st" "rstats s \<noteq> None"
  shows "\<exists>s'. resolveIntent E i st s = (Inr (), s') \<and> live (eng s') \<and>
    (if \<forall>t \<in> dom (versions (view (eng s)) k). \<not> Timestamp_Less t (MetaTimestamp md)
     then view (eng s') = view (eng s)
     else \<exists>t v. versions (view (eng s)) k t = Some v \<and> Timestamp_Less t (MetaTimestamp md) \<and>
       (\<forall>t' \<in> dom (versions (view (eng s)) k).
          Timestamp_Less t' (MetaTimestamp md) \<longrightarrow> \<not> Timestamp_Less t t') \<and>
       view (eng s') = (view (eng s))(NewMVCCKey k \<mapsto> MVCCMetadata_MarshalTo
         (new_meta (zero_txn\<lparr>TxnTimestamp := t\<rparr>) (length (Bytes v) = 0))))"
proof -
  let ?txn = "zero_txn\<lparr>TxnTimestamp := TxnTimestamp (IntentTxn i)\<rparr>" and ?mts = "MetaTimestamp md"
  let ?next = "MVCCKey_Next (NewMVCCTimeKey k ?mts)" and ?stop = "NewMVCCKey (Key_Next k)"
  let ?V = "versions (view (eng s)) k"
  have k: "good_key k" "[1] \<le> k" using s(2) by (simp_all add: data_key_def)
  obtain ok ov where run: "resolveIntent E i st s = mvccResolveIntentAbort E k ?txn md st ok ov s"
    using resolveIntent_found [OF s(1,2,4) md(1) i(1,3), of st] i(2) by auto
  obtain s1 where s1: "updateStatsDeref st ok ov 0 0 s = (Inr (), s1)" "eng s1 = eng s"
      "rstats s1 \<noteq> None" using updateStatsDeref_ok [OF st] by blast
  have live1: "live (eng s1)" using s(1) s1(2) by simp
  have start: "resolveIntent E i st s =
      bindM (readEng (Scan E ?next ?stop 1)) (abortUpdateMeta E k ?txn st ok ov) s1"
    by (simp only: run mvccResolveIntentAbort_def Let_def
        bindM_simps(1) [where m = "MVCCClear E k ?mts" and s = s, OF MVCCClear_keeps [OF s(1) k(1)]]
        bindM_simps(1) [where m = "updateStatsDeref st ok ov 0 0" and s = s, OF s1(1)])
  note older = Scan_older [OF s(1,5,3) k(2) md(2)]
  then obtain kvs where scan: "Scan E ?next ?stop 1 (eng s) = Inr kvs" by (auto split: sum.splits)
  have rest: "resolveIntent E i st s = abortUpdateMeta E k ?txn st ok ov kvs s1"
    using start scan s1(2) by (simp add: bindM_def readEng_def)
  show ?thesis
  proof (cases kvs)
    case Nil
    moreover have "\<forall>t \<in> dom ?V. \<not> Timestamp_Less t ?mts" using older scan Nil by simp
    ultimately show ?thesis
      using abortUpdateMeta_Nil [OF live1 k(1) st(1) s1(3), of ?txn ok ov] rest s1(2) s(1) by auto
  next
    case (Cons kv kvs')
    then obtain t b where t: "kv = \<lparr>MKVKey = NewMVCCTimeKey k t, MKVValue = b\<rparr>"
        "view (eng s) (NewMVCCTimeKey k t) = Some b" "Timestamp_Less t ?mts"
        "\<forall>t' \<in> dom ?V. Timestamp_Less t' ?mts \<longrightarrow> \<not> Timestamp_Less t t'"
      using older scan by auto
    obtain mv v where mv: "MVCCValue_Unmarshal zero_mvccvalue b = Inr mv" "MVValue mv = Some v"
        "?V t = Some v"
      using wf_key_version(3) [OF wf_store_key [OF s(3) k(2)] t(2)] by blast
    have "good_id (ID ?txn)" by (simp add: good_id_def zero_txn_def key_bytes_def)
    from abortUpdateMeta_Cons [OF live1 k(1) this mv(1,2), of st ok ov t kvs'] mv(3) t rest Cons s1(2)
    show ?thesis by auto
  qed
qed

end

section \<open>Sequences of record updates\<close>

text \<open>Updates of one transaction record, each call on the state the previous one left.\<close>

fun putTxns :: "'e Engine \<Rightarrow> (Transaction \<times> int) list \<Rightarrow> 'e estate \<Rightarrow> 'e estate" where
  "putTxns E [] s = s"
| "putTxns E ((req, ct) # us) s = putTxns E us (snd (MVCCPutTxn E req ct False s))"

text \<open>How a stored record may change: never once it is final, and never back in time.\<close>

definition txn_evolves :: "Transaction \<Rightarrow> Transaction \<Rightarrow> bool" where
  "txn_evolves r r' \<longleftrightarrow>
     (Status r = COMMITTED \<or> Status r = ABORTED \<longrightarrow> r' = r) \<and>
     \<not> Timestamp_Less (TxnTimestamp r') (TxnTimestamp r) \<and>
     sint (LastHeartbeat r) \<le> sint (LastHeartbeat r') \<and>
     ID r' = ID r \<and> Name r' = Name r \<and> Priority r' = Priority r"

lemma txn_evolves_refl [simp]: "txn_evolves r r"
  by (simp add: txn_evolves_def)

lemma txn_evolves_trans: "txn_evolves a b \<Longrightarrow> txn_evolves b c \<Longrightarrow> txn_evolves a c"
  by (auto simp: txn_evolves_def Timestamp_not_Less dest: Timestamp_Less_trans)

lemma txn_outcome_evolves:
  assumes "txn_of m (key_bytes (ID req)) = Some r" "ct \<noteq> TxnChangeTypeBegin"
    and "txn_outcome m req ct = Inr (Some t)"
  shows "txn_evolves r t"
proof -
  have "txnUpdate req ct r False = Inr (Some t)"
    using assms by (simp add: txn_outcome_def local_txn_def)
  from txnUpdate_Some [OF this] show ?thesis by (simp add: txn_evolves_def)
qed

context engine_store
begin

lemma MVCCPutTxn_evolves:
  assumes "live (eng s)" "good_txn req" "key_bytes (ID req) = i" "ct \<noteq> TxnChangeTypeBegin"
    and "wf_txn (view (eng s)) i" "txn_of (view (eng s)) i = Some r" "good_txn r"
  shows "\<exists>r' s'. snd (MVCCPutTxn E req ct st s) = s' \<and> live (eng s') \<and> wf_txn (view (eng s')) i \<and>
    txn_of (view (eng s')) i = Some r' \<and> good_txn r' \<and> txn_evolves r r'"
proof -
  have good: "\<forall>r. txn_of (view (eng s)) (key_bytes (ID req)) = Some r \<longrightarrow> good_txn r"
    using assms(3,6,7) by simp
  note law = MVCCPutTxn_law [OF assms(1,2) _ good, of ct st, unfolded assms(3), OF assms(5)]
  show ?thesis
  proof (cases "txn_outcome (view (eng s)) req ct")
    case (Inl err)
    with law assms show ?thesis by simp
  next
    case (Inr oc)
    show ?thesis
    proof (cases oc)
      case None
      with Inr law assms show ?thesis by simp
    next
      case (Some t)
      then obtain s' where s': "MVCCPutTxn E req ct st s = (Inr (), s')" "live (eng s')"
          "view (eng s') = (view (eng s))(NewMVCCKey i \<mapsto> Transaction_MarshalTo t)"
        using law Inr by auto
      have "good_txn t" using txn_outcome_good [OF _ assms(2) good] Inr Some by simp
      moreover have "txn_evolves r t"
        using txn_outcome_evolves [of "view (eng s)" req r ct t] assms(3,4,6) Inr Some by simp
      ultimately show ?thesis
        using s' by (simp add: txn_of_put wf_txn_put [OF assms(5)])
    qed
  qed
qed

lemma putTxns_evolves:
  assumes "live (eng s)" "\<forall>(req, ct) \<in> set us. good_txn req \<and> key_bytes (ID req) = i \<and>
      ct \<noteq> TxnChangeTypeBegin"
    and "wf_txn (view (eng s)) i" "txn_of (view (eng s)) i = Some r" "good_txn r"
  shows "\<exists>r'. txn_of (view (eng (putTxns E us s))) i = Some r' \<and> txn_evolves r r'"
  using assms
proof (induction us arbitrary: s r)
  case (Cons u us)
  obtain req ct where u: "u = (req, ct)" by (cases u)
  obtain r1 where r1: "live (eng (snd (MVCCPutTxn E req ct False s)))"
      "wf_txn (view (eng (snd (MVCCPutTxn E req ct False s)))) i"
      "txn_of (view (eng (snd (MVCCPutTxn E req ct False s)))) i = Some r1" "good_txn r1"
      "txn_evolves r r1"
    using MVCCPutTxn_evolves [OF Cons.prems(1) _ _ _ Cons.prems(3-5), of req ct False]
      Cons.prems(2) u by auto
  from Cons.IH [OF r1(1) _ r1(2-4)] Cons.prems(2) u obtain r' where
    "txn_of (view (eng (putTxns E (u # us) s))) i = Some r'" "txn_evolves r1 r'" by auto
  with txn_evolves_trans [OF r1(5)] show ?case by blast
qed simp

end

section \<open>Concrete stores\<close>

lemma ref_view_Nil [simp]: "ref_view [] = Map.empty"
  by (simp add: ref_view_def)

lemma ref_view_Cons: "storable k \<Longrightarrow> ref_view ((k, v) # db) = (ref_view db)(k \<mapsto> v)"
  by (simp add: ref_view_def)

lemma wf_store_empty [simp]: "wf_store Map.empty"
  by (simp add: wf_store_def)

definition sample_value :: Value where
  "sample_value = zero_value\<lparr>Bytes := [0x61], Tag := 3\<rparr>"

definition ts_at :: "int64 \<Rightarrow> Timestamp" where
  "ts_at w = \<lparr>WallTime = w, Logical = 0\<rparr>"

lemma good_sample_value: "good_value sample_value"
proof -
  have "MVCCValue_Size (zero_mvccvalue\<lparr>MVValue := Some sample_value\<rparr>) \<le> 100" by code_simp
  then show ?thesis by (simp add: good_value_def)
qed

lemma data_key_sample: "data_key [2]"
  by (simp add: data_key_def good_key_def badgerPrefix_def)

lemmas sample_simps = good_sample_value data_key_sample

text \<open>An intent of a transaction on a key whose metadata carries the transaction's id.\<close>

definition intent_on :: "(bytes \<rightharpoonup> bytes) \<Rightarrow> bytes \<Rightarrow> MVCCMetadata \<Rightarrow> Intent \<Rightarrow> bool" where
  "intent_on m k md i \<longleftrightarrow> data_key k \<and> wf_store m \<and> wf_meta m k \<and>
     meta_of m k = Some md \<and> valid_ts (MetaTimestamp md) \<and> SpanKey (IntentSpan i) = k \<and>
     key_bytes (TransactionID md) = key_bytes (ID (IntentTxn i))"

lemma MVCCResolveWriteIntent_one:
  "resolveIntent E i st s = (Inr (), s') \<Longrightarrow> MVCCResolveWriteIntent E [i] st s = (Inr (), s')"
  by simp

lemma new_meta_zero [simp]:
  "TransactionID (new_meta (zero_txn\<lparr>TxnTimestamp := t\<rparr>) d) = None"
  "MetaTimestamp (new_meta (zero_txn\<lparr>TxnTimestamp := t\<rparr>) d) = t"
  "MetaDeleted (new_meta txn d) = d"
  by (simp_all add: new_meta_def zero_txn_def)

lemma good_id_zero [simp]: "good_id (ID zero_txn)"
  by (simp add: good_id_def zero_txn_def key_bytes_def)

text \<open>A store with one intent: transaction \<open>[1, 9]\<close> wrote key \<open>[2]\<close> at time 5.\<close>

definition sample_txn :: Transaction where
  "sample_txn = zero_txn\<lparr>ID := Some [1, 9], TxnTimestamp := ts_at 5\<rparr>"

definition sample_intent :: "int32 \<Rightarrow> int64 \<Rightarrow> Intent" where
  "sample_intent status w = \<lparr>IntentSpan = \<lparr>SpanKey = [2], SpanEndKey = []\<rparr>,
     IntentTxn = sample_txn\<lparr>Status := status, TxnTimestamp := ts_at w\<rparr>\<rparr>"

definition sample_db :: pairs where
  "sample_db = [(NewMVCCKey [2], MVCCMetadata_MarshalTo (new_meta sample_txn False)),
     (NewMVCCTimeKey [2] (ts_at 5), stored_value sample_value)]"

definition sample_state :: "pairs estate" where
  "sample_state = \<lparr>eng = sample_db, rstats = Some \<lparr>StatRangeID = 1, StatNodeID = 1, TotalBytes = 0,
     TotalCount = 0, IsRaftLeader = True, IsRemoved = False\<rparr>\<rparr>"

lemma sample_txn_id: "good_id (ID sample_txn)" "ID sample_txn = Some [1, 9]"
  by (simp_all add: sample_txn_def good_id_def key_bytes_def)

lemma sample_view: "ref_view sample_db =
    [NewMVCCTimeKey [2] (ts_at 5) \<mapsto> stored_value sample_value,
     NewMVCCKey [2] \<mapsto> MVCCMetadata_MarshalTo (new_meta sample_txn False)]"
  using data_key_sample by (simp add: sample_db_def ref_view_Cons data_key_def)

lemma valid_ts_sample: "valid_ts (ts_at 5)"
  by (simp add: valid_ts_def ts_at_def)

lemma sample_meta: "meta_of (ref_view sample_db) [2] = Some (new_meta sample_txn False)"
  unfolding sample_view by (simp add: meta_of_put_meta sample_txn_id(1))

lemma sample_versions: "versions (ref_view sample_db) [2] = [ts_at 5 \<mapsto> sample_value]"
proof -
  have "versions Map.empty [2] = Map.empty" by (simp add: versions_def fun_eq_iff)
  then show ?thesis unfolding sample_view by (simp add: versions_put [OF good_sample_value])
qed

lemma sample_intent_on:
  "intent_on (ref_view (eng sample_state)) [2] (new_meta sample_txn False) (sample_intent st w)"
proof -
  have "wf_store (ref_view sample_db)" unfolding sample_view
    by (intro wf_store_put_meta wf_store_put) (simp_all add: good_sample_value valid_ts_sample)
  moreover have "wf_meta (ref_view sample_db) [2]" unfolding sample_view
    by (rule wf_meta_put_meta [OF _ sample_txn_id(1)]) (simp add: wf_meta_def)
  moreover have "MetaTimestamp (new_meta sample_txn False) = ts_at 5"
      "TransactionID (new_meta sample_txn False) = ID sample_txn"
    by (simp_all add: new_meta_def sample_txn_def)
  ultimately show ?thesis
    by (simp add: intent_on_def sample_state_def data_key_sample sample_meta valid_ts_sample
        sample_intent_def)
qed

section \<open>Properties\<close>

lemma rocksdb_engine:
  assumes "badger_laws B dview tview current"
  shows "engine_store (rocksdb B) dview (\<lambda>_. True)" "engine_read (rocksdb B) dview (\<lambda>_. True)"
    "engine_write (rocksdb B) dview (\<lambda>_. True)" "engine_nil (rocksdb B) dview (\<lambda>_. True)"
  using badger_laws.rocksdb_store [OF assms]
  by (simp_all add: engine_store_def engine_nil_def)



text \<open>
  C35. A write is seen exactly where it should be: \<^verbatim>\<open>MVCCPut\<close> succeeds and adds one version of its
  key at the transaction's timestamp; every other version, every other key and all metadata stay
  as they were, and the store stays well-formed.
\<close>

theorem MVCCPut_adds_version:
  assumes "badger_laws B dview tview current"
    and "data_key k" and "good_value v" and "wf_store (dview (eng s))" and "valid_ts (TxnTimestamp txn)"
  shows "\<exists>s'. MVCCPut (rocksdb B) k (Some txn) v st s = (Inr (), s') \<and>
    versions (dview (eng s')) k = (versions (dview (eng s)) k)(TxnTimestamp txn \<mapsto> v) \<and>
    (\<forall>k'. k' \<noteq> k \<longrightarrow> versions (dview (eng s')) k' = versions (dview (eng s)) k') \<and>
    meta_of (dview (eng s')) = meta_of (dview (eng s)) \<and> wf_store (dview (eng s'))"
proof -
  have "good_key k" using assms(2) by (simp add: data_key_def)
  from engine_write.MVCCPut_law [OF rocksdb_engine(3) [OF assms(1)] _ this assms(3), where s = s and txn = txn and st = st]
  obtain s' where "MVCCPut (rocksdb B) k (Some txn) v st s = (Inr (), s')"
      "dview (eng s') = (dview (eng s))(NewMVCCTimeKey k (TxnTimestamp txn) \<mapsto> stored_value v)"
    by auto
  then show ?thesis
    using assms(3-5) by (simp add: versions_put wf_store_put) (rule ext, simp)
qed

theorem MVCCPut_adds_version_witness:
  "\<exists>s'. MVCCPut (rocksdb ref_badger) [2] (Some (zero_txn\<lparr>TxnTimestamp := ts_at 5\<rparr>)) sample_value True
      \<lparr>eng = [], rstats = None\<rparr> = (Inr (), s') \<and>
    versions (ref_view (eng s')) [2] (ts_at 5) = Some sample_value"
proof -
  have "valid_ts (TxnTimestamp (zero_txn\<lparr>TxnTimestamp := ts_at 5\<rparr>))"
    by (simp add: valid_ts_def ts_at_def)
  from MVCCPut_adds_version [OF ref.badger_laws_axioms data_key_sample good_sample_value _ this,
      of "\<lparr>eng = [], rstats = None\<rparr>" True]
  show ?thesis by auto
qed



text \<open>
  C21. Resolving the intent of a committed transaction removes the intent and publishes the value at
  the commit timestamp: the metadata loses its transaction id and carries the commit timestamp,
  and when the commit timestamp is above the intent's, the value is a version at the commit
  timestamp. Other keys do not change.
\<close>

theorem resolve_committed_publishes:
  assumes "badger_laws B dview tview current"
    and "intent_on (dview (eng s)) k md i" and "Status (IntentTxn i) = COMMITTED"
    and "versions (dview (eng s)) k (MetaTimestamp md) = Some v" and "good_value v"
    and "rstats s \<noteq> None"
  shows "\<exists>s' md'. MVCCResolveWriteIntent (rocksdb B) [i] True s = (Inr (), s') \<and>
    meta_of (dview (eng s')) k = Some md' \<and> TransactionID md' = None \<and>
    MetaTimestamp md' = TxnTimestamp (IntentTxn i) \<and> MetaDeleted md' = MetaDeleted md \<and>
    versions (dview (eng s')) k =
      (if Timestamp_Less (MetaTimestamp md) (TxnTimestamp (IntentTxn i))
       then (versions (dview (eng s)) k)(TxnTimestamp (IntentTxn i) \<mapsto> v)
       else versions (dview (eng s)) k) \<and>
    (\<forall>k'. k' \<noteq> k \<longrightarrow> versions (dview (eng s')) k' = versions (dview (eng s)) k' \<and>
       meta_of (dview (eng s')) k' = meta_of (dview (eng s)) k')"
proof -
  note i = assms(2) [unfolded intent_on_def]
  let ?t = "zero_txn\<lparr>TxnTimestamp := TxnTimestamp (IntentTxn i)\<rparr>"
  obtain s' where s': "resolveIntent (rocksdb B) i True s = (Inr (), s')"
      "dview (eng s') = (let cts = TxnTimestamp (IntentTxn i);
           m = (dview (eng s))(NewMVCCKey k \<mapsto> MVCCMetadata_MarshalTo
             (new_meta (zero_txn\<lparr>TxnTimestamp := cts\<rparr>) (MetaDeleted md)))
       in if Timestamp_Less (MetaTimestamp md) cts
          then m(NewMVCCTimeKey k cts \<mapsto> stored_value v) else m)"
    using engine_store.resolve_commit_law [OF rocksdb_engine(1) [OF assms(1)],
        where s = s and k = k and md = md and v = v and i = i and st = True] i assms(3-6) by auto
  then show ?thesis
    using MVCCResolveWriteIntent_one [OF s'(1)]
    by (intro exI [of _ s'] exI [of _ "new_meta ?t (MetaDeleted md)"])
      (simp add: Let_def meta_of_put_meta versions_put [OF assms(5)])
qed

theorem resolve_committed_publishes_witness:
  "\<exists>s' md'. MVCCResolveWriteIntent (rocksdb ref_badger) [sample_intent COMMITTED 7] True sample_state
       = (Inr (), s') \<and>
     meta_of (ref_view (eng s')) [2] = Some md' \<and> TransactionID md' = None \<and>
     versions (ref_view (eng s')) [2] (ts_at 7) = Some sample_value"
proof -
  let ?i = "sample_intent COMMITTED 7" and ?md = "new_meta sample_txn False"
  have mts: "MetaTimestamp ?md = ts_at 5" by (simp add: new_meta_def sample_txn_def)
  have "versions (ref_view (eng sample_state)) [2] (MetaTimestamp ?md) = Some sample_value"
    using sample_versions mts by (simp add: sample_state_def)
  moreover have "Status (IntentTxn ?i) = COMMITTED" "TxnTimestamp (IntentTxn ?i) = ts_at 7"
      "rstats sample_state \<noteq> None"
    by (simp_all add: sample_intent_def sample_state_def)
  moreover have "Timestamp_Less (ts_at 5) (ts_at 7)" by (simp add: ts_at_def Timestamp_Less_def)
  ultimately show ?thesis
    using resolve_committed_publishes [OF ref.badger_laws_axioms sample_intent_on, of COMMITTED 7
        sample_value] good_sample_value mts by fastforce
qed

text \<open>
  C36. Resolving the intent of an aborted transaction does not remove what the transaction wrote: the
  aborted version stays among the key's versions. When the key has an older version, the metadata
  goes back to the newest of them; when it has none, even the metadata stays, so the key remains
  locked by the aborted transaction. Both follow from the lost \<^verbatim>\<open>Clear\<close>.
\<close>

theorem resolve_aborted_keeps_version:
  assumes "badger_laws B dview tview current"
    and "intent_on (dview (eng s)) k md i" and "Status (IntentTxn i) = ABORTED"
    and "\<forall>v \<in> ran (dview (eng s)). v \<noteq> []" and "rstats s \<noteq> None"
  shows "\<exists>s'. MVCCResolveWriteIntent (rocksdb B) [i] True s = (Inr (), s') \<and>
    versions (dview (eng s')) k = versions (dview (eng s)) k \<and>
    (if \<forall>t \<in> dom (versions (dview (eng s)) k). \<not> Timestamp_Less t (MetaTimestamp md)
     then meta_of (dview (eng s')) k = Some md
     else \<exists>t v md'. versions (dview (eng s)) k t = Some v \<and> Timestamp_Less t (MetaTimestamp md) \<and>
       (\<forall>t' \<in> dom (versions (dview (eng s)) k).
          Timestamp_Less t' (MetaTimestamp md) \<longrightarrow> \<not> Timestamp_Less t t') \<and>
       meta_of (dview (eng s')) k = Some md' \<and> TransactionID md' = None \<and>
       MetaTimestamp md' = t \<and> (MetaDeleted md' \<longleftrightarrow> Bytes v = []))"
proof -
  note i = assms(2) [unfolded intent_on_def]
  obtain s' where s': "resolveIntent (rocksdb B) i True s = (Inr (), s')"
    "if \<forall>t \<in> dom (versions (dview (eng s)) k). \<not> Timestamp_Less t (MetaTimestamp md)
     then dview (eng s') = dview (eng s)
     else \<exists>t v. versions (dview (eng s)) k t = Some v \<and> Timestamp_Less t (MetaTimestamp md) \<and>
       (\<forall>t' \<in> dom (versions (dview (eng s)) k).
          Timestamp_Less t' (MetaTimestamp md) \<longrightarrow> \<not> Timestamp_Less t t') \<and>
       dview (eng s') = (dview (eng s))(NewMVCCKey k \<mapsto> MVCCMetadata_MarshalTo
         (new_meta (zero_txn\<lparr>TxnTimestamp := t\<rparr>) (length (Bytes v) = 0)))"
    using engine_store.resolve_abort_law [OF rocksdb_engine(1) [OF assms(1)],
        where s = s and k = k and md = md and i = i and st = True] i assms(3-5) by auto
  show ?thesis
  proof (cases "\<forall>t \<in> dom (versions (dview (eng s)) k). \<not> Timestamp_Less t (MetaTimestamp md)")
    case True
    then have "dview (eng s') = dview (eng s)" using s'(2) by simp
    with True i MVCCResolveWriteIntent_one [OF s'(1)] show ?thesis by auto
  next
    case False
    then obtain t v where tv: "versions (dview (eng s)) k t = Some v"
        "Timestamp_Less t (MetaTimestamp md)"
        "\<forall>t' \<in> dom (versions (dview (eng s)) k).
          Timestamp_Less t' (MetaTimestamp md) \<longrightarrow> \<not> Timestamp_Less t t'"
        "dview (eng s') = (dview (eng s))(NewMVCCKey k \<mapsto> MVCCMetadata_MarshalTo
         (new_meta (zero_txn\<lparr>TxnTimestamp := t\<rparr>) (length (Bytes v) = 0)))"
      using s'(2) by (simp only: if_False) blast
    let ?md = "new_meta (zero_txn\<lparr>TxnTimestamp := t\<rparr>) (length (Bytes v) = 0)"
    have "meta_of (dview (eng s')) k = Some ?md" "versions (dview (eng s')) k = versions (dview (eng s)) k"
      using tv(4) by (simp_all add: meta_of_put_meta)
    moreover have "TransactionID ?md = None \<and> MetaTimestamp ?md = t \<and> (MetaDeleted ?md \<longleftrightarrow> Bytes v = [])"
      by simp
    ultimately show ?thesis
      using tv(1-3) MVCCResolveWriteIntent_one [OF s'(1)] unfolding if_not_P [OF False] by blast
  qed
qed

theorem resolve_aborted_keeps_version_witness:
  "\<exists>s'. MVCCResolveWriteIntent (rocksdb ref_badger) [sample_intent ABORTED 5] True sample_state
       = (Inr (), s') \<and>
     meta_of (ref_view (eng s')) [2] = Some (new_meta sample_txn False) \<and>
     versions (ref_view (eng s')) [2] (ts_at 5) = Some sample_value"
proof -
  let ?i = "sample_intent ABORTED 5" and ?md = "new_meta sample_txn False"
  have V: "versions (ref_view (eng sample_state)) [2] = [ts_at 5 \<mapsto> sample_value]"
    using sample_versions by (simp add: sample_state_def)
  have "\<forall>v \<in> ran (ref_view (eng sample_state)). v \<noteq> []"
    by (auto simp: sample_state_def sample_view ran_def)
  moreover have "Status (IntentTxn ?i) = ABORTED" "rstats sample_state \<noteq> None"
    by (simp_all add: sample_intent_def sample_state_def)
  moreover have "\<forall>t \<in> dom (versions (ref_view (eng sample_state)) [2]).
      \<not> Timestamp_Less t (MetaTimestamp ?md)"
    unfolding V by (simp add: new_meta_def sample_txn_def)
  ultimately show ?thesis
    using resolve_aborted_keeps_version [OF ref.badger_laws_axioms sample_intent_on, of ABORTED 5] V
    by fastforce
qed

end
