(* ===== verification/Api.thy ===== *)
theory Api
  imports Messages
begin

text \<open>
  Requests and responses: the messages of \<^verbatim>\<open>src/meta/api.pb.go\<close> that the handlers of nodes and
  the placement driver read, the methods of \<^verbatim>\<open>src/meta/api.go\<close> and \<^verbatim>\<open>src/meta/batch.go\<close>. A
  \<^verbatim>\<open>RequestUnion\<close> is the request it holds, \<^const>\<open>None\<close> when no field is set; \<^verbatim>\<open>SetValue\<close> accepts every
  request type, so \<^verbatim>\<open>Add\<close> never panics on a request. A message that is a pointer in the code and may
  be nil is an \<^verbatim>\<open>option\<close>.
  Proved: a batch runs its requests in order up to the first error and answers exactly those that
  succeeded, and running the rest of a batch after an error continues where it stopped.
\<close>

section \<open>Definitions\<close>

subsection \<open>Flags\<close>

abbreviation (input) InvalidFlag :: int32 where "InvalidFlag \<equiv> 0"
abbreviation (input) IsLeaderFlag :: int32 where "IsLeaderFlag \<equiv> 1"
abbreviation (input) IsReadFlag :: int32 where "IsReadFlag \<equiv> 2"
abbreviation (input) IsWriteFlag :: int32 where "IsWriteFlag \<equiv> 4"
abbreviation (input) IsMasterFlag :: int32 where "IsMasterFlag \<equiv> 8"
abbreviation (input) IsSystemFlag :: int32 where "IsSystemFlag \<equiv> 16"

subsection \<open>Messages\<close>

record NodeDescriptor =
  NodeID :: int32
  Address :: string
  Capacity :: int64

record NodeStatsInfo =
  NSNodeID :: int32
  NSTotalBytes :: int64
  NSTotalCount :: int64
  LeaderCount :: uint64
  NSRangeStats :: "int64 \<rightharpoonup> RangeStatsInfo"

record RequestHeader =
  HKey :: bytes
  HEndKey :: bytes
  HTimestamp :: Timestamp
  HRangeID :: int64
  HTxn :: "Transaction option"
  HFlag :: int32

definition zero_header :: RequestHeader where
  "zero_header = \<lparr>HKey = [], HEndKey = [], HTimestamp = zero_ts, HRangeID = 0, HTxn = None,
     HFlag = InvalidFlag\<rparr>"

record ResponseHeader =
  RespError :: "error option"
  RespTimestamp :: Timestamp
  RespTxn :: "Transaction option"

definition zero_resp :: ResponseHeader where
  "zero_resp = \<lparr>RespError = None, RespTimestamp = zero_ts, RespTxn = None\<rparr>"

datatype Request =
    GetRequest RequestHeader
  | PutRequest RequestHeader Value
  | ScanRequest RequestHeader int64                        \<comment> \<open>MaxResults\<close>
  | ReverseScanRequest RequestHeader int64
  | BeginTransactionRequest RequestHeader
  | EndTransactionRequest RequestHeader bool "Intent list" \<comment> \<open>Commit, Intents\<close>
  | HeartbeatTransactionRequest RequestHeader
  | ResolveIntentRequest RequestHeader "Intent list"
  | BatchedRequest RequestHeader "Request option list" "Transaction list"
  | PushTransactionRequest RequestHeader bytes int32 Timestamp
      \<comment> \<open>PusheeKey, PushType, LatestTimestamp\<close>
  | GetTimestampRequest RequestHeader
  | SetRangeDescriptorsRequest RequestHeader "RangeDescriptor list"
  | GetRangeDescriptorsRequest RequestHeader
  | SetNodeDescriptorsRequest RequestHeader "NodeDescriptor list"
  | GetNodeDescriptorsRequest RequestHeader "int32 list"
  | SetRangeStatsRequest RequestHeader "RangeStatsInfo list"
  | GetRangeStatsRequest RequestHeader "int64 list"
  | SetNodeStatsRequest RequestHeader NodeStatsInfo
  | GetNodeStatsRequest RequestHeader "int32 list"
  | GetNewIDRequest RequestHeader
  | GetSplitKeyRequest RequestHeader int64                 \<comment> \<open>SplitSize\<close>
  | SplitRequest RequestHeader int64 bytes int64 int64
      \<comment> \<open>NewRangeID, SplitKey, NewRangeBytes, NewRangeCount\<close>
  | LoadPdConfRequest RequestHeader string
  | AddRaftConfRequest RequestHeader int32                 \<comment> \<open>NodeID\<close>
  | DeleteRaftConfRequest RequestHeader int32
  | CreateReplicaRequest RequestHeader RangeDescriptor int32
  | RemoveReplicaRequest RequestHeader int32
  | UpdateRangeRequest RequestHeader RangeDescriptor
  | CompactLogRequest RequestHeader
  | TransferLeaderRequest RequestHeader int32 int32        \<comment> \<open>From, To\<close>
  | BootstrapRequest RequestHeader string int64            \<comment> \<open>Address, Capacity\<close>

datatype Response =
    GetResponse ResponseHeader KeyValue
  | PutResponse ResponseHeader
  | ScanResponse ResponseHeader "KeyValue list"
  | ReverseScanResponse ResponseHeader "KeyValue list"
  | BeginTransactionResponse ResponseHeader
  | EndTransactionResponse ResponseHeader
  | HeartbeatTransactionResponse ResponseHeader
  | ResolveIntentResponse ResponseHeader
  | PushTransactionResponse ResponseHeader "Transaction option" \<comment> \<open>PusheeTxn\<close>
  | GetTimestampResponse ResponseHeader
  | SetRangeDescriptorsResponse ResponseHeader
  | GetRangeDescriptorsResponse ResponseHeader "RangeDescriptor list"
  | SetNodeDescriptorsResponse ResponseHeader
  | GetNodeDescriptorsResponse ResponseHeader "NodeDescriptor list"
  | SetRangeStatsResponse ResponseHeader
  | GetRangeStatsResponse ResponseHeader "RangeStatsInfo list"
  | SetNodeStatsResponse ResponseHeader
  | GetNodeStatsResponse ResponseHeader "NodeStatsInfo list"
  | GetNewIDResponse ResponseHeader int64
  | GetSplitKeyResponse ResponseHeader bytes int64 int64    \<comment> \<open>SplitKey, RangeBytes, RangeCount\<close>
  | SplitResponse ResponseHeader "RangeDescriptor list"
  | LoadPdConfResponse ResponseHeader
  | AddRaftConfResponse ResponseHeader RangeDescriptor
  | DeleteRaftConfResponse ResponseHeader RangeDescriptor
  | CreateReplicaResponse ResponseHeader
  | RemoveReplicaResponse ResponseHeader
  | UpdateRangeResponse ResponseHeader
  | CompactLogResponse ResponseHeader
  | TransferLeaderResponse ResponseHeader
  | BootstrapResponse ResponseHeader NodeDescriptor

text \<open>\<^verbatim>\<open>Header\<close>, the embedded header every request promotes.\<close>

primrec Header :: "Request \<Rightarrow> RequestHeader" where
  "Header (GetRequest h) = h"
| "Header (PutRequest h v) = h"
| "Header (ScanRequest h n) = h"
| "Header (ReverseScanRequest h n) = h"
| "Header (BeginTransactionRequest h) = h"
| "Header (EndTransactionRequest h c is) = h"
| "Header (HeartbeatTransactionRequest h) = h"
| "Header (ResolveIntentRequest h is) = h"
| "Header (BatchedRequest h rs ts) = h"
| "Header (PushTransactionRequest h k p t) = h"
| "Header (GetTimestampRequest h) = h"
| "Header (SetRangeDescriptorsRequest h ds) = h"
| "Header (GetRangeDescriptorsRequest h) = h"
| "Header (SetNodeDescriptorsRequest h ns) = h"
| "Header (GetNodeDescriptorsRequest h ns) = h"
| "Header (SetRangeStatsRequest h ss) = h"
| "Header (GetRangeStatsRequest h rs) = h"
| "Header (SetNodeStatsRequest h n) = h"
| "Header (GetNodeStatsRequest h ns) = h"
| "Header (GetNewIDRequest h) = h"
| "Header (GetSplitKeyRequest h n) = h"
| "Header (SplitRequest h n k b c) = h"
| "Header (LoadPdConfRequest h f) = h"
| "Header (AddRaftConfRequest h n) = h"
| "Header (DeleteRaftConfRequest h n) = h"
| "Header (CreateReplicaRequest h d n) = h"
| "Header (RemoveReplicaRequest h n) = h"
| "Header (UpdateRangeRequest h d) = h"
| "Header (CompactLogRequest h) = h"
| "Header (TransferLeaderRequest h f t) = h"
| "Header (BootstrapRequest h a c) = h"

subsection \<open>Batches\<close>

record BatchRequest =
  BHeader :: RequestHeader
  Req :: "Request option list"
  PusheeTxn :: "Transaction list"

record BatchResponse =
  BRespHeader :: ResponseHeader
  Resp :: "Response list"

definition zero_bresp :: BatchResponse where
  "zero_bresp = \<lparr>BRespHeader = zero_resp, Resp = []\<rparr>"

text \<open>\<^verbatim>\<open>Flags\<close> calls a method of each inner request: an empty union panics.\<close>

fun flagsLoop :: "int32 \<Rightarrow> Request option list \<Rightarrow> error + int32" where
  "flagsLoop flags [] = Inr flags"
| "flagsLoop flags (None # us) = Inl (Panic ''nil pointer dereference'')"
| "flagsLoop flags (Some r # us) = flagsLoop (flags OR HFlag (Header r)) us"

definition Flags :: "BatchRequest \<Rightarrow> error + int32" where
  "Flags br = flagsLoop 0 (Req br)"

definition IsLeader :: "BatchRequest \<Rightarrow> error + bool" where
  "IsLeader br = bindE (Flags br) (\<lambda>f. Inr (f AND IsLeaderFlag \<noteq> 0))"

definition IsWrite :: "BatchRequest \<Rightarrow> error + bool" where
  "IsWrite br = bindE (Flags br) (\<lambda>f. Inr (f AND IsWriteFlag \<noteq> 0))"

definition IsReadOnly :: "BatchRequest \<Rightarrow> error + bool" where
  "IsReadOnly br = bindE (Flags br) (\<lambda>f. Inr (f AND IsReadFlag \<noteq> 0 \<and> f AND IsWriteFlag = 0))"

definition IsSystem :: "BatchRequest \<Rightarrow> error + bool" where
  "IsSystem br = bindE (Flags br) (\<lambda>f. Inr (f AND IsSystemFlag \<noteq> 0))"

definition First :: "BatchResponse \<Rightarrow> Response option" where
  "First br = (if length (Resp br) > 0 then Some (Resp br ! 0) else None)"

definition Add :: "Request list \<Rightarrow> BatchRequest \<Rightarrow> BatchRequest" where
  "Add requests br = br\<lparr>Req := Req br @ map Some requests\<rparr>"

definition AddUnion :: "Request option \<Rightarrow> BatchRequest \<Rightarrow> BatchRequest" where
  "AddUnion u br = br\<lparr>Req := Req br @ [u]\<rparr>"

definition GetPushType :: "BatchRequest \<Rightarrow> error + int32" where
  "GetPushType br = bindE (IsWrite br) (\<lambda>w. Inr (if w then PUSH_ABORT else PUSH_TIMESTAMP))"

definition SetNewRequest :: "BatchRequest \<Rightarrow> BatchRequest" where
  "SetNewRequest br =
     (case HTxn (BHeader br) of
        None \<Rightarrow> br
      | Some txn \<Rightarrow>
          br\<lparr>BHeader := (BHeader br)\<lparr>HTxn := Some (txn\<lparr>Sequence := Sequence txn + 1\<rparr>)\<rparr>\<rparr>)"

text \<open>
  \<^verbatim>\<open>Execute\<close>: the responses so far and the error, if there was one, both of which its callers use.
\<close>

definition badRequest :: error where
  "badRequest = Errorf ''bad Request, need inner Request''"

fun executeLoop ::
    "(Request \<Rightarrow> ('s, error, Response) op) \<Rightarrow> Request option list \<Rightarrow> Response list \<Rightarrow> 's
       \<Rightarrow> (Response list \<times> error option) \<times> 's" where
  "executeLoop ex [] resps s = ((resps, None), s)"
| "executeLoop ex (None # us) resps s = ((resps, Some badRequest), s)"
| "executeLoop ex (Some req # us) resps s =
     (case ex req s of
        (Inl err, s') \<Rightarrow> ((resps, Some err), s')
      | (Inr resp, s') \<Rightarrow> executeLoop ex us (resps @ [resp]) s')"

definition Execute ::
    "(Request \<Rightarrow> ('s, error, Response) op) \<Rightarrow> BatchRequest \<Rightarrow> 's
       \<Rightarrow> (Response list \<times> error option) \<times> 's" where
  "Execute ex br s = executeLoop ex (Req br) [] s"

section \<open>Running a batch\<close>

text \<open>The successful runs: every union holds a request and every request succeeds, in order.\<close>

inductive runs ::
    "(Request \<Rightarrow> ('s, error, Response) op) \<Rightarrow> Request option list \<Rightarrow> 's \<Rightarrow> Response list \<Rightarrow> 's \<Rightarrow> bool"
  for ex where
  runs_Nil: "runs ex [] s [] s"
| runs_Cons: "ex req s = (Inr resp, s1) \<Longrightarrow> runs ex us s1 resps s' \<Longrightarrow>
    runs ex (Some req # us) s (resp # resps) s'"

inductive_simps runs_Nil_iff [simp]: "runs ex [] s resps s'"
inductive_simps runs_None_iff [simp]: "runs ex (None # us) s resps s'"
inductive_cases runs_SomeE: "runs ex (Some req # us) s resps s'"

lemma runs_length: "runs ex us s resps s' \<Longrightarrow> length resps = length us"
  by (induction rule: runs.induct) auto

lemma executeLoop_runs:
  assumes "runs ex us s resps s1"
  shows "executeLoop ex (us @ vs) acc s = executeLoop ex vs (acc @ resps) s1"
  using assms by (induction arbitrary: acc rule: runs.induct) auto

text \<open>Where and why a batch stops.\<close>

definition stops ::
    "(Request \<Rightarrow> ('s, error, Response) op) \<Rightarrow> Request option list \<Rightarrow> 's \<Rightarrow> error option \<Rightarrow> 's \<Rightarrow> bool"
where
  "stops ex us s err s' \<longleftrightarrow>
     (case us of
        [] \<Rightarrow> err = None \<and> s' = s
      | None # _ \<Rightarrow> err = Some badRequest \<and> s' = s
      | Some req # _ \<Rightarrow> \<exists>e. err = Some e \<and> ex req s = (Inl e, s'))"

lemma executeLoop_split:
  assumes "executeLoop ex us acc s = ((resps, err), s')"
  shows "\<exists>pre rest new s1. us = pre @ rest \<and> resps = acc @ new \<and> runs ex pre s new s1 \<and>
    stops ex rest s1 err s'"
  using assms
proof (induction ex us acc s rule: executeLoop.induct)
  case (1 ex acc s)
  then show ?case by (auto simp: stops_def intro!: exI [of _ "[]"])
next
  case (2 ex us acc s)
  then show ?case
    by (intro exI [of _ "[]"] exI [of _ "None # us"] exI [of _ s]) (auto simp: stops_def)
next
  case (3 ex req us acc s)
  show ?case
  proof (cases "ex req s")
    case (Pair r s0)
    show ?thesis
    proof (cases r)
      case (Inl e)
      with 3(2) Pair show ?thesis
        by (intro exI [of _ "[]"] exI [of _ "Some req # us"] exI [of _ s]) (auto simp: stops_def)
    next
      case (Inr resp)
      with 3 Pair obtain pre rest new s1 where
        "us = pre @ rest" "resps = (acc @ [resp]) @ new" "runs ex pre s0 new s1"
        "stops ex rest s1 err s'" by fastforce
      with Pair Inr show ?thesis
        by (intro exI [of _ "Some req # pre"] exI [of _ rest] exI [of _ "resp # new"] exI [of _ s1])
          (auto intro: runs_Cons)
    qed
  qed
qed

text \<open>
  C34. A batch runs its requests in order and stops at the first that fails: the responses are those
  of the requests before it, all of which succeeded, the state is the one they left behind changed
  only by the failing request, and without an error every request was answered. Executing the
  remaining requests afterwards, as \<^verbatim>\<open>Store.Send\<close> does after a conflict, runs each request that
  succeeded exactly once.
\<close>

theorem Execute_prefix:
  "case Execute ex br s of ((resps, err), s') \<Rightarrow>
     length resps \<le> length (Req br) \<and>
     (\<exists>s1. runs ex (take (length resps) (Req br)) s resps s1 \<and>
        stops ex (drop (length resps) (Req br)) s1 err s' \<and>
        Execute ex br s = executeLoop ex (drop (length resps) (Req br)) resps s1)"
proof -
  obtain resps err s' where run: "executeLoop ex (Req br) [] s = ((resps, err), s')"
    by (cases "executeLoop ex (Req br) [] s") auto
  from executeLoop_split [OF this] obtain pre rest new s1 where split: "Req br = pre @ rest"
    "resps = [] @ new" "runs ex pre s new s1" "stops ex rest s1 err s'" by blast
  then have "length resps = length pre" by (simp add: runs_length)
  then show ?thesis
    using run split executeLoop_runs [OF split(3), of rest "[]"]
    by (auto simp: Execute_def)
qed

end
