(* ===== verification/Command.thy ===== *)
theory Command
  imports Mvcc Api
begin

text \<open>
  The commands a replica executes on the data of its range, \<^verbatim>\<open>src/storage/replica_command.go\<close>:
  reads (\<open>replica_get\<close>, \<open>scan\<close>, \<open>reverseScan\<close>), which run on the snapshot engine they are given,
  and writes (\<open>replica_put\<close>, \<open>pushTransaction\<close>, \<open>beginTransaction\<close>, \<open>endTransaction\<close>,
  \<open>heartbeatTransaction\<close>, \<open>replica_resolveIntent\<close>), which run on \<^verbatim>\<open>r.store.engine\<close> with the
  statistics \<^verbatim>\<open>r.store.rangeStats[r.rangeID]\<close>: the state \<^typ>\<open>'e estate\<close>. A handler that reads the name
  of its transaction panics when the request carries none. The messages of errors are abbreviated.
  Proved: a read refines the multi-version specification \<open>reads_as\<close>, scans return and equal
  key-by-key reads in both directions, writes are isolated and conflicting writes are refused
  without a trace, a push settles a conflict, and what an aborted transaction wrote can be read.
\<close>

section \<open>Definitions\<close>

text \<open>The handlers begin with \<^verbatim>\<open>txn.Name\<close>: a nil pointer panics.\<close>

definition derefTxn :: "Transaction option \<Rightarrow> (Transaction \<Rightarrow> ('s, error, 'a) op) \<Rightarrow> ('s, error, 'a) op" where
  "derefTxn txn f = (case txn of None \<Rightarrow> fail NilPointer | Some t \<Rightarrow> f t)"

text \<open>\<^verbatim>\<open>5 * time.Second\<close> in nanoseconds.\<close>

definition txnExpiredTime :: int where
  "txnExpiredTime = 5 * 10 ^ 9"

subsection \<open>Wrappers of the multi-version functions\<close>

definition putTxnData :: "'e Engine \<Rightarrow> Transaction \<Rightarrow> int \<Rightarrow> bool \<Rightarrow> ('e estate, error, unit) op" where
  "putTxnData E txn changeType st = MVCCPutTxn E txn changeType st"

definition getMetaData ::
    "'e Engine \<Rightarrow> bytes \<Rightarrow> 'e \<Rightarrow> error + (MVCCMetadata \<times> nat \<times> nat) option" where
  "getMetaData E key e = MVCCGetMeta E key e"

definition getTxnData :: "'e Engine \<Rightarrow> bytes \<Rightarrow> 'e \<Rightarrow> error + Transaction option" where
  "getTxnData E key e = MVCCGetTxn E key e"

definition getEngineData :: "'e Engine \<Rightarrow> bytes \<Rightarrow> Timestamp \<Rightarrow> 'e \<Rightarrow> error + Value option" where
  "getEngineData E key ts e = bindE (MVCCGet E key ts e) (\<lambda>(val, _, _). Inr val)"

definition putMetaData ::
    "'e Engine \<Rightarrow> bytes \<Rightarrow> Transaction \<Rightarrow> bool \<Rightarrow> bool \<Rightarrow> nat \<Rightarrow> nat \<Rightarrow> ('e estate, error, unit) op" where
  "putMetaData E key txn deleted st origKeySize origValSize =
     bindM (MVCCPutMeta E key txn deleted st origKeySize origValSize) (\<lambda>_. ret ())"

definition putEngineData ::
    "'e Engine \<Rightarrow> bytes \<Rightarrow> Transaction \<Rightarrow> Value \<Rightarrow> bool \<Rightarrow> ('e estate, error, unit) op" where
  "putEngineData E key txn val st = MVCCPut E key (Some txn) val st"

definition clearEngineData :: "'e Engine \<Rightarrow> bytes \<Rightarrow> Timestamp \<Rightarrow> ('e estate, error, unit) op" where
  "clearEngineData E key ts = MVCCClear E key ts"

lemmas wrapper_defs = putTxnData_def getMetaData_def getTxnData_def putEngineData_def
  clearEngineData_def

subsection \<open>Reading\<close>

definition replica_getInternal ::
    "'e Engine \<Rightarrow> bytes \<Rightarrow> Timestamp \<Rightarrow> Transaction option \<Rightarrow> 'e \<Rightarrow> error + Value option" where
  "replica_getInternal E key ts txn e =
     (case txn of
        None \<Rightarrow> Inl NilPointer
      | Some txn \<Rightarrow>
          bindE (getMetaData E key e) (\<lambda>found.
            case found of
              None \<Rightarrow> Inr None
            | Some (metaData, _, _) \<Rightarrow>
                bindE
                  (case TransactionID metaData of
                     Some tid \<Rightarrow>
                       if tid \<noteq> key_bytes (ID txn) then
                         (if \<not> Timestamp_Less ts (MetaTimestamp metaData)
                          then Inl (NewWriteIntentError (Some txn) PUSH_TIMESTAMP (Some tid) key)
                          else Inr (False, ts))
                       else Inr (True, MetaTimestamp metaData)
                   | None \<Rightarrow> Inr (\<not> Timestamp_Less ts (MetaTimestamp metaData), ts))
                  (\<lambda>(checkDel, ts).
                     if checkDel \<and> MetaDeleted metaData then Inr None
                     else getEngineData E key ts e)))"

definition replica_get :: "'e Engine \<Rightarrow> RequestHeader \<Rightarrow> 'e \<Rightarrow> error + Response" where
  "replica_get E h e =
     bindE (replica_getInternal E (HKey h) (HTimestamp h) (HTxn h) e) (\<lambda>val.
       Inr (GetResponse (zero_resp\<lparr>RespTimestamp := HTimestamp h\<rparr>)
         \<lparr>KVKey = HKey h, KVValue = (case val of None \<Rightarrow> zero_value | Some v \<Rightarrow> v)\<rparr>))"

text \<open>
  The loop of \<^verbatim>\<open>scanInternal\<close>, from the key the iterator stands on. Every round seeks anew, so that
  key is all of the iterator's state the loop reads; \<^verbatim>\<open>for {}\<close> has no bound of its own, hence the
  fuel, and \<^const>\<open>None\<close> when it runs out. \<open>scan_fuel\<close> below says how much is enough.
\<close>

fun scanLoop ::
    "nat \<Rightarrow> 'e Engine \<Rightarrow> bytes \<Rightarrow> Transaction \<Rightarrow> Timestamp \<Rightarrow> int64 \<Rightarrow> bool \<Rightarrow> 'e \<Rightarrow> bytes
       \<Rightarrow> KeyValue list \<Rightarrow> (error + KeyValue list) option" where
  "scanLoop 0 E encEndKey txn ts mx reverse e iterKey keyValues = None"
| "scanLoop (Suc n) E encEndKey txn ts mx reverse e iterKey keyValues =
     (case GetMetaKey iterKey encEndKey reverse of
        Inl err \<Rightarrow> Some (Inl err)
      | Inr None \<Rightarrow> Some (Inr keyValues)
      | Inr (Some (metaKey, encMetaKey)) \<Rightarrow>
          (case replica_getInternal E metaKey ts (Some txn) e of
             Inl err \<Rightarrow> Some (Inl err)
           | Inr val \<Rightarrow>
               (let hit = (case val of None \<Rightarrow> False | Some v \<Rightarrow> length (Bytes v) \<noteq> 0);
                    keyValues' = (if hit then keyValues @ [\<lparr>KVKey = metaKey, KVValue = the val\<rparr>]
                                  else keyValues)
                in if hit \<and> of_nat (length keyValues') = mx \<and> sint mx > 0
                   then Some (Inr keyValues')
                   else case (if reverse then tl (Seek E reverse encMetaKey e)
                              else Seek E reverse (NewMVCCKey (Key_Next metaKey)) e) of
                          [] \<Rightarrow> Some (Inr keyValues')
                        | (k, _) # _ \<Rightarrow>
                            scanLoop n E encEndKey txn ts mx reverse e k keyValues')))"

definition scanInternal ::
    "nat \<Rightarrow> 'e Engine \<Rightarrow> bytes \<Rightarrow> bytes \<Rightarrow> Transaction option \<Rightarrow> Timestamp \<Rightarrow> int64 \<Rightarrow> bool \<Rightarrow> 'e
       \<Rightarrow> (error + KeyValue list) option" where
  "scanInternal fuel E startKey endKey reqTxn ts mx reverse e =
     (case reqTxn of
        None \<Rightarrow> Some (Inl NilPointer)
      | Some txn \<Rightarrow>
          if length startKey = 0 then Some (Inl InvalidKeyError)
          else
            let encEndKey = (if reverse then NewMVCCKey startKey else NewMVCCKey endKey);
                encKey = (if reverse then NewMVCCKey endKey else NewMVCCKey startKey);
                it = Seek E reverse encKey e;
                it = (if reverse then (case it of
                                         [] \<Rightarrow> []
                                       | (k, _) # rest \<Rightarrow> if \<not> k < encKey then rest else it)
                      else it)
            in case it of
                 [] \<Rightarrow> Some (Inr [])
               | (k, _) # _ \<Rightarrow> scanLoop fuel E encEndKey txn ts mx reverse e k [])"

text \<open>A scan that does not return.\<close>

definition Diverges :: error where
  "Diverges = Panic ''does not return''"

definition scan :: "nat \<Rightarrow> 'e Engine \<Rightarrow> RequestHeader \<Rightarrow> int64 \<Rightarrow> 'e \<Rightarrow> error + Response" where
  "scan fuel E h mx e =
     (case scanInternal fuel E (HKey h) (HEndKey h) (HTxn h) (HTimestamp h) mx False e of
        None \<Rightarrow> Inl Diverges
      | Some (Inl err) \<Rightarrow> Inl err
      | Some (Inr kvs) \<Rightarrow> Inr (ScanResponse zero_resp kvs))"

definition reverseScan :: "nat \<Rightarrow> 'e Engine \<Rightarrow> RequestHeader \<Rightarrow> int64 \<Rightarrow> 'e \<Rightarrow> error + Response" where
  "reverseScan fuel E h mx e =
     (case scanInternal fuel E (HKey h) (HEndKey h) (HTxn h) (HTimestamp h) mx True e of
        None \<Rightarrow> Inl Diverges
      | Some (Inl err) \<Rightarrow> Inl err
      | Some (Inr kvs) \<Rightarrow> Inr (ReverseScanResponse zero_resp kvs))"

subsection \<open>Writing\<close>

definition isNoneValue :: "Value \<Rightarrow> bool" where
  "isNoneValue val \<longleftrightarrow> length (Bytes val) = 0 \<and> Checksum val = 0 \<and> ValTimestamp val = None \<and> Tag val = 0"

definition putDataAndMeta ::
    "'e Engine \<Rightarrow> bytes \<Rightarrow> Transaction \<Rightarrow> Value \<Rightarrow> bool \<Rightarrow> nat \<Rightarrow> nat \<Rightarrow> ('e estate, error, unit) op" where
  "putDataAndMeta E key txn val deleted origKeySize origValSize =
     bindM (putMetaData E key txn deleted True origKeySize origValSize)
       (\<lambda>_. putEngineData E key txn val True)"

text \<open>What \<^verbatim>\<open>put\<close> does with the metadata it found before it writes.\<close>

definition putConflict ::
    "'e Engine \<Rightarrow> bytes \<Rightarrow> Transaction \<Rightarrow> Timestamp \<Rightarrow> MVCCMetadata option \<Rightarrow> ('e estate, error, unit) op" where
  "putConflict E key txn ts metaData =
     (case metaData of
        None \<Rightarrow> ret ()
      | Some md \<Rightarrow>
          (case TransactionID md of
             None \<Rightarrow>
               if Timestamp_Less ts (MetaTimestamp md)
               then fail (WriteTooOldError ts (MetaTimestamp md)) else ret ()
           | Some tid \<Rightarrow>
               if tid \<noteq> key_bytes (ID txn)
               then fail (NewWriteIntentError (Some txn) PUSH_ABORT (Some tid) key)
               else if \<not> Timestamp_Equal (MetaTimestamp md) ts
               then clearEngineData E key (MetaTimestamp md) else ret ()))"

definition replica_put :: "'e Engine \<Rightarrow> RequestHeader \<Rightarrow> Value \<Rightarrow> ('e estate, error, unit) op" where
  "replica_put E h val =
     (let key = HKey h; ts = HTimestamp h; noneValue = isNoneValue val
      in derefTxn (HTxn h) (\<lambda>txn.
         bindM (readEng (getMetaData E key)) (\<lambda>found.
         let metaData = map_option fst found;
             (origKeySize, origValSize) = (case found of None \<Rightarrow> (0, 0) | Some (_, sizes) \<Rightarrow> sizes)
         in bindM (putConflict E key txn ts metaData) (\<lambda>_.
            if noneValue \<and> (case metaData of None \<Rightarrow> True | Some md \<Rightarrow> MetaDeleted md) then ret ()
            else putDataAndMeta E key txn val noneValue origKeySize origValSize))))"

definition beginTransaction :: "'e Engine \<Rightarrow> RequestHeader \<Rightarrow> ('e estate, error, unit) op" where
  "beginTransaction E h = derefTxn (HTxn h) (\<lambda>txn. putTxnData E txn TxnChangeTypeBegin True)"

definition endTransaction :: "'e Engine \<Rightarrow> RequestHeader \<Rightarrow> bool \<Rightarrow> ('e estate, error, unit) op" where
  "endTransaction E h commit = derefTxn (HTxn h) (\<lambda>txn.
     putTxnData E (txn\<lparr>Status := if commit then COMMITTED else ABORTED\<rparr>) TxnChangeTypeEnd False)"

text \<open>The result is the transaction of the response, set when the record has a final status.\<close>

definition heartbeatTransaction ::
    "'e Engine \<Rightarrow> RequestHeader \<Rightarrow> ('e estate, error, Transaction option) op" where
  "heartbeatTransaction E h = derefTxn (HTxn h) (\<lambda>txn s.
     case putTxnData E txn TxnChangeTypeHeartbeat False s of
       (Inl (TransactionStatusError _ _ _), s') \<Rightarrow>
         (Inr (Some (zero_txn\<lparr>ID := ID txn, Status := ABORTED\<rparr>)), s')
     | (Inl (Panic p), s') \<Rightarrow> (Inl (Panic p), s')
     | (_, s') \<Rightarrow> (Inr None, s'))"

definition replica_resolveIntent ::
    "'e Engine \<Rightarrow> RequestHeader \<Rightarrow> Intent list \<Rightarrow> ('e estate, error, unit) op" where
  "replica_resolveIntent E h intents = derefTxn (HTxn h) (\<lambda>_. MVCCResolveWriteIntent E intents True)"

definition processPushTransaction ::
    "'e Engine \<Rightarrow> bytes \<Rightarrow> Timestamp \<Rightarrow> int32 \<Rightarrow> Transaction option \<Rightarrow> ('e estate, error, Transaction) op" where
  "processPushTransaction E key latestTimestamp pushType pusherTxn = derefTxn pusherTxn (\<lambda>pusherTxn.
     bindM (readEng (getTxnData E key)) (\<lambda>found.
       case found of
         None \<Rightarrow> fail (InvalidTransactionError ''not found txnID'')
       | Some pusheeTxn \<Rightarrow>
           (let nowTime = WallTime latestTimestamp; pusherTimestamp = TxnTimestamp pusherTxn;
                abort = (let aborted = pusheeTxn\<lparr>Status := ABORTED\<rparr>
                         in bindM (putTxnData E aborted TxnChangeTypePushAbort False)
                              (\<lambda>_. ret aborted))
            in if Status pusheeTxn \<noteq> PENDING then ret pusheeTxn
               else if pushType = PUSH_TIMESTAMP \<and> Timestamp_Large (TxnTimestamp pusheeTxn) pusherTimestamp
               then ret pusheeTxn
               else if sint (nowTime - LastHeartbeat pusheeTxn) > txnExpiredTime then abort
               else if sint (Priority pusherTxn) < sint (Priority pusheeTxn)
               then fail (TransactionAbortedError pusherTxn)
               else if pushType = PUSH_TIMESTAMP then
                 (case Timestamp_Next pusherTimestamp of
                    None \<Rightarrow> fail (Panic ''cannot take the next value to a max timestamp'')
                  | Some t \<Rightarrow>
                      (let pushed = pusheeTxn\<lparr>TxnTimestamp := t\<rparr>
                       in bindM (putTxnData E pushed TxnChangeTypePushTimestamp False)
                            (\<lambda>_. ret pushed)))
               else if pushType = PUSH_ABORT then abort
               else fail (TransactionAbortedError pusherTxn))))"

definition pushTransaction ::
    "'e Engine \<Rightarrow> RequestHeader \<Rightarrow> bytes \<Rightarrow> int32 \<Rightarrow> Timestamp \<Rightarrow> ('e estate, error, Response) op" where
  "pushTransaction E h pusheeKey pushType latestTimestamp =
     bindM (processPushTransaction E pusheeKey latestTimestamp pushType (HTxn h))
       (\<lambda>pusheeTxn. ret (PushTransactionResponse zero_resp (Some pusheeTxn)))"

section \<open>Scanning\<close>

text \<open>A raw key of a user key: its metadata key or one of its versions.\<close>

definition rawkey :: "bytes \<Rightarrow> bytes \<Rightarrow> bool" where
  "rawkey k x \<longleftrightarrow> x = NewMVCCKey k \<or> (\<exists>t. x = NewMVCCTimeKey k t)"

definition ukeys :: "(bytes \<rightharpoonup> bytes) \<Rightarrow> bytes set" where
  "ukeys m = {k. \<exists>x \<in> dom m. rawkey k x}"

text \<open>The user keys of a range, in order, and what a scan over them returns.\<close>

definition range_keys :: "(bytes \<rightharpoonup> bytes) \<Rightarrow> bytes \<Rightarrow> bytes \<Rightarrow> bytes list" where
  "range_keys m a b = sorted_list_of_set {k \<in> ukeys m. a \<le> k \<and> k < b}"

fun rows :: "(bytes \<Rightarrow> error + Value option) \<Rightarrow> int64 \<Rightarrow> bytes list \<Rightarrow> KeyValue list \<Rightarrow> error + KeyValue list" where
  "rows g mx [] kvs = Inr kvs"
| "rows g mx (k # ks) kvs =
     (case g k of
        Inl err \<Rightarrow> Inl err
      | Inr None \<Rightarrow> rows g mx ks kvs
      | Inr (Some v) \<Rightarrow>
          if Bytes v = [] then rows g mx ks kvs
          else let kvs' = kvs @ [\<lparr>KVKey = k, KVValue = v\<rparr>]
               in if of_nat (length kvs') = mx \<and> 0 < sint mx then Inr kvs' else rows g mx ks kvs')"

lemma range_keys_Nil: "\<forall>k \<in> ukeys m. a \<le> k \<longrightarrow> \<not> k < b \<Longrightarrow> range_keys m a b = []"
proof -
  assume "\<forall>k \<in> ukeys m. a \<le> k \<longrightarrow> \<not> k < b"
  then have "{k \<in> ukeys m. a \<le> k \<and> k < b} = {}" by blast
  then show ?thesis by (simp only: range_keys_def sorted_list_of_set_empty)
qed

lemma rawkey_split: "rawkey k x \<Longrightarrow> \<exists>s. x = NewMVCCKey k @ s"
  by (auto simp: rawkey_def NewMVCCTimeKey_split intro: exI [of _ "[]"])

lemma rawkey_meta [simp]: "rawkey k (NewMVCCKey k)"
  by (simp add: rawkey_def)

lemma rawkey_less:
  assumes "rawkey k x"
  shows "x < NewMVCCKey b \<longleftrightarrow> k < b"
proof -
  obtain s where "x = NewMVCCKey k @ s" using rawkey_split [OF assms] by blast
  then show ?thesis using NewMVCCKey_append_less_iff [of k s b "[]"] by auto
qed

lemma rawkey_mono:
  assumes "rawkey k x" "rawkey l y" "x \<le> y"
  shows "k \<le> l"
proof (rule ccontr)
  assume "\<not> k \<le> l"
  then have "y < NewMVCCKey k" using rawkey_less [OF assms(2)] by auto
  moreover have "NewMVCCKey k \<le> x" using rawkey_less [OF assms(1), of k] by auto
  ultimately show False using assms(3) by auto
qed

lemma time_key_prefix:
  "take (length (NewMVCCTimeKey k t) - EncodeTimestampSize) (NewMVCCTimeKey k t) = NewMVCCKey k"
  by (simp add: NewMVCCTimeKey_split EncodeTimestampSize_def)

lemma GetMetaKey_raw:
  assumes "rawkey k x"
  shows "GetMetaKey x (NewMVCCKey b) reverse =
    Inr (if (k < b) = reverse then None else Some (k, NewMVCCKey k))"
  using assms rawkey_less [OF assms, of b]
  by (auto simp: GetMetaKey_def rawkey_def time_key_prefix)

lemma finite_ukeys: "finite (dom m) \<Longrightarrow> finite (ukeys m) \<and> card (ukeys m) \<le> card (dom m)"
proof -
  assume fin: "finite (dom m)"
  have "ukeys m \<subseteq> (\<lambda>x. SOME k. rawkey k x) ` dom m"
  proof
    fix k assume "k \<in> ukeys m"
    then obtain x where x: "x \<in> dom m" "rawkey k x" by (auto simp: ukeys_def)
    have "(SOME k. rawkey k x) = k"
      using rawkey_mono [of _ x k x] rawkey_mono [OF x(2), of _ x] x(2)
      by (intro some_equality) (auto intro: antisym)
    with x(1) show "k \<in> (\<lambda>x. SOME k. rawkey k x) ` dom m" by (metis imageI)
  qed
  with fin show ?thesis
    by (meson card_image_le card_mono finite_imageI finite_subset le_trans)
qed

lemma wf_store_rawkey:
  assumes "wf_store m" "x \<in> dom m" "[1] \<le> x"
  shows "\<exists>k. rawkey k x"
  using assms unfolding wf_store_def rawkey_def by blast

lemma rows_unfold:
  "rows g mx (k # ks) kvs =
     (case g k of
        Inl err \<Rightarrow> Inl err
      | Inr val \<Rightarrow>
          (let hit = (case val of None \<Rightarrow> False | Some v \<Rightarrow> length (Bytes v) \<noteq> 0);
               kvs' = (if hit then kvs @ [\<lparr>KVKey = k, KVValue = the val\<rparr>] else kvs)
           in if hit \<and> of_nat (length kvs') = mx \<and> 0 < sint mx then Inr kvs' else rows g mx ks kvs'))"
  by (auto simp: Let_def split: sum.splits option.splits)

lemma sorted_list_of_set_least:
  assumes "finite (A :: bytes set)" "k \<in> A" "\<And>l. l \<in> A \<Longrightarrow> k \<le> l"
  shows "sorted_list_of_set A = k # sorted_list_of_set (A - {k})"
proof -
  have "Min A = k" using assms by (intro Min_eqI) auto
  then show ?thesis using sorted_list_of_set_nonempty [of A] assms(1,2) by auto
qed

lemma sorted_list_of_set_greatest:
  assumes "finite (A :: bytes set)" "k \<in> A" "\<And>l. l \<in> A \<Longrightarrow> l \<le> k"
  shows "sorted_list_of_set A = sorted_list_of_set (A - {k}) @ [k]"
  using assms by (intro sorted_distinct_set_unique) (auto simp: sorted_append)

context engine_nil
begin

lemma seek_forward:
  assumes "live e" "wf_store (view e)" "[1] \<le> a"
  defines "U \<equiv> {k \<in> ukeys (view e). a \<le> k}"
  shows "(U = {} \<longrightarrow> Seek E False (NewMVCCKey a) e = []) \<and>
    (U \<noteq> {} \<longrightarrow> (\<exists>x v r. Seek E False (NewMVCCKey a) e = (x, v) # r \<and> rawkey (Min U) x))"
proof -
  let ?A = "{x \<in> dom (view e). NewMVCCKey a \<le> x}"
  have fin: "finite ?A" using finite_dom [OF assms(1)] by simp
  have finU: "finite U" using finite_ukeys [OF finite_dom [OF assms(1)]] by (simp add: U_def)
  have keys: "map fst (Seek E False (NewMVCCKey a) e) = sorted_list_of_set ?A"
    by (rule Seek_keys [OF assms(1)])
  have raw: "\<exists>k \<in> U. rawkey k x" if x: "x \<in> ?A" for x
  proof -
    have "[1] \<le> x" using x one_le_encoded [OF assms(3), of "[]"] by auto
    then obtain k where k: "rawkey k x" using wf_store_rawkey [OF assms(2)] x by blast
    moreover have "a \<le> k" using rawkey_less [OF k, of a] x by auto
    ultimately show ?thesis using x by (auto simp: U_def ukeys_def)
  qed
  have inA: "x \<in> ?A" if "x \<in> dom (view e)" "rawkey k x" "a \<le> k" for x k
    using rawkey_less [OF that(2), of a] that by auto
  show ?thesis
  proof (cases "Seek E False (NewMVCCKey a) e")
    case Nil
    then have "?A = {}" using keys set_sorted_list_of_set [OF fin] by auto
    then have "U = {}" using inA by (auto simp: U_def ukeys_def)
    with Nil show ?thesis by simp
  next
    case (Cons xv r)
    obtain x v where xv: "xv = (x, v)" by (cases xv)
    with Cons keys have "sorted_list_of_set ?A = x # map fst r" by simp
    from hd_sorted_list_of_set [OF fin this] have x: "x \<in> ?A" "\<forall>y \<in> ?A. x \<le> y" by auto
    then obtain k where k: "k \<in> U" "rawkey k x" using raw by blast
    have "k \<le> l" if l: "l \<in> U" for l
    proof -
      obtain y where "y \<in> dom (view e)" "rawkey l y" using l unfolding U_def ukeys_def by blast
      then show ?thesis using inA [of y l] x(2) rawkey_mono [OF k(2)] l by (auto simp: U_def)
    qed
    then have "Min U = k" using k(1) finU by (intro Min_eqI) auto
    with Cons xv k show ?thesis by auto
  qed
qed

lemma scanLoop_forward:
  assumes "live e" "wf_store (view e)" "[1] \<le> a"
    and "{k \<in> ukeys (view e). a \<le> k} \<noteq> {}" "rawkey (Min {k \<in> ukeys (view e). a \<le> k}) x"
    and "card {k \<in> ukeys (view e). a \<le> k} \<le> n"
  shows "scanLoop n E (NewMVCCKey b) txn ts mx False e x kvs =
    Some (rows (\<lambda>k. replica_getInternal E k ts (Some txn) e) mx (range_keys (view e) a b) kvs)"
  using assms(3-6)
proof (induction n arbitrary: a x kvs)
  case 0
  then show ?case using finite_ukeys [OF finite_dom [OF assms(1)]] by auto
next
  case (Suc n)
  let ?m = "view e" and ?g = "\<lambda>k. replica_getInternal E k ts (Some txn) e"
  let ?U = "{k \<in> ukeys ?m. a \<le> k}"
  define k where "k = Min ?U"
  have fin: "finite ?U" using finite_ukeys [OF finite_dom [OF assms(1)]] by simp
  have k: "k \<in> ?U" "\<And>l. l \<in> ?U \<Longrightarrow> k \<le> l" "rawkey k x"
    using Min_in [OF fin Suc.prems(2)] Min_le [OF fin] Suc.prems(3) by (auto simp: k_def)
  let ?U' = "{l \<in> ukeys ?m. Key_Next k \<le> l}"
  have next_le: "Key_Next k \<le> l \<longleftrightarrow> k < l" for l
    by (simp add: Key_Next_def BytesNext_def less_append_zero)
  have U': "?U' = ?U - {k}" using k(1,2) by (auto simp: next_le less_le)
  have one: "[1] \<le> Key_Next k"
    using Suc.prems(1) k(1) bytes_less_append [of "[0]" k] by (auto simp: Key_Next_def BytesNext_def)
  show ?case
  proof (cases "k < b")
    case False
    have "\<not> l < b" if "l \<in> ukeys ?m" "a \<le> l" for l using k(2) [of l] that False by auto
    then have "range_keys ?m a b = []" by (intro range_keys_Nil) blast
    with False show ?thesis using GetMetaKey_raw [OF k(3), of b False] by simp
  next
    case True
    have keys: "range_keys ?m a b = k # range_keys ?m (Key_Next k) b"
      unfolding range_keys_def using finite_ukeys [OF finite_dom [OF assms(1)]] k(1,2) True
      by (subst sorted_list_of_set_least [of _ k])
        (auto simp: next_le less_le intro!: arg_cong [where f = sorted_list_of_set])
    have rest: "(case Seek E False (NewMVCCKey (Key_Next k)) e of
          [] \<Rightarrow> Some (Inr kvs')
        | (y, _) # _ \<Rightarrow> scanLoop n E (NewMVCCKey b) txn ts mx False e y kvs')
      = Some (rows ?g mx (range_keys ?m (Key_Next k) b) kvs')" for kvs'
    proof (cases "?U' = {}")
      case True
      then have "range_keys ?m (Key_Next k) b = []" by (intro range_keys_Nil) blast
      moreover have "Seek E False (NewMVCCKey (Key_Next k)) e = []"
        using seek_forward [OF assms(1,2) one] True by simp
      ultimately show ?thesis by simp
    next
      case False
      obtain y v r where y: "Seek E False (NewMVCCKey (Key_Next k)) e = (y, v) # r" "rawkey (Min ?U') y"
        using seek_forward [OF assms(1,2) one] False by blast
      have "card ?U' < card ?U" unfolding U' using fin k(1) by (rule card_Diff1_less)
      then have "card ?U' \<le> n" using Suc.prems(4) by simp
      from Suc.IH [OF one False y(2) this] y(1) show ?thesis by simp
    qed
    show ?thesis
      unfolding keys rows_unfold
      using GetMetaKey_raw [OF k(3), of b False] True rest by (auto simp: Let_def split: sum.splits)
  qed
qed

end

text \<open>A store in which every key with versions has metadata.\<close>

definition has_meta :: "(bytes \<rightharpoonup> bytes) \<Rightarrow> bool" where
  "has_meta m \<longleftrightarrow> (\<forall>k \<in> ukeys m. [1] \<le> k \<longrightarrow> NewMVCCKey k \<in> dom m)"

lemma rev_sorted_below:
  assumes "finite D" "(k :: bytes) \<in> D"
  shows "rev (sorted_list_of_set {x \<in> D. x \<le> k}) = k # rev (sorted_list_of_set {x \<in> D. x < k})"
proof -
  have "sorted_list_of_set {x \<in> D. x \<le> k} = sorted_list_of_set ({x \<in> D. x \<le> k} - {k}) @ [k]"
    using assms by (intro sorted_list_of_set_greatest) auto
  moreover have "{x \<in> D. x \<le> k} - {k} = {x \<in> D. x < k}" by auto
  ultimately show ?thesis by (simp only: rev_append rev.simps append.simps)
qed

context engine_reverse
begin

text \<open>What the reverse iterator finds strictly below the keys of \<open>c\<close>.\<close>

lemma seek_reverse:
  assumes "live e" "wf_store (view e)" "[1] \<le> a" "xs = rev (sorted_list_of_set {x \<in> dom (view e). x < NewMVCCKey c})"
  defines "U \<equiv> {k \<in> ukeys (view e). a \<le> k \<and> k < c}"
  shows "(U = {} \<longrightarrow> xs = [] \<or> hd xs < NewMVCCKey a) \<and>
    (U \<noteq> {} \<longrightarrow> xs \<noteq> [] \<and> rawkey (Max U) (hd xs))"
proof -
  let ?A = "{x \<in> dom (view e). x < NewMVCCKey c}"
  have fin: "finite ?A" using finite_dom [OF assms(1)] by simp
  have finU: "finite U" using finite_ukeys [OF finite_dom [OF assms(1)]] by (simp add: U_def)
  have raw: "\<exists>k \<in> U. rawkey k x" if x: "x \<in> ?A" "\<not> x < NewMVCCKey a" for x
  proof -
    have "[1] \<le> x" using x(2) one_le_encoded [OF assms(3), of "[]"] by auto
    then obtain k where k: "rawkey k x" using wf_store_rawkey [OF assms(2)] x by blast
    then show ?thesis using x rawkey_less [OF k] by (auto simp: U_def ukeys_def not_less)
  qed
  have inA: "\<exists>x \<in> ?A. rawkey k x \<and> \<not> x < NewMVCCKey a" if k: "k \<in> U" for k
  proof -
    obtain x where "x \<in> dom (view e)" "rawkey k x" using k unfolding U_def ukeys_def by blast
    then show ?thesis using rawkey_less [of k x] k by (auto simp: U_def)
  qed
  show ?thesis
  proof (cases "?A = {}")
    case True
    then have "xs = []" unfolding assms(4) by (simp only: sorted_list_of_set_empty rev.simps)
    moreover have "U = {}" using inA True by blast
    ultimately show ?thesis by simp
  next
    case False
    define x where "x = Max ?A"
    have x: "x \<in> ?A" "\<And>y. y \<in> ?A \<Longrightarrow> y \<le> x"
      using Max_in [OF fin False] Max_ge [OF fin] unfolding x_def by blast+
    have xs: "xs = x # rev (sorted_list_of_set (?A - {x}))"
      unfolding assms(4) by (subst sorted_list_of_set_greatest [OF fin x]) simp_all
    show ?thesis
    proof (cases "x < NewMVCCKey a")
      case True
      have "y < NewMVCCKey a" if "y \<in> ?A" for y using x(2) [OF that] True by auto
      then have "U = {}" using inA by blast
      with xs True show ?thesis by simp
    next
      case False
      then obtain k where k: "k \<in> U" "rawkey k x" using raw x(1) by blast
      have "l \<le> k" if "l \<in> U" for l using inA [OF that] x(2) rawkey_mono [OF _ k(2)] by blast
      then have "Max U = k" using k(1) finU by (intro Max_eqI) auto
      with xs k show ?thesis by auto
    qed
  qed
qed

lemma seek_meta_reverse:
  assumes "live e" "NewMVCCKey k \<in> dom (view e)"
  shows "map fst (tl (Seek E True (NewMVCCKey k) e))
    = rev (sorted_list_of_set {x \<in> dom (view e). x < NewMVCCKey k})"
  using Seek_reverse [OF assms(1), of "NewMVCCKey k"] rev_sorted_below [OF finite_dom [OF assms(1)] assms(2)]
  by (simp only: map_tl list.sel)

lemma seek_end_reverse:
  assumes "live e" "Seek E True (NewMVCCKey b) e = it"
  shows "map fst (case it of [] \<Rightarrow> [] | (k, _) # rest \<Rightarrow> if \<not> k < NewMVCCKey b then rest else it)
    = rev (sorted_list_of_set {x \<in> dom (view e). x < NewMVCCKey b})"
proof (cases "NewMVCCKey b \<in> dom (view e)")
  case True
  have "map fst it = NewMVCCKey b # rev (sorted_list_of_set {x \<in> dom (view e). x < NewMVCCKey b})"
    using Seek_reverse [OF assms(1), of "NewMVCCKey b"] rev_sorted_below [OF finite_dom [OF assms(1)] True]
      assms(2) by (simp only:)
  then show ?thesis by (cases it) auto
next
  case False
  then have "{x \<in> dom (view e). x \<le> NewMVCCKey b} = {x \<in> dom (view e). x < NewMVCCKey b}"
    by (metis (no_types, lifting) order_le_less)
  with Seek_reverse [OF assms(1), of "NewMVCCKey b"] assms(2)
  have keys: "map fst it = rev (sorted_list_of_set {x \<in> dom (view e). x < NewMVCCKey b})"
    by (simp only:)
  then have "fst ` set it = {x \<in> dom (view e). x < NewMVCCKey b}"
    using finite_dom [OF assms(1)] by (simp flip: set_map)
  then have "\<forall>x \<in> fst ` set it. x < NewMVCCKey b" by blast
  then show ?thesis unfolding keys [symmetric] by (auto split: list.splits)
qed

lemma scanLoop_reverse:
  assumes "live e" "wf_store (view e)" "[1] \<le> a" "has_meta (view e)"
    and "\<exists>r. x # r = rev (sorted_list_of_set {x \<in> dom (view e). x < NewMVCCKey c})"
    and "card {k \<in> ukeys (view e). a \<le> k \<and> k < c} < n"
  shows "scanLoop n E (NewMVCCKey a) txn ts mx True e x kvs =
    Some (rows (\<lambda>k. replica_getInternal E k ts (Some txn) e) mx (rev (range_keys (view e) a c)) kvs)"
  using assms(5,6)
proof (induction n arbitrary: c x kvs)
  case (Suc n)
  let ?m = "view e" and ?g = "\<lambda>k. replica_getInternal E k ts (Some txn) e"
  let ?U = "{k \<in> ukeys ?m. a \<le> k \<and> k < c}"
  have fin: "finite ?U" using finite_ukeys [OF finite_dom [OF assms(1)]] by simp
  obtain r where r: "x # r = rev (sorted_list_of_set {x \<in> dom ?m. x < NewMVCCKey c})"
    using Suc.prems(1) by blast
  note found = seek_reverse [OF assms(1-3) r]
  show ?case
  proof (cases "?U = {}")
    case True
    with found have "x < NewMVCCKey a" by (metis list.distinct(1) list.sel(1))
    moreover have "range_keys ?m a c = []" using True by (intro range_keys_Nil) blast
    ultimately show ?thesis by (simp add: GetMetaKey_def)
  next
    case False
    define k where "k = Max ?U"
    have k: "k \<in> ?U" "\<And>l. l \<in> ?U \<Longrightarrow> l \<le> k" "rawkey k x"
      using Max_in [OF fin False] Max_ge [OF fin] found False unfolding k_def by (blast, blast, metis list.sel(1))
    let ?U' = "{l \<in> ukeys ?m. a \<le> l \<and> l < k}"
    have U': "?U' = ?U - {k}" using k(1,2) by (auto simp: less_le)
    have keys: "rev (range_keys ?m a c) = k # rev (range_keys ?m a k)"
      unfolding range_keys_def U' using sorted_list_of_set_greatest [OF fin k(1,2)] by simp
    have meta: "NewMVCCKey k \<in> dom ?m" using assms(3,4) k(1) by (auto simp: has_meta_def)
    have rest: "(case tl (Seek E True (NewMVCCKey k) e) of
          [] \<Rightarrow> Some (Inr kvs')
        | (y, _) # _ \<Rightarrow> scanLoop n E (NewMVCCKey a) txn ts mx True e y kvs')
      = Some (rows ?g mx (rev (range_keys ?m a k)) kvs')" for kvs'
    proof (cases "tl (Seek E True (NewMVCCKey k) e)")
      case Nil
      then have "?U' = {}"
        using seek_reverse [OF assms(1-3) seek_meta_reverse [OF assms(1) meta]] by (metis list.simps(8))
      then have "range_keys ?m a k = []" by (intro range_keys_Nil) blast
      with Nil show ?thesis by simp
    next
      case (Cons yv r')
      obtain y v where yv: "yv = (y, v)" by (cases yv)
      have "\<exists>r. y # r = rev (sorted_list_of_set {x \<in> dom ?m. x < NewMVCCKey k})"
        using seek_meta_reverse [OF assms(1) meta] Cons yv by (metis fst_conv list.simps(9))
      moreover have "card ?U' < n"
        using card_Diff1_less [OF fin k(1)] Suc.prems(2) unfolding U' by simp
      ultimately show ?thesis using Suc.IH [of y k kvs'] Cons yv by simp
    qed
    show ?thesis
      unfolding keys rows_unfold
      using GetMetaKey_raw [OF k(3), of a True] k(1) rest by (auto simp: Let_def split: sum.splits)
  qed
qed simp

end

text \<open>A scan needs one round per user key, so one more than the number of stored keys is enough fuel.\<close>

definition scan_fuel :: "(bytes \<rightharpoonup> bytes) \<Rightarrow> nat \<Rightarrow> bool" where
  "scan_fuel m fuel \<longleftrightarrow> card (dom m) < fuel"

lemma scan_fuel_card:
  assumes "scan_fuel m fuel" "finite (dom m)"
  shows "card {k \<in> ukeys m. P k} < fuel"
proof -
  have "card {k \<in> ukeys m. P k} \<le> card (ukeys m)"
    using finite_ukeys [OF assms(2)] by (intro card_mono) auto
  with finite_ukeys [OF assms(2)] assms(1) show ?thesis by (simp add: scan_fuel_def)
qed

context engine_nil
begin

lemma scanInternal_forward:
  assumes "live e" "wf_store (view e)" "[1] \<le> a" "scan_fuel (view e) fuel"
  shows "scanInternal fuel E a b (Some txn) ts mx False e =
    Some (rows (\<lambda>k. replica_getInternal E k ts (Some txn) e) mx (range_keys (view e) a b) [])"
proof (cases "{k \<in> ukeys (view e). a \<le> k} = {}")
  case True
  then have "range_keys (view e) a b = []" by (intro range_keys_Nil) blast
  moreover have "Seek E False (NewMVCCKey a) e = []" using seek_forward [OF assms(1-3)] True by blast
  ultimately show ?thesis using assms(3) by (auto simp: scanInternal_def)
next
  case False
  obtain x v r where x: "Seek E False (NewMVCCKey a) e = (x, v) # r"
      "rawkey (Min {k \<in> ukeys (view e). a \<le> k}) x"
    using seek_forward [OF assms(1-3)] False by blast
  have "card {k \<in> ukeys (view e). a \<le> k} \<le> fuel"
    using scan_fuel_card [OF assms(4) finite_dom [OF assms(1)], of "\<lambda>k. a \<le> k"] by simp
  from scanLoop_forward [OF assms(1-3) False x(2) this] x(1) assms(3) show ?thesis
    by (auto simp: scanInternal_def)
qed

end

context engine_reverse
begin

lemma scanInternal_reverse:
  assumes "live e" "wf_store (view e)" "[1] \<le> a" "has_meta (view e)" "scan_fuel (view e) fuel"
  shows "scanInternal fuel E a b (Some txn) ts mx True e =
    Some (rows (\<lambda>k. replica_getInternal E k ts (Some txn) e) mx (rev (range_keys (view e) a b)) [])"
proof -
  define it where "it = (case Seek E True (NewMVCCKey b) e of
      [] \<Rightarrow> [] | (k, _) # rest \<Rightarrow> if \<not> k < NewMVCCKey b then rest else Seek E True (NewMVCCKey b) e)"
  have keys: "map fst it = rev (sorted_list_of_set {x \<in> dom (view e). x < NewMVCCKey b})"
    unfolding it_def by (rule seek_end_reverse [OF assms(1) refl])
  have run: "scanInternal fuel E a b (Some txn) ts mx True e =
      (case it of [] \<Rightarrow> Some (Inr [])
       | (k, _) # _ \<Rightarrow> scanLoop fuel E (NewMVCCKey a) txn ts mx True e k [])"
    using assms(3) by (auto simp: scanInternal_def it_def Let_def)
  show ?thesis
  proof (cases it)
    case Nil
    then have "{k \<in> ukeys (view e). a \<le> k \<and> k < b} = {}"
      using seek_reverse [OF assms(1-3) keys] by (metis list.simps(8))
    then have "range_keys (view e) a b = []" by (intro range_keys_Nil) blast
    with Nil run show ?thesis by simp
  next
    case (Cons xv r)
    obtain x v where xv: "xv = (x, v)" by (cases xv)
    have "x # map fst r = rev (sorted_list_of_set {x \<in> dom (view e). x < NewMVCCKey b})"
      using keys unfolding Cons xv by (simp only: list.map fst_conv)
    then have "\<exists>r. x # r = rev (sorted_list_of_set {x \<in> dom (view e). x < NewMVCCKey b})"
      by (rule exI)
    from scanLoop_reverse [OF assms(1-4) this
        scan_fuel_card [OF assms(5) finite_dom [OF assms(1)], of "\<lambda>k. a \<le> k \<and> k < b"], of txn ts mx "[]"]
    show ?thesis unfolding run Cons xv by (simp only: list.case prod.case)
  qed
qed

end

section \<open>What a read sees\<close>

text \<open>
  The specification of \<^verbatim>\<open>getInternal\<close> on the metadata and the versions of a key. An intent of another
  transaction at or below the timestamp is a conflict; one's own intent is read at its timestamp;
  otherwise the newest version at the timestamp counts, unless the committed metadata marks the key
  as deleted by then.
\<close>

definition reads_as :: "(bytes \<rightharpoonup> bytes) \<Rightarrow> bytes \<Rightarrow> Timestamp \<Rightarrow> Transaction \<Rightarrow> error + Value option \<Rightarrow> bool" where
  "reads_as m k ts txn r \<longleftrightarrow>
     (case meta_of m k of
        None \<Rightarrow> r = Inr None
      | Some md \<Rightarrow>
          (case TransactionID md of
             None \<Rightarrow>
               if \<not> Timestamp_Less ts (MetaTimestamp md) \<and> MetaDeleted md then r = Inr None
               else \<exists>v. r = Inr v \<and> reads_at (versions m k) ts v
           | Some tid \<Rightarrow>
               if tid = key_bytes (ID txn) then
                 (if MetaDeleted md then r = Inr None
                  else \<exists>v. r = Inr v \<and> reads_at (versions m k) (MetaTimestamp md) v)
               else if Timestamp_Less ts (MetaTimestamp md)
               then \<exists>v. r = Inr v \<and> reads_at (versions m k) ts v
               else r = Inl (NewWriteIntentError (Some txn) PUSH_TIMESTAMP (Some tid) k)))"

lemma reads_as_unique: "reads_as m k ts txn r \<Longrightarrow> reads_as m k ts txn r' \<Longrightarrow> r = r'"
  unfolding reads_as_def
  by (auto split: option.splits if_splits dest: reads_at_unique)

context engine_nil
begin

lemma getEngineData_reads:
  assumes "live e" "k \<noteq> []" "valid_ts ts" "wf_key (view e) k"
  shows "\<exists>v. getEngineData E k ts e = Inr v \<and> reads_at (versions (view e) k) ts v"
  using MVCCGet_reads [OF assms] by (auto simp: getEngineData_def)

lemma getInternal_reads:
  assumes "live e" "data_key k" "wf_store (view e)" "wf_meta (view e) k" "valid_ts ts"
    and "\<forall>md. meta_of (view e) k = Some md \<longrightarrow> valid_ts (MetaTimestamp md)"
  shows "reads_as (view e) k ts txn (replica_getInternal E k ts (Some txn) e)"
proof -
  have k: "good_key k" "k \<noteq> []" "wf_key (view e) k"
    using assms(2,3) wf_store_key by (auto simp: data_key_def good_key_def)
  note data = getEngineData_reads [OF assms(1) k(2) _ k(3)]
  show ?thesis
  proof (cases "view e (NewMVCCKey k)")
    case None
    then have "meta_of (view e) k = None" by (simp add: meta_of_def)
    with None show ?thesis
      using MVCCGetMeta_law [OF assms(1) k(1) assms(4)]
      by (simp add: replica_getInternal_def reads_as_def getMetaData_def)
  next
    case (Some b)
    then obtain md where md: "meta_of (view e) k = Some md"
      using assms(4) by (auto simp: meta_of_def wf_meta_def)
    then have "valid_ts (MetaTimestamp md)" using assms(6) by blast
    with md Some show ?thesis
      using MVCCGetMeta_law [OF assms(1) k(1) assms(4)] data [of ts] data [of "MetaTimestamp md"] assms(5)
      by (auto simp: replica_getInternal_def reads_as_def getMetaData_def split: option.splits)
  qed
qed

end

section \<open>What a write does\<close>

text \<open>The conflicts of a write at \<open>ts\<close> with the metadata of its key.\<close>

definition put_conflict :: "bytes \<Rightarrow> Timestamp \<Rightarrow> Transaction \<Rightarrow> MVCCMetadata option \<Rightarrow> error option" where
  "put_conflict k ts txn found =
     (case found of
        None \<Rightarrow> None
      | Some md \<Rightarrow>
          (case TransactionID md of
             None \<Rightarrow> if Timestamp_Less ts (MetaTimestamp md)
                     then Some (WriteTooOldError ts (MetaTimestamp md)) else None
           | Some tid \<Rightarrow> if tid \<noteq> key_bytes (ID txn)
                     then Some (NewWriteIntentError (Some txn) PUSH_ABORT (Some tid) k) else None))"

definition nothing_to_delete :: "Value \<Rightarrow> MVCCMetadata option \<Rightarrow> bool" where
  "nothing_to_delete val found \<longleftrightarrow> isNoneValue val \<and> (\<forall>md. found = Some md \<longrightarrow> MetaDeleted md)"

definition after_put :: "(bytes \<rightharpoonup> bytes) \<Rightarrow> bytes \<Rightarrow> Transaction \<Rightarrow> Value \<Rightarrow> bytes \<rightharpoonup> bytes" where
  "after_put m k txn val = m(NewMVCCKey k \<mapsto> MVCCMetadata_MarshalTo (new_meta txn (isNoneValue val)),
     NewMVCCTimeKey k (TxnTimestamp txn) \<mapsto> stored_value val)"

context engine_store
begin

lemma putDataAndMeta_law:
  assumes "live (eng s)" "good_key k" "good_id (ID txn)" "good_value val"
  shows "\<exists>s'. putDataAndMeta E k txn val (isNoneValue val) ok ov s = (Inr (), s') \<and> live (eng s') \<and>
    view (eng s') = after_put (view (eng s)) k txn val"
proof -
  obtain s1 n where s1: "MVCCPutMeta E k txn (isNoneValue val) True ok ov s = (Inr n, s1)" "live (eng s1)"
      "view (eng s1) = (view (eng s))(NewMVCCKey k \<mapsto>
         MVCCMetadata_MarshalTo (new_meta txn (isNoneValue val)))"
    using MVCCPutMeta_law [OF assms(1-3), of "isNoneValue val" True ok ov] by auto
  moreover obtain s2 where "MVCCPut E k (Some txn) val True s1 = (Inr (), s2)" "live (eng s2)"
      "view (eng s2) = (view (eng s1))(NewMVCCTimeKey k (TxnTimestamp txn) \<mapsto> stored_value val)"
    using MVCCPut_law [OF s1(2) assms(2,4), of txn True] by auto
  ultimately show ?thesis
    by (simp add: putDataAndMeta_def putMetaData_def putEngineData_def after_put_def bindM_def)
qed

lemma putConflict_law:
  assumes "live (eng s)" "good_key k"
  shows "putConflict E k txn ts found s =
    (case put_conflict k ts txn found of Some err \<Rightarrow> (Inl err, s) | None \<Rightarrow> (Inr (), s))"
  using MVCCClear_keeps [OF assms]
  by (auto simp: putConflict_def put_conflict_def clearEngineData_def split: option.splits)

lemma replica_put_law:
  assumes "live (eng s)" "good_key k" "good_id (ID txn)" "good_value val"
    and "wf_meta (view (eng s)) k" "HKey h = k" "HTxn h = Some txn"
  shows "case put_conflict k (HTimestamp h) txn (meta_of (view (eng s)) k) of
      Some err \<Rightarrow> replica_put E h val s = (Inl err, s)
    | None \<Rightarrow>
        if nothing_to_delete val (meta_of (view (eng s)) k) then replica_put E h val s = (Inr (), s)
        else \<exists>s'. replica_put E h val s = (Inr (), s') \<and> live (eng s') \<and>
          view (eng s') = after_put (view (eng s)) k txn val"
proof -
  define found where "found = (case view (eng s) (NewMVCCKey k) of None \<Rightarrow> None
      | Some b \<Rightarrow> Some (the (meta_of (view (eng s)) k), length (NewMVCCKey k), length b))"
  have meta: "map_option fst found = meta_of (view (eng s)) k"
    using assms(5) by (auto simp: found_def meta_of_def wf_meta_def split: option.splits)
  obtain ok ov where sizes: "(case found of None \<Rightarrow> (0, 0) | Some (_, sizes) \<Rightarrow> sizes) = (ok, ov)"
    by fastforce
  have get: "getMetaData E k (eng s) = Inr found"
    using MVCCGetMeta_law [OF assms(1,2,5)] by (simp add: getMetaData_def found_def)
  have "replica_put E h val s =
      bindM (putConflict E k txn (HTimestamp h) (meta_of (view (eng s)) k)) (\<lambda>_.
        if isNoneValue val \<and> (case meta_of (view (eng s)) k of None \<Rightarrow> True | Some md \<Rightarrow> MetaDeleted md)
        then ret () else putDataAndMeta E k txn val (isNoneValue val) ok ov) s"
    using get sizes unfolding replica_put_def Let_def meta [symmetric] assms(6,7)
    by (simp add: derefTxn_def bindM_def readEng_def)
  then show ?thesis
    using putConflict_law [OF assms(1,2)] putDataAndMeta_law [OF assms(1-4), of ok ov]
    by (auto simp: bindM_def nothing_to_delete_def split: option.splits)
qed

end

lemma isNoneValue_Bytes: "Bytes val \<noteq> [] \<Longrightarrow> \<not> isNoneValue val"
  by (simp add: isNoneValue_def)

lemma meta_of_after_put:
  "good_id (ID txn) \<Longrightarrow> meta_of (after_put m k txn val) k = Some (new_meta txn (isNoneValue val))"
  by (simp add: after_put_def meta_of_put_meta)

lemma versions_after_put:
  "good_value val \<Longrightarrow> versions (after_put m k txn val) k = (versions m k)(TxnTimestamp txn \<mapsto> val)"
  by (simp add: after_put_def versions_put)

lemma wf_after_put:
  assumes "good_id (ID txn)" "good_value val" "valid_ts (TxnTimestamp txn)"
  shows "wf_store m \<Longrightarrow> wf_store (after_put m k txn val)"
    "wf_meta m k' \<Longrightarrow> wf_meta (after_put m k txn val) k'"
  using assms unfolding after_put_def
  by (auto intro: wf_store_put wf_store_put_meta wf_meta_put wf_meta_put_meta)

lemma new_meta_fields [simp]:
  "TransactionID (new_meta txn d) = ID txn" "MetaTimestamp (new_meta txn d) = TxnTimestamp txn"
  by (simp_all add: new_meta_def)

text \<open>A version above the timestamp of a read does not change the read.\<close>

lemma reads_at_above: "Timestamp_Less ts t \<Longrightarrow> reads_at (V(t \<mapsto> v)) ts r \<longleftrightarrow> reads_at V ts r"
proof -
  assume *: "Timestamp_Less ts t"
  have "latest (V(t \<mapsto> v)) ts t' \<longleftrightarrow> latest V ts t'" for t'
    using * by (auto simp: latest_def)
  moreover have "t' \<noteq> t" if "latest V ts t'" for t' using * that by (auto simp: latest_def)
  ultimately show ?thesis
    using * by (cases r) (auto simp: reads_at_def)
qed

lemma reads_at_exact: "reads_at (V(t \<mapsto> v)) t r \<longleftrightarrow> r = Some v"
proof -
  have "latest (V(t \<mapsto> v)) t t" by (auto simp: latest_def)
  then have "reads_at (V(t \<mapsto> v)) t (Some v)" by (auto simp: reads_at_def)
  then show ?thesis using reads_at_unique by metis
qed

lemma reads_as_after_put:
  assumes "good_id (ID txn)" "good_value val" "\<not> isNoneValue val" "ID txn = Some tid"
    and "reads_as (after_put m k txn val) k ts reader r"
  shows "if key_bytes (ID reader) = tid then r = Inr (Some val)
    else if Timestamp_Less ts (TxnTimestamp txn) then \<exists>v. r = Inr v \<and> reads_at (versions m k) ts v
    else r = Inl (NewWriteIntentError (Some reader) PUSH_TIMESTAMP (Some tid) k)"
  using assms
  by (auto simp: reads_as_def meta_of_after_put versions_after_put reads_at_exact reads_at_above
      split: if_splits)

subsection \<open>Pushing\<close>

lemma txn_outcome_push_abort:
  assumes "txn_of m (key_bytes (ID p)) = Some p" "Status p = PENDING"
  shows "txn_outcome m (p\<lparr>Status := ABORTED\<rparr>) TxnChangeTypePushAbort = Inr (Some (p\<lparr>Status := ABORTED\<rparr>))"
  using assms by (simp add: txn_outcome_def local_txn_def txnUpdate_def Let_def)

lemma txn_outcome_push_timestamp:
  assumes "txn_of m (key_bytes (ID p)) = Some p" "Status p = PENDING" "Timestamp_Less (TxnTimestamp p) t"
  shows "txn_outcome m (p\<lparr>TxnTimestamp := t\<rparr>) TxnChangeTypePushTimestamp = Inr (Some (p\<lparr>TxnTimestamp := t\<rparr>))"
  using assms Timestamp_Less_trans [OF assms(3), of "TxnTimestamp p"]
  by (auto simp: txn_outcome_def local_txn_def txnUpdate_def Let_def)

text \<open>
  What a push promises: the record it returns is the stored one, and it no longer stands in the
  pusher's way: it is final, or its timestamp is above the pusher's. A refusal changes nothing and
  happens only to a live record of higher priority.
\<close>

definition push_spec ::
    "Transaction \<Rightarrow> Timestamp \<Rightarrow> int32 \<Rightarrow> Transaction \<Rightarrow> error + Transaction \<Rightarrow> bool" where
  "push_spec p now pt pusher r \<longleftrightarrow>
     (case r of
        Inr t \<Rightarrow>
          (Status t \<noteq> PENDING \<or>
           pt = PUSH_TIMESTAMP \<and> Timestamp_Less (TxnTimestamp pusher) (TxnTimestamp t)) \<and>
          (t = p \<or> Status p = PENDING)
      | Inl err \<Rightarrow>
          Status p = PENDING \<and> err = TransactionAbortedError pusher \<and>
          \<not> sint (WallTime now - LastHeartbeat p) > txnExpiredTime \<and>
          (sint (Priority pusher) < sint (Priority p) \<or> pt \<noteq> PUSH_TIMESTAMP \<and> pt \<noteq> PUSH_ABORT))"

context engine_store
begin

lemma putTxnData_stores:
  assumes "live (eng s)" "good_txn p" "wf_txn (view (eng s)) (key_bytes (ID p))"
    and "\<forall>r. txn_of (view (eng s)) (key_bytes (ID p)) = Some r \<longrightarrow> good_txn r"
    and "txn_outcome (view (eng s)) p ct = Inr (Some p)"
  shows "\<exists>s'. putTxnData E p ct st s = (Inr (), s') \<and> live (eng s') \<and>
    view (eng s') = (view (eng s))(NewMVCCKey (key_bytes (ID p)) \<mapsto> Transaction_MarshalTo p)"
  using MVCCPutTxn_law [OF assms(1-4), of ct st] assms(5) by (simp add: putTxnData_def)

lemma processPushTransaction_law:
  assumes "live (eng s)" "txn_of (view (eng s)) i = Some p" "good_txn p" "key_bytes (ID p) = i"
    and "wf_txn (view (eng s)) i" "Timestamp_Next (TxnTimestamp pusher) \<noteq> None"
  shows "\<exists>r s'. processPushTransaction E i now pt (Some pusher) s = (r, s') \<and> live (eng s') \<and>
    push_spec p now pt pusher r \<and>
    (case r of Inl _ \<Rightarrow> s' = s
     | Inr t \<Rightarrow> s' = s \<and> t = p \<or>
         good_txn t \<and> view (eng s') = (view (eng s))(NewMVCCKey i \<mapsto> Transaction_MarshalTo t))"
proof -
  have i: "good_key i" using assms(3,4) by (simp add: good_txn_def)
  have get: "getTxnData E i (eng s) = Inr (Some p)"
    using MVCCGetTxn_law [OF assms(1) i assms(5)] assms(2) by (simp add: getTxnData_def)
  have abort: "\<exists>s'. putTxnData E (p\<lparr>Status := ABORTED\<rparr>) TxnChangeTypePushAbort False s = (Inr (), s') \<and>
      live (eng s') \<and> good_txn (p\<lparr>Status := ABORTED\<rparr>) \<and>
      view (eng s') = (view (eng s))(NewMVCCKey i \<mapsto> Transaction_MarshalTo (p\<lparr>Status := ABORTED\<rparr>))"
    if "Status p = PENDING"
    using putTxnData_stores [OF assms(1), of "p\<lparr>Status := ABORTED\<rparr>" TxnChangeTypePushAbort False]
      txn_outcome_push_abort [OF _ that, of "view (eng s)"] assms(2-5) by (auto simp: good_txn_def)
  obtain t where t: "Timestamp_Next (TxnTimestamp pusher) = Some t"
      "Timestamp_Less (TxnTimestamp pusher) t"
    using assms(6) Timestamp_Next_Less by blast
  have push: "\<exists>s'. putTxnData E (p\<lparr>TxnTimestamp := t\<rparr>) TxnChangeTypePushTimestamp False s = (Inr (), s') \<and>
      live (eng s') \<and> good_txn (p\<lparr>TxnTimestamp := t\<rparr>) \<and>
      view (eng s') = (view (eng s))(NewMVCCKey i \<mapsto> Transaction_MarshalTo (p\<lparr>TxnTimestamp := t\<rparr>))"
    if "Status p = PENDING" "\<not> Timestamp_Large (TxnTimestamp p) (TxnTimestamp pusher)"
  proof -
    have "Timestamp_Less (TxnTimestamp p) t"
      using that(2) t(2) Timestamp_Less_trans [of "TxnTimestamp p"]
      by (auto simp: Timestamp_Large_flip Timestamp_not_Less)
    then show ?thesis
      using putTxnData_stores [OF assms(1), of "p\<lparr>TxnTimestamp := t\<rparr>" TxnChangeTypePushTimestamp False]
        txn_outcome_push_timestamp [OF _ that(1), of "view (eng s)" t] assms(2-5)
      by (auto simp: good_txn_def)
  qed
  note run = processPushTransaction_def derefTxn_def bindM_def readEng_def get Let_def
  show ?thesis
  proof (cases "Status p = PENDING")
    case False
    then show ?thesis using assms(1) by (simp add: run push_spec_def)
  next
    case True
    show ?thesis
    proof (cases "pt = PUSH_TIMESTAMP \<and> Timestamp_Large (TxnTimestamp p) (TxnTimestamp pusher)")
      case large: True
      then show ?thesis using True assms(1) by (simp add: run push_spec_def Timestamp_Large_flip)
    next
      case large: False
      then show ?thesis
        using True abort [OF True] push [OF True] t assms(1)
        by (auto simp: run push_spec_def)
    qed
  qed
qed

end

section \<open>Properties\<close>

lemma snapshot_engine:
  assumes "badger_laws B dview tview current"
  shows "engine_reverse (rocksDBSnapshot B) (\<lambda>s. tview (handle s)) (\<lambda>_. True)"
    "engine_nil (rocksDBSnapshot B) (\<lambda>s. tview (handle s)) (\<lambda>_. True)"
  using badger_laws.snapshot_reverse [OF assms] by (simp_all add: engine_reverse_def)

lemma NewSnapshot_view:
  "badger_laws B dview tview current \<Longrightarrow> tview (handle (NewSnapshot B db)) = dview db"
  using badger_laws.new_view [of B dview tview current] by (simp add: NewSnapshot_def)

text \<open>A well-formed key: the shape of the store around it and the range of its timestamps.\<close>

definition wf_at :: "(bytes \<rightharpoonup> bytes) \<Rightarrow> bytes \<Rightarrow> bool" where
  "wf_at m k \<longleftrightarrow> data_key k \<and> wf_store m \<and> wf_meta m k \<and>
     (\<forall>md. meta_of m k = Some md \<longrightarrow> valid_ts (MetaTimestamp md))"

lemma wf_at_after_put:
  assumes "wf_at m k" "good_id (ID txn)" "good_value val" "valid_ts (TxnTimestamp txn)"
  shows "wf_at (after_put m k txn val) k"
  using assms wf_after_put [OF assms(2-4)] by (simp add: wf_at_def meta_of_after_put)

lemma snapshot_get_reads:
  assumes "badger_laws B dview tview current" "wf_at (tview (handle s)) k" "valid_ts ts"
  shows "reads_as (tview (handle s)) k ts txn (replica_getInternal (rocksDBSnapshot B) k ts (Some txn) s)"
  using engine_nil.getInternal_reads [OF snapshot_engine(2) [OF assms(1)], where e = s and k = k] assms(2,3)
  by (auto simp: wf_at_def)

definition sample_header :: RequestHeader where
  "sample_header = zero_header\<lparr>HKey := [2], HTimestamp := ts_at 5, HTxn := Some sample_txn\<rparr>"

lemma wf_at_empty: "wf_at Map.empty [2]"
  by (simp add: wf_at_def data_key_sample wf_meta_def meta_of_def)

lemma sample_txn_timestamp [simp]: "TxnTimestamp sample_txn = ts_at 5"
  by (simp add: sample_txn_def)

text \<open>
  C2. A read on a snapshot sees what the multi-version metadata allows and nothing else: it fails with
  a write intent error exactly when another transaction holds an intent at or below its timestamp,
  reads its own intent at the intent's timestamp, and otherwise returns the newest version at its
  timestamp, or nothing when the key was deleted by then.
\<close>

theorem get_reads_snapshot:
  assumes "badger_laws B dview tview current"
    and "wf_at (dview db) k" and "valid_ts ts"
  shows "reads_as (dview db) k ts txn
    (replica_getInternal (rocksDBSnapshot B) k ts (Some txn) (NewSnapshot B db))"
  using snapshot_get_reads [OF assms(1) _ assms(3), of "NewSnapshot B db" k txn] assms(2)
  by (simp add: NewSnapshot_view [OF assms(1)])

theorem get_reads_snapshot_witness:
  "replica_getInternal (rocksDBSnapshot ref_badger) [2] (ts_at 7) (Some zero_txn)
     (NewSnapshot ref_badger sample_db)
   = Inl (NewWriteIntentError (Some zero_txn) PUSH_TIMESTAMP (Some [1, 9]) [2])"
proof -
  have "wf_at (ref_view sample_db) [2]"
    using sample_intent_on by (simp add: wf_at_def intent_on_def sample_state_def)
  moreover have "valid_ts (ts_at 7)" by (simp add: valid_ts_def ts_at_def)
  ultimately have "reads_as (ref_view sample_db) [2] (ts_at 7) zero_txn
      (replica_getInternal (rocksDBSnapshot ref_badger) [2] (ts_at 7) (Some zero_txn)
        (NewSnapshot ref_badger sample_db))"
    by (rule get_reads_snapshot [OF ref.badger_laws_axioms])
  moreover have "\<not> Timestamp_Less (ts_at 7) (ts_at 5)" by (simp add: ts_at_def Timestamp_Less_def)
  ultimately show ?thesis
    by (simp add: reads_as_def sample_meta sample_txn_id zero_txn_def key_bytes_def)
qed



text \<open>
  C12. Conflicting writes are refused without a trace: a write below the timestamp of a committed
  version fails with a write too old error, a write to a key that another transaction has an
  intent on fails with a write intent error, and in both cases the state stays as it was. Every
  other write succeeds.
\<close>

theorem put_conflicts:
  assumes "badger_laws B dview tview current"
    and "wf_at (dview (eng s)) k" and "HKey h = k" and "HTxn h = Some txn"
    and "good_id (ID txn)" and "good_value val"
  shows "(case meta_of (dview (eng s)) k of
      Some md \<Rightarrow>
        (case TransactionID md of
           None \<Rightarrow> if Timestamp_Less (HTimestamp h) (MetaTimestamp md)
             then replica_put (rocksdb B) h val s = (Inl (WriteTooOldError (HTimestamp h) (MetaTimestamp md)), s)
             else fst (replica_put (rocksdb B) h val s) = Inr ()
         | Some tid \<Rightarrow> if tid \<noteq> key_bytes (ID txn)
             then replica_put (rocksdb B) h val s
               = (Inl (NewWriteIntentError (Some txn) PUSH_ABORT (Some tid) k), s)
             else fst (replica_put (rocksdb B) h val s) = Inr ())
    | None \<Rightarrow> fst (replica_put (rocksdb B) h val s) = Inr ())"
proof -
  have k: "good_key k" "wf_meta (dview (eng s)) k" using assms(2) by (auto simp: wf_at_def data_key_def)
  show ?thesis
    using engine_store.replica_put_law [OF rocksdb_engine(1) [OF assms(1)] _ k(1) assms(5,6) k(2) assms(3,4)]
    by (auto simp: put_conflict_def split: option.splits if_splits)
qed

theorem put_conflicts_witness:
  "replica_put (rocksdb ref_badger) (sample_header\<lparr>HTxn := Some (zero_txn\<lparr>ID := Some [1, 8]\<rparr>)\<rparr>)
     sample_value sample_state
   = (Inl (NewWriteIntentError (Some (zero_txn\<lparr>ID := Some [1, 8]\<rparr>)) PUSH_ABORT (Some [1, 9]) [2]), sample_state)"
proof -
  let ?t = "zero_txn\<lparr>ID := Some [1, 8]\<rparr>"
  have "wf_at (ref_view (eng sample_state)) [2]"
    using sample_intent_on by (simp add: wf_at_def intent_on_def)
  moreover have "good_id (ID ?t)" by (simp add: good_id_def key_bytes_def)
  moreover have "meta_of (ref_view (eng sample_state)) [2] = Some (new_meta sample_txn False)"
    using sample_meta by (simp add: sample_state_def)
  ultimately show ?thesis
    using put_conflicts [OF ref.badger_laws_axioms, of sample_state "[2]"
        "sample_header\<lparr>HTxn := Some ?t\<rparr>" ?t sample_value] good_sample_value
    by (simp add: sample_header_def sample_txn_id key_bytes_def)
qed

text \<open>
  C15. A push settles a conflict. It returns the record as it is stored afterwards; that record is
  committed or aborted, or, for a timestamp push, has a timestamp above the pusher's; a final record
  is returned unchanged. A push is refused, without changing anything, only when the record is
  pending, its heartbeat is not older than the expiry time, and its priority is higher than the
  pusher's (or the push type is neither of the two); so an expired transaction can always be pushed.
\<close>

theorem push_settles_conflict:
  assumes "badger_laws B dview tview current"
    and "txn_of (dview (eng s)) i = Some p" and "wf_txn (dview (eng s)) i"
    and "good_txn p" and "key_bytes (ID p) = i"
    and "Timestamp_Next (TxnTimestamp pusher) \<noteq> None"
  shows "\<exists>r s'. processPushTransaction (rocksdb B) i now pt (Some pusher) s = (r, s') \<and>
    push_spec p now pt pusher r \<and>
    (case r of Inl _ \<Rightarrow> s' = s | Inr t \<Rightarrow> txn_of (dview (eng s')) i = Some t \<and>
       (\<forall>x. x \<noteq> NewMVCCKey i \<longrightarrow> dview (eng s') x = dview (eng s) x))"
proof -
  from engine_store.processPushTransaction_law [OF rocksdb_engine(1) [OF assms(1)] _ assms(2,4,5,3,6)]
  obtain r s' where "processPushTransaction (rocksdb B) i now pt (Some pusher) s = (r, s')"
      "push_spec p now pt pusher r"
      "case r of Inl _ \<Rightarrow> s' = s | Inr t \<Rightarrow> s' = s \<and> t = p \<or>
         good_txn t \<and> dview (eng s') = (dview (eng s))(NewMVCCKey i \<mapsto> Transaction_MarshalTo t)"
    by blast
  then show ?thesis
    using assms(2) by (intro exI [of _ r] exI [of _ s']) (auto simp: txn_of_put split: sum.splits)
qed

definition expired_db :: pairs where
  "expired_db = [(NewMVCCKey [1, 9], Transaction_MarshalTo (sample_txn\<lparr>Priority := 7\<rparr>))]"

lemma expired_record:
  "txn_of (ref_view expired_db) [1, 9] = Some (sample_txn\<lparr>Priority := 7\<rparr>)"
  "wf_txn (ref_view expired_db) [1, 9]" "good_txn (sample_txn\<lparr>Priority := 7\<rparr>)"
proof -
  have key: "good_key [1, 9]" by (simp add: good_key_def badgerPrefix_def)
  then show good: "good_txn (sample_txn\<lparr>Priority := 7\<rparr>)"
    by (simp add: good_txn_def sample_txn_def key_bytes_def zero_txn_def)
  have "ref_view expired_db = [NewMVCCKey [1, 9] \<mapsto> Transaction_MarshalTo (sample_txn\<lparr>Priority := 7\<rparr>)]"
    using key by (simp add: expired_db_def ref_view_Cons)
  then show "txn_of (ref_view expired_db) [1, 9] = Some (sample_txn\<lparr>Priority := 7\<rparr>)"
      "wf_txn (ref_view expired_db) [1, 9]"
    using Unmarshal_txn [OF good] by (simp_all add: txn_of_def wf_txn_def)
qed

theorem push_settles_conflict_witness:
  "\<exists>t s'. processPushTransaction (rocksdb ref_badger) [1, 9] (ts_at 6000000000) PUSH_ABORT (Some zero_txn)
       \<lparr>eng = expired_db, rstats = None\<rparr> = (Inr t, s') \<and> Status t \<noteq> PENDING"
proof -
  let ?p = "sample_txn\<lparr>Priority := 7\<rparr>" and ?s = "\<lparr>eng = expired_db, rstats = None\<rparr>"
  have "Timestamp_Next (TxnTimestamp zero_txn) \<noteq> None" "key_bytes (ID ?p) = [1, 9]"
    by (simp_all add: zero_txn_def zero_ts_def Timestamp_Next_def MaxInt32_def sample_txn_id key_bytes_def)
  then obtain r s' where run:
      "processPushTransaction (rocksdb ref_badger) [1, 9] (ts_at 6000000000) PUSH_ABORT (Some zero_txn) ?s = (r, s')"
      "push_spec ?p (ts_at 6000000000) PUSH_ABORT zero_txn r"
    using push_settles_conflict [OF ref.badger_laws_axioms, of ?s "[1, 9]" ?p zero_txn
        "ts_at 6000000000" PUSH_ABORT] expired_record by auto
  have "sint (WallTime (ts_at 6000000000) - LastHeartbeat ?p) > txnExpiredTime"
    by (simp add: ts_at_def sample_txn_def zero_txn_def txnExpiredTime_def)
  with run show ?thesis by (cases r) (auto simp: push_spec_def)
qed

text \<open>
  C13. Scans return and are complete: on a well-formed snapshot a forward scan returns, in ascending
  order, and a reverse scan, in descending order, exactly the rows that reading every user key of
  the range one by one returns, up to the limit; the first key whose read fails makes the scan fail
  with the same error. Fuel above the number of stored keys is always enough.
\<close>

theorem scan_equals_reads:
  assumes "badger_laws B dview tview current"
    and "wf_store (tview (handle s))" and "has_meta (tview (handle s))"
    and "[1] \<le> a" and "scan_fuel (tview (handle s)) fuel"
  shows "scanInternal fuel (rocksDBSnapshot B) a b (Some txn) ts mx reverse s =
    Some (rows (\<lambda>k. replica_getInternal (rocksDBSnapshot B) k ts (Some txn) s) mx
      (if reverse then rev (range_keys (tview (handle s)) a b) else range_keys (tview (handle s)) a b) [])"
  using engine_nil.scanInternal_forward [OF snapshot_engine(2) [OF assms(1)] _ assms(2,4,5)]
    engine_reverse.scanInternal_reverse [OF snapshot_engine(1) [OF assms(1)] _ assms(2,4,3,5)]
  by simp

lemma sample_range: "range_keys (ref_view sample_db) [1] [3] = [[2]]"
proof -
  have "dom (ref_view sample_db) = {NewMVCCTimeKey [2] (ts_at 5), NewMVCCKey [2]}"
    unfolding sample_view by auto
  then have "ukeys (ref_view sample_db) = {[2]}" by (auto simp: ukeys_def rawkey_def)
  moreover have "[1] \<le> ([2] :: bytes)" "[2] < ([3] :: bytes)" by simp_all
  ultimately have "{k \<in> ukeys (ref_view sample_db). [1] \<le> k \<and> k < [3]} = {[2]}" by blast
  moreover have "sorted_list_of_set {[2] :: bytes} = [[2]]" by simp
  ultimately show ?thesis by (simp only: range_keys_def)
qed

theorem scan_equals_reads_witness:
  "scanInternal 3 (rocksDBSnapshot ref_badger) [1] [3] (Some sample_txn) (ts_at 5) 0 True
     (NewSnapshot ref_badger sample_db) = Some (Inr [\<lparr>KVKey = [2], KVValue = sample_value\<rparr>])"
proof -
  have view: "ref_view (handle (NewSnapshot ref_badger sample_db)) = ref_view sample_db"
    by (rule NewSnapshot_view [OF ref.badger_laws_axioms])
  have dom: "dom (ref_view sample_db) = {NewMVCCTimeKey [2] (ts_at 5), NewMVCCKey [2]}"
    unfolding sample_view by auto
  have "wf_store (ref_view sample_db)" "wf_at (ref_view sample_db) [2]"
    using sample_intent_on by (simp_all add: wf_at_def intent_on_def sample_state_def)
  moreover have "has_meta (ref_view sample_db)" using dom by (auto simp: has_meta_def ukeys_def rawkey_def)
  moreover have "scan_fuel (ref_view sample_db) 3" by (simp add: scan_fuel_def dom)
  moreover have "replica_getInternal (rocksDBSnapshot ref_badger) [2] (ts_at 5) (Some sample_txn)
      (NewSnapshot ref_badger sample_db) = Inr (Some sample_value)"
  proof -
    have "reads_as (ref_view sample_db) [2] (ts_at 5) sample_txn
        (replica_getInternal (rocksDBSnapshot ref_badger) [2] (ts_at 5) (Some sample_txn)
          (NewSnapshot ref_badger sample_db))"
      using snapshot_get_reads [OF ref.badger_laws_axioms, of "NewSnapshot ref_badger sample_db" "[2]"]
        view calculation(2) valid_ts_sample by simp
    then show ?thesis
      by (simp add: reads_as_def sample_meta sample_txn_id key_bytes_def sample_versions reads_at_exact)
  qed
  ultimately show ?thesis
    using scan_equals_reads [OF ref.badger_laws_axioms, of "NewSnapshot ref_badger sample_db" "[1]" 3 "[3]"
        sample_txn "ts_at 5" 0 True] view sample_range by (simp add: sample_value_def)
qed

text \<open>
  C30. What an aborted transaction wrote can be read. When the key has an older version, resolving the
  aborted intent makes the metadata point to it but leaves the aborted version behind; a later read
  at or above the aborted timestamp, by any transaction, returns the aborted value.
\<close>

theorem aborted_write_is_read:
  assumes "badger_laws B dview tview current"
    and "intent_on (dview (eng s)) k md i" and "Status (IntentTxn i) = ABORTED"
    and "\<forall>v \<in> ran (dview (eng s)). v \<noteq> []" and "rstats s \<noteq> None"
    and "versions (dview (eng s)) k (MetaTimestamp md) = Some v"
    and "\<forall>t \<in> dom (versions (dview (eng s)) k). \<not> Timestamp_Less (MetaTimestamp md) t \<and> valid_ts t"
    and "\<forall>t u. versions (dview (eng s)) k t = Some u \<longrightarrow> Bytes u \<noteq> []"
    and "\<exists>t \<in> dom (versions (dview (eng s)) k). Timestamp_Less t (MetaTimestamp md)"
  shows "\<exists>s'. MVCCResolveWriteIntent (rocksdb B) [i] True s = (Inr (), s') \<and>
    replica_getInternal (rocksDBSnapshot B) k (MetaTimestamp md) (Some reader) (NewSnapshot B (eng s'))
      = Inr (Some v)"
proof -
  note i = assms(2) [unfolded intent_on_def]
  let ?V = "versions (dview (eng s)) k"
  have older: "\<not> (\<forall>t \<in> dom ?V. \<not> Timestamp_Less t (MetaTimestamp md))" using assms(9) by blast
  obtain s' t u where s': "resolveIntent (rocksdb B) i True s = (Inr (), s')"
      "?V t = Some u" "Timestamp_Less t (MetaTimestamp md)"
      "dview (eng s') = (dview (eng s))(NewMVCCKey k \<mapsto> MVCCMetadata_MarshalTo
         (new_meta (zero_txn\<lparr>TxnTimestamp := t\<rparr>) (length (Bytes u) = 0)))"
    using engine_store.resolve_abort_law [OF rocksdb_engine(1) [OF assms(1)],
        where s = s and k = k and md = md and i = i and st = True] i assms(3-5)
    unfolding if_not_P [OF older] by blast
  let ?md = "new_meta (zero_txn\<lparr>TxnTimestamp := t\<rparr>) (length (Bytes u) = 0)"
  have meta: "meta_of (dview (eng s')) k = Some ?md" and V: "versions (dview (eng s')) k = ?V"
    using s'(4) by (simp_all add: meta_of_put_meta)
  have "valid_ts t" "Bytes u \<noteq> []" using assms(7,8) s'(2) by blast+
  then have "wf_at (dview (eng s')) k"
    using i meta s'(4) by (simp add: wf_at_def wf_store_put_meta wf_meta_put_meta)
  from snapshot_get_reads [OF assms(1) _ _, of "NewSnapshot B (eng s')" k "MetaTimestamp md" reader] this i
  have "reads_as (dview (eng s')) k (MetaTimestamp md) reader
      (replica_getInternal (rocksDBSnapshot B) k (MetaTimestamp md) (Some reader) (NewSnapshot B (eng s')))"
    by (simp add: NewSnapshot_view [OF assms(1)])
  moreover have "reads_at ?V (MetaTimestamp md) r \<longleftrightarrow> r = Some v" for r
    using assms(6) reads_at_exact [of ?V "MetaTimestamp md" v r] by (simp add: fun_upd_idem)
  moreover have "ID zero_txn = None" by (simp add: zero_txn_def)
  ultimately show ?thesis
    using MVCCResolveWriteIntent_one [OF s'(1)] meta V s'(3) \<open>Bytes u \<noteq> []\<close>
    by (auto simp: reads_as_def)
qed

text \<open>The same store with a committed version of the key at time 3.\<close>

definition older_value :: Value where
  "older_value = zero_value\<lparr>Bytes := [0x62], Tag := 3\<rparr>"

definition older_state :: "pairs estate" where
  "older_state = sample_state\<lparr>eng := (NewMVCCTimeKey [2] (ts_at 3), stored_value older_value) # sample_db\<rparr>"

lemma good_older_value: "good_value older_value"
proof -
  have "MVCCValue_Size (zero_mvccvalue\<lparr>MVValue := Some older_value\<rparr>) \<le> 100" by code_simp
  then show ?thesis by (simp add: good_value_def)
qed

lemma older_view:
  "ref_view (eng older_state) = (ref_view sample_db)(NewMVCCTimeKey [2] (ts_at 3) \<mapsto> stored_value older_value)"
  using data_key_sample by (simp add: older_state_def ref_view_Cons data_key_def)

lemma older_versions_sample:
  "versions (ref_view (eng older_state)) [2] = [ts_at 5 \<mapsto> sample_value, ts_at 3 \<mapsto> older_value]"
  unfolding older_view by (simp add: versions_put [OF good_older_value] sample_versions)

lemma older_intent_on:
  "intent_on (ref_view (eng older_state)) [2] (new_meta sample_txn False) (sample_intent st w)"
proof -
  have "valid_ts (ts_at 3)" by (simp add: valid_ts_def ts_at_def)
  then show ?thesis
    using sample_intent_on unfolding intent_on_def older_view
    by (simp add: sample_state_def wf_store_put good_older_value wf_meta_put)
qed

theorem aborted_write_is_read_witness:
  "\<exists>s'. MVCCResolveWriteIntent (rocksdb ref_badger) [sample_intent ABORTED 5] True older_state = (Inr (), s') \<and>
    replica_getInternal (rocksDBSnapshot ref_badger) [2] (ts_at 5) (Some zero_txn)
      (NewSnapshot ref_badger (eng s')) = Inr (Some sample_value)"
proof -
  let ?md = "new_meta sample_txn False"
  have ts: "Timestamp_Less (ts_at 3) (ts_at 5)" "\<not> Timestamp_Less (ts_at 5) (ts_at 3)" "ts_at 3 \<noteq> ts_at 5"
      "valid_ts (ts_at 3)"
    by (simp_all add: ts_at_def Timestamp_Less_def valid_ts_def)
  have V: "versions (ref_view (eng older_state)) [2] (MetaTimestamp ?md) = Some sample_value"
    using ts(3) by (simp add: older_versions_sample)
  have "\<forall>v \<in> ran (ref_view (eng older_state)). v \<noteq> []"
    unfolding older_view sample_view by (auto simp: ran_def)
  moreover have "Status (IntentTxn (sample_intent ABORTED 5)) = ABORTED" "rstats older_state \<noteq> None"
    by (simp_all add: sample_intent_def older_state_def sample_state_def)
  moreover have "\<forall>t \<in> dom (versions (ref_view (eng older_state)) [2]).
      \<not> Timestamp_Less (MetaTimestamp ?md) t \<and> valid_ts t"
    using ts valid_ts_sample by (auto simp: older_versions_sample)
  moreover have "\<forall>t u. versions (ref_view (eng older_state)) [2] t = Some u \<longrightarrow> Bytes u \<noteq> []"
    by (auto simp: older_versions_sample sample_value_def older_value_def)
  moreover have "\<exists>t \<in> dom (versions (ref_view (eng older_state)) [2]). Timestamp_Less t (MetaTimestamp ?md)"
    using ts by (auto simp: older_versions_sample)
  ultimately show ?thesis
    using aborted_write_is_read [OF ref.badger_laws_axioms older_intent_on _ _ _ V, of ABORTED 5 zero_txn] by simp
qed

end
