(* ===== verification/RaftKey.thy ===== *)
theory RaftKey
  imports Command
begin

text \<open>
  The keys under which a replica keeps its raft state: the system prefixes of \<^verbatim>\<open>src/util/keys.go\<close>,
  the decimal formats of Go's \<^verbatim>\<open>fmt.Sprintf\<close> that the key functions at the end of
  \<^verbatim>\<open>src/storage/replica_raftstorage.go\<close> use, and these functions.
  Proved: padded decimals of at most 16 digits sort as the numbers do, so the log keys of a range
  are ordered by index; the keys of different ranges and kinds are distinct and storable.
\<close>

section \<open>Definitions\<close>

subsection \<open>Decimal formats\<close>

text \<open>The decimal digits of a number in ASCII, and Go's verbs \<^verbatim>\<open>%d\<close> (\<^verbatim>\<open>%v\<close>) and \<^verbatim>\<open>%.pd\<close>.\<close>

definition digit :: "nat \<Rightarrow> byte" where
  "digit d = 0x30 + of_nat d"

fun dec :: "nat \<Rightarrow> bytes" where
  "dec n = (if n < 10 then [digit n] else dec (n div 10) @ [digit (n mod 10)])"

definition sign :: "int \<Rightarrow> bytes" where
  "sign i = (if i < 0 then [0x2d] else [])"

definition fmt_d :: "int \<Rightarrow> bytes" where
  "fmt_d i = sign i @ dec (nat \<bar>i\<bar>)"

definition fmt_pd :: "nat \<Rightarrow> int \<Rightarrow> bytes" where
  "fmt_pd p i = (let ds = dec (nat \<bar>i\<bar>) in sign i @ replicate (p - length ds) (digit 0) @ ds)"

text \<open>\<^verbatim>\<open>[]byte(s)\<close> for a string literal.\<close>

definition ascii :: "string \<Rightarrow> bytes" where
  "ascii s = map (\<lambda>c. of_nat (of_char c)) s"

subsection \<open>Prefixes\<close>

definition bytesJoin :: "bytes list \<Rightarrow> bytes" where
  "bytesJoin keys = concat keys"

definition HardStatePrefix :: bytes where "HardStatePrefix = bytesJoin [SystemPrefix, ascii ''rfhs'']"
definition AppliedIndexPrefix :: bytes where "AppliedIndexPrefix = bytesJoin [SystemPrefix, ascii ''rfai'']"
definition LastIndexPrefix :: bytes where "LastIndexPrefix = bytesJoin [SystemPrefix, ascii ''rfli'']"
definition LogKeyPrefix :: bytes where "LogKeyPrefix = bytesJoin [SystemPrefix, ascii ''rflg'']"
definition OffsetIndexPrefix :: bytes where "OffsetIndexPrefix = bytesJoin [SystemPrefix, ascii ''rfof'']"
definition RangeStatsKeyPrefix :: bytes where "RangeStatsKeyPrefix = bytesJoin [SystemPrefix, ascii ''stat'']"

subsection \<open>Keys\<close>

definition raftHardStateKey :: "int64 \<Rightarrow> bytes" where
  "raftHardStateKey rid = NewMVCCKey (NewKey [HardStatePrefix, fmt_d (sint rid)])"

definition raftLogKey :: "int64 \<Rightarrow> uint64 \<Rightarrow> bytes" where
  "raftLogKey rid index =
     NewMVCCKey (NewKey [LogKeyPrefix, fmt_pd 16 (sint rid) @ ascii ''_'' @ fmt_pd 16 (uint index)])"

definition raftAppliedIndexKey :: "int64 \<Rightarrow> bytes" where
  "raftAppliedIndexKey rid = NewMVCCKey (NewKey [AppliedIndexPrefix, fmt_d (sint rid)])"

definition raftLastIndexKey :: "int64 \<Rightarrow> bytes" where
  "raftLastIndexKey rid = NewMVCCKey (NewKey [LastIndexPrefix, fmt_d (sint rid)])"

definition raftOffsetIndexKey :: "int64 \<Rightarrow> bytes" where
  "raftOffsetIndexKey rid = NewMVCCKey (NewKey [OffsetIndexPrefix, fmt_d (sint rid)])"

section \<open>Decimals\<close>

declare dec.simps [simp del]

lemma digit_less_iff: "m < 10 \<Longrightarrow> n < 10 \<Longrightarrow> digit m < digit n \<longleftrightarrow> m < n"
  by (simp add: digit_def word_less_nat_alt unat_word_ariths unat_of_nat)

lemma digit_inject: "m < 10 \<Longrightarrow> n < 10 \<Longrightarrow> digit m = digit n \<longleftrightarrow> m = n"
  using digit_less_iff [of m n] digit_less_iff [of n m] by (cases m n rule: linorder_cases) auto

text \<open>The last \<open>p\<close> decimal digits, with leading zeros.\<close>

fun fixed :: "nat \<Rightarrow> nat \<Rightarrow> bytes" where
  "fixed 0 n = []"
| "fixed (Suc p) n = fixed p (n div 10) @ [digit (n mod 10)]"

lemma fixed_length [simp]: "length (fixed p n) = p"
  by (induction p arbitrary: n) auto

lemma fixed_zero: "fixed p 0 = replicate p (digit 0)"
  by (induction p) (auto simp: replicate_append_same)

lemma dec_length: "n < 10 ^ p \<Longrightarrow> 0 < p \<Longrightarrow> length (dec n) \<le> p"
proof (induction p arbitrary: n)
  case (Suc p)
  then show ?case
    by (cases "p = 0") (auto simp: dec.simps [of n] less_mult_imp_div_less)
qed simp

lemma fixed_dec:
  "n < 10 ^ p \<Longrightarrow> 0 < p \<Longrightarrow> fixed p n = replicate (p - length (dec n)) (digit 0) @ dec n"
proof (induction p arbitrary: n)
  case (Suc p)
  show ?case
  proof (cases "n < 10")
    case True
    then show ?thesis by (simp add: dec.simps [of n] fixed_zero)
  next
    case False
    with Suc.prems have "n div 10 < 10 ^ p" "0 < p"
      by (auto simp: less_mult_imp_div_less intro: gr0I)
    with Suc.IH [of "n div 10"] False show ?thesis by (simp add: dec.simps [of n])
  qed
qed simp

lemma fmt_pd_fixed: "0 < p \<Longrightarrow> n < 10 ^ p \<Longrightarrow> fmt_pd p (int n) = fixed p n"
  by (simp add: fmt_pd_def sign_def fixed_dec Let_def)

lemma snoc_less:
  "length xs = length ys \<Longrightarrow> xs @ [a] < ys @ [b] \<longleftrightarrow> xs < ys \<or> xs = ys \<and> a < (b :: byte)"
proof (induction xs arbitrary: ys)
  case (Cons x xs)
  then show ?case by (cases ys) auto
qed auto

lemma div_mod_10: "m div 10 = n div 10 \<and> m mod 10 = n mod 10 \<longleftrightarrow> m = (n :: nat)"
  by (metis div_mult_mod_eq)

lemma div_mod_10_less:
  "m < (n :: nat) \<longleftrightarrow> m div 10 < n div 10 \<or> m div 10 = n div 10 \<and> m mod 10 < n mod 10"
proof -
  have "m = 10 * (m div 10) + m mod 10" "n = 10 * (n div 10) + n mod 10" by simp_all
  moreover have "m mod 10 < 10" "n mod 10 < 10" by simp_all
  ultimately show ?thesis by linarith
qed

lemma fixed_inject: "m < 10 ^ p \<Longrightarrow> n < 10 ^ p \<Longrightarrow> fixed p m = fixed p n \<longleftrightarrow> m = n"
proof (induction p arbitrary: m n)
  case (Suc p)
  then have "m div 10 < 10 ^ p" "n div 10 < 10 ^ p" by (auto simp: less_mult_imp_div_less)
  from Suc.IH [OF this] div_mod_10 [of m n] show ?case by (simp add: digit_inject)
qed simp

lemma fixed_less_iff: "m < 10 ^ p \<Longrightarrow> n < 10 ^ p \<Longrightarrow> fixed p m < fixed p n \<longleftrightarrow> m < n"
proof (induction p arbitrary: m n)
  case (Suc p)
  then have b: "m div 10 < 10 ^ p" "n div 10 < 10 ^ p" by (auto simp: less_mult_imp_div_less)
  from Suc.IH [OF b] fixed_inject [OF b] div_mod_10_less [of m n] show ?case
    by (simp add: snoc_less digit_less_iff)
qed simp

lemma dec_inject [simp]: "dec m = dec n \<longleftrightarrow> m = n"
proof (induction m arbitrary: n rule: dec.induct)
  case (1 m)
  have ne: "dec k \<noteq> []" for k by (simp add: dec.simps [of k])
  show ?case
  proof (cases "m < 10 \<or> n < 10")
    case True
    then show ?thesis
      using ne [of "m div 10"] ne [of "n div 10"]
      by (auto simp: dec.simps [of m] dec.simps [of n] digit_inject)
  next
    case False
    with 1 div_mod_10 [of m n] show ?thesis
      by (simp add: dec.simps [of m] dec.simps [of n] digit_inject)
  qed
qed

lemma dec_nonempty [simp]: "dec n \<noteq> []"
  by (simp add: dec.simps [of n])

section \<open>Keys of a range\<close>

text \<open>
  Range ids and log indices of at most 16 decimal digits, the width the log key pads them to. The
  placement driver counts range ids up from small numbers, and an index grows by one per command.
\<close>

definition range_ok :: "int64 \<Rightarrow> bool" where
  "range_ok rid \<longleftrightarrow> 0 \<le> sint rid \<and> sint rid < 10 ^ 16"

definition index_ok :: "uint64 \<Rightarrow> bool" where
  "index_ok i \<longleftrightarrow> uint i < 10 ^ 16"

text \<open>The encoded prefix all log keys of a range share, before the digits of the index.\<close>

definition logPrefix :: "int64 \<Rightarrow> bytes" where
  "logPrefix rid = LogKeyPrefix @ fixed 16 (nat (sint rid)) @ ascii ''_''"

lemmas prefix_defs = HardStatePrefix_def AppliedIndexPrefix_def LastIndexPrefix_def LogKeyPrefix_def
  OffsetIndexPrefix_def RangeStatsKeyPrefix_def bytesJoin_def SystemPrefix_def ascii_def

lemma index_ok_unat: "index_ok i \<longleftrightarrow> unat i < 10 ^ 16"
  using nat_less_iff [of "uint i" "10 ^ 16"] by (simp add: index_ok_def)

lemma fmt_pd_range: "range_ok rid \<Longrightarrow> fmt_pd 16 (sint rid) = fixed 16 (nat (sint rid))"
  using fmt_pd_fixed [of 16 "nat (sint rid)"] by (simp add: range_ok_def nat_less_iff)

lemma fmt_pd_index: "index_ok i \<Longrightarrow> fmt_pd 16 (uint i) = fixed 16 (unat i)"
  using fmt_pd_fixed [of 16 "unat i"] by (simp add: index_ok_unat)

lemma raftLogKey_eq:
  "range_ok rid \<Longrightarrow> index_ok i \<Longrightarrow> raftLogKey rid i = NewMVCCKey (logPrefix rid @ fixed 16 (unat i))"
  by (simp add: raftLogKey_def NewKey_def logPrefix_def fmt_pd_range fmt_pd_index)

lemma raftLogKey_less_iff:
  assumes "range_ok rid" "index_ok i" "index_ok j"
  shows "raftLogKey rid i < raftLogKey rid j \<longleftrightarrow> i < j"
  using assms NewMVCCKey_append_less_iff [of "logPrefix rid @ fixed 16 (unat i)" "[]"
      "logPrefix rid @ fixed 16 (unat j)" "[]"]
  by (simp add: raftLogKey_eq fixed_less_iff index_ok_unat word_less_nat_alt)

lemma raftLogKey_inject:
  assumes "range_ok rid" "index_ok i" "index_ok j"
  shows "raftLogKey rid i = raftLogKey rid j \<longleftrightarrow> i = j"
  using assms raftLogKey_less_iff [of rid i j] raftLogKey_less_iff [of rid j i] by auto

lemma raftLogKey_le_iff:
  assumes "range_ok rid" "index_ok i" "index_ok j"
  shows "raftLogKey rid i \<le> raftLogKey rid j \<longleftrightarrow> i \<le> j"
  using assms raftLogKey_less_iff [of rid j i] by (metis linorder_not_less)

lemma raftLogKey_ranges_disjoint:
  assumes "range_ok r" "range_ok r'" "index_ok i" "index_ok j" "raftLogKey r i = raftLogKey r' j"
  shows "r = r' \<and> i = j"
proof -
  have "fixed 16 (nat (sint r)) = fixed 16 (nat (sint r'))"
    using assms by (simp add: raftLogKey_eq logPrefix_def)
  then have "sint r = sint r'"
    using assms(1,2) by (simp add: fixed_inject range_ok_def nat_less_iff eq_nat_nat_iff)
  then have "r = r'" by (rule signed_word_eqI)
  with assms raftLogKey_inject [of r i j] show ?thesis by auto
qed

text \<open>A log key is not a key of the other kinds, and these are not each other's.\<close>

lemma raft_keys_distinct [simp]:
  "raftLogKey r i \<noteq> raftAppliedIndexKey r'" "raftLogKey r i \<noteq> raftLastIndexKey r'"
  "raftLogKey r i \<noteq> raftOffsetIndexKey r'" "raftLogKey r i \<noteq> raftHardStateKey r'"
  "raftAppliedIndexKey r \<noteq> raftLastIndexKey r'" "raftAppliedIndexKey r \<noteq> raftOffsetIndexKey r'"
  "raftAppliedIndexKey r \<noteq> raftHardStateKey r'" "raftLastIndexKey r \<noteq> raftOffsetIndexKey r'"
  "raftLastIndexKey r \<noteq> raftHardStateKey r'" "raftOffsetIndexKey r \<noteq> raftHardStateKey r'"
  by (simp_all add: raftLogKey_def raftAppliedIndexKey_def raftLastIndexKey_def raftOffsetIndexKey_def
      raftHardStateKey_def NewKey_def prefix_defs)

lemma dec_length_word: "n < 2 ^ 64 \<Longrightarrow> length (dec n) \<le> 20"
  using dec_length [of n 20] by simp

lemma fmt_d_length: "length (fmt_d (sint (rid :: int64))) \<le> 21"
proof -
  have "nat \<bar>sint rid\<bar> < 2 ^ 64"
    using sint_ge [of rid] sint_lt [of rid] by simp
  from dec_length_word [OF this] show ?thesis by (cases "sint rid < 0") (simp_all add: fmt_d_def sign_def abs_if)
qed

lemma fmt_pd_length:
  assumes "\<bar>i\<bar> < 2 ^ 64"
  shows "length (fmt_pd 16 i) \<le> 21"
proof -
  have "nat \<bar>i\<bar> < 2 ^ 64" using assms by simp
  from dec_length_word [OF this] show ?thesis
    by (cases "i < 0") (simp_all add: fmt_pd_def sign_def abs_if Let_def)
qed

lemma system_key_storable:
  assumes "prefix SystemPrefix k" "length k \<le> 32000"
  shows "storable (NewMVCCKey k)"
proof -
  have "good_key k" using assms by (auto simp: good_key_def prefix_def badgerPrefix_def SystemPrefix_def)
  then show ?thesis by simp
qed

lemma raft_keys_storable [simp]:
  "storable (raftLogKey rid i)" "storable (raftAppliedIndexKey rid)" "storable (raftLastIndexKey rid)"
  "storable (raftOffsetIndexKey rid)" "storable (raftHardStateKey rid)"
proof -
  have "\<bar>sint rid\<bar> < 2 ^ 64" "\<bar>uint i\<bar> < 2 ^ 64"
    using sint_ge [of rid] sint_lt [of rid] uint_bounded [of i] by simp_all
  note len = fmt_pd_length [OF this(1)] fmt_pd_length [OF this(2)] fmt_d_length [of rid]
  show "storable (raftLogKey rid i)" "storable (raftAppliedIndexKey rid)"
    "storable (raftLastIndexKey rid)" "storable (raftOffsetIndexKey rid)" "storable (raftHardStateKey rid)"
    unfolding raftLogKey_def raftAppliedIndexKey_def raftLastIndexKey_def raftOffsetIndexKey_def
      raftHardStateKey_def NewKey_def
    by (rule system_key_storable; use len in \<open>simp add: prefix_defs\<close>)+
qed

end
