(* ===== verification/RaftStorage.thy ===== *)
theory RaftStorage
  imports RaftKey
begin

text \<open>
  The raft log and state of a replica, \<^verbatim>\<open>src/storage/replica_raftstorage.go\<close>. The raft library is a
  third-party package: the encodings of its messages are the record \<open>raftpb\<close>, a parameter of the
  definitions, and what the code relies on is \<open>raftpb_laws\<close>. The engine is the badger engine; the
  state is the replica with the \<^typ>\<open>'db estate\<close> of its store: the engine and
  \<^verbatim>\<open>r.store.rangeStats[r.rangeID]\<close>. \<^verbatim>\<open>Snapshot\<close> itself, which shares a token of the store, is in
  \<open>Replica\<close>.
  Proved: \<^verbatim>\<open>Entries\<close> refines reading the log as a map from indices to entries, appended entries are
  read back and persist the last index, compaction removes exactly the entries below its index,
  the persisted indices round-trip, and what applying a snapshot does to the store.
\<close>

section \<open>Definitions\<close>

subsection \<open>Messages of the raft library\<close>

record Entry =
  EType :: int32
  ETerm :: uint64
  EIndex :: uint64
  EData :: bytes

record HardState =
  HSTerm :: uint64
  HSVote :: uint64
  HSCommit :: uint64

record SnapshotMetadata =
  ConfNodes :: "uint64 list"
  SMIndex :: uint64
  SMTerm :: uint64

record RaftSnapshot =
  SnapData :: bytes
  SnapMeta :: SnapshotMetadata

definition zero_hs :: HardState where
  "zero_hs = \<lparr>HSTerm = 0, HSVote = 0, HSCommit = 0\<rparr>"

record raftpb =
  entMarshal :: "Entry \<Rightarrow> error + bytes"
  entUnmarshal :: "bytes \<Rightarrow> error + Entry"
  hsMarshal :: "HardState \<Rightarrow> error + bytes"
  hsUnmarshal :: "bytes \<Rightarrow> error + HardState"
  isEmptyHardState :: "HardState \<Rightarrow> bool"

definition ErrCompacted :: error where
  "ErrCompacted = Errorf ''requested index is unavailable due to compaction''"

definition ErrUnavailable :: error where
  "ErrUnavailable = Errorf ''requested entry at index is unavailable''"

subsection \<open>The replica\<close>

text \<open>
  A command that waits for its commit; \<open>waiter\<close> names the channel \<^verbatim>\<open>done\<close> its sender waits on.
\<close>

record RaftCommand =
  CmdRangeID :: int64
  CmdRequest :: BatchRequest

record pendingCmd =
  raftCmd :: RaftCommand
  waiter :: nat

text \<open>The fields of \<^verbatim>\<open>replica\<close>; \<open>raftGroup\<close> is the state of the raft library's node.\<close>

record 'g replica =
  rangeID :: int64
  rangeDesc :: RangeDescriptor
  pendingCmds :: "bytes \<rightharpoonup> pendingCmd"
  raftGroup :: 'g
  raftOffsetIndex :: uint64
  raftAppliedIndex :: uint64
  raftTruncateIndex :: uint64
  raftTruncateTerm :: uint64
  raftLastIndex :: uint64

type_synonym ('g, 'e) onDisk = "'g replica \<times> 'e"

text \<open>Operations on the engine alone, and of operations on the engine within the store's state.\<close>

definition onDb :: "('e, error, 'a) op \<Rightarrow> (('g, 'e) onDisk, error, 'a) op" where
  "onDb m s = (case s of (r, e) \<Rightarrow> case m e of (x, e') \<Rightarrow> (x, (r, e')))"

definition onStore :: "(('g, 'e) onDisk, error, 'a) op \<Rightarrow> (('g, 'e estate) onDisk, error, 'a) op" where
  "onStore m s =
     (case s of (r, es) \<Rightarrow> case m (r, eng es) of (x, (r', e')) \<Rightarrow> (x, (r', es\<lparr>eng := e'\<rparr>)))"

text \<open>A failed \<^verbatim>\<open>Unmarshal\<close> that is returned as it is.\<close>

definition protoError :: "pb_error \<Rightarrow> error" where
  "protoError err = (if err = SliceBounds then Panic ''slice bounds out of range'' else ProtoError err)"

subsection \<open>Indices\<close>

text \<open>The body the three \<^verbatim>\<open>load...Index\<close> methods share, and what the setters store.\<close>

definition loadIndex :: "('db, 'txn) badger \<Rightarrow> bytes \<Rightarrow> 'db \<Rightarrow> error + uint64" where
  "loadIndex B key db =
     bindE (Get (rocksdb B) key db) (\<lambda>v.
       case v of
         None \<Rightarrow> Inr 0
       | Some v \<Rightarrow>
           (case Value_Unmarshal zero_value v of
              Inl err \<Rightarrow> Inl (protoError err)
            | Inr val \<Rightarrow> (case GetInt val of Inl err \<Rightarrow> Inl (ValueError err) | Inr i \<Rightarrow> Inr i)))"

definition indexValue :: "uint64 \<Rightarrow> bytes" where
  "indexValue index = Value_MarshalTo (SetInt index zero_value)"

definition loadOffsetIndex :: "('db, 'txn) badger \<Rightarrow> 'g replica \<Rightarrow> 'db \<Rightarrow> error + uint64" where
  "loadOffsetIndex B r = loadIndex B (raftOffsetIndexKey (rangeID r))"

definition setOffsetIndex :: "'e Engine \<Rightarrow> uint64 \<Rightarrow> (('g, 'e) onDisk, error, unit) op" where
  "setOffsetIndex E index s = (case s of (r, e) \<Rightarrow>
     onDb (Put E (raftOffsetIndexKey (rangeID r)) (indexValue index)) (r\<lparr>raftOffsetIndex := index\<rparr>, e))"

definition loadAppliedIndex :: "('db, 'txn) badger \<Rightarrow> 'g replica \<Rightarrow> 'db \<Rightarrow> error + uint64" where
  "loadAppliedIndex B r = loadIndex B (raftAppliedIndexKey (rangeID r))"

definition setAppliedIndex :: "'e Engine \<Rightarrow> uint64 \<Rightarrow> (('g, 'e) onDisk, error, unit) op" where
  "setAppliedIndex E index s = (case s of (r, e) \<Rightarrow>
     onDb (Put E (raftAppliedIndexKey (rangeID r)) (indexValue index)) (r\<lparr>raftAppliedIndex := index\<rparr>, e))"

definition loadLastIndex :: "('db, 'txn) badger \<Rightarrow> 'g replica \<Rightarrow> 'db \<Rightarrow> error + uint64" where
  "loadLastIndex B r = loadIndex B (raftLastIndexKey (rangeID r))"

definition setLastIndex :: "'e Engine \<Rightarrow> uint64 \<Rightarrow> (('g, 'e) onDisk, error, unit) op" where
  "setLastIndex E index s = (case s of (r, e) \<Rightarrow>
     onDb (Put E (raftLastIndexKey (rangeID r)) (indexValue index)) (r\<lparr>raftLastIndex := index\<rparr>, e))"

definition FirstIndex :: "'g replica \<Rightarrow> uint64" where
  "FirstIndex r = raftOffsetIndex r + 1"

definition LastIndex :: "'g replica \<Rightarrow> uint64" where
  "LastIndex r = raftLastIndex r"

subsection \<open>Hard state\<close>

definition setHardState :: "('db, 'txn) badger \<Rightarrow> raftpb \<Rightarrow> HardState \<Rightarrow> (('g, 'db) onDisk, error, unit) op" where
  "setHardState B P hs s =
     (case hsMarshal P hs of
        Inl err \<Rightarrow> (Inl err, s)
      | Inr val \<Rightarrow> onDb (Put (rocksdb B) (raftHardStateKey (rangeID (fst s))) val) s)"

definition loadHardState :: "('db, 'txn) badger \<Rightarrow> raftpb \<Rightarrow> bytes \<Rightarrow> 'db \<Rightarrow> error + HardState" where
  "loadHardState B P key db =
     bindE (Get (rocksdb B) key db) (\<lambda>val.
       case val of None \<Rightarrow> Inr zero_hs | Some val \<Rightarrow> hsUnmarshal P val)"

text \<open>The result is the hard state with the nodes of the configuration.\<close>

definition InitialState ::
    "('db, 'txn) badger \<Rightarrow> raftpb \<Rightarrow> 'g replica \<Rightarrow> 'db \<Rightarrow> error + HardState \<times> uint64 list" where
  "InitialState B P r db =
     bindE (loadHardState B P (raftHardStateKey (rangeID r)) db) (\<lambda>hs.
       Inr (hs, if isEmptyHardState P hs then []
                else map (\<lambda>rep. scast (RepNodeID rep) + rangeID r) (Replicas (rangeDesc r))))"

subsection \<open>The log\<close>

text \<open>The loop of \<^verbatim>\<open>Entries\<close> over the pairs from \<^verbatim>\<open>skey\<close> on: the entries and \<^verbatim>\<open>expectedi\<close>.\<close>

fun entriesLoop ::
    "raftpb \<Rightarrow> bytes \<Rightarrow> (bytes \<times> bytes option) list \<Rightarrow> Entry list \<Rightarrow> uint64 \<Rightarrow> error + Entry list \<times> uint64"
where
  "entriesLoop P ekey [] ents expectedi = Inr (ents, expectedi)"
| "entriesLoop P ekey ((k, v) # kvs) ents expectedi =
     (if k > ekey then Inr (ents, expectedi)
      else bindE (entUnmarshal P (key_bytes v)) (\<lambda>ent.
             entriesLoop P ekey kvs (ents @ [ent]) (expectedi + 1)))"

definition Entries ::
    "('db, 'txn) badger \<Rightarrow> raftpb \<Rightarrow> uint64 \<Rightarrow> uint64 \<Rightarrow> uint64 \<Rightarrow> 'g replica \<Rightarrow> 'db \<Rightarrow> error + Entry list" where
  "Entries B P lo hi maxSize r db =
     (if lo \<ge> hi then Inl (Errorf ''Entries's parameter's invalid'')
      else if lo < raftOffsetIndex r then Inl ErrCompacted
      else let skey = raftLogKey (rangeID r) lo; ekey = raftLogKey (rangeID r) (hi - 1)
           in bindE (entriesLoop P ekey (Seek (rocksdb B) False skey db) [] lo) (\<lambda>(ents, expectedi).
                if of_nat (length ents) = hi - lo then Inr ents
                else if length ents > 0 then
                  if EIndex (ents ! 0) > lo then Inl ErrCompacted
                  else if LastIndex r \<le> expectedi then Inl ErrUnavailable
                  else Inl (Errorf ''there is a gap in the index record'')
                else Inr ents))"

definition Term ::
    "('db, 'txn) badger \<Rightarrow> raftpb \<Rightarrow> uint64 \<Rightarrow> 'g replica \<Rightarrow> 'db \<Rightarrow> error + uint64" where
  "Term B P i r db =
     bindE (Entries B P i (i + 1) 0 r db) (\<lambda>ents.
       if length ents = 0 then Inr (if i = raftTruncateIndex r then raftTruncateTerm r else 0)
       else Inr (ETerm (ents ! 0)))"

fun putEntries :: "('db, 'txn) badger \<Rightarrow> raftpb \<Rightarrow> Entry list \<Rightarrow> (('g, 'db) onDisk, error, unit) op" where
  "putEntries B P [] = ret ()"
| "putEntries B P (ent # ents) = (\<lambda>s.
     case entMarshal P ent of
       Inl err \<Rightarrow> (Inl err, s)
     | Inr val \<Rightarrow>
         bindM (onDb (Put (rocksdb B) (raftLogKey (rangeID (fst s)) (EIndex ent)) val))
           (\<lambda>_. putEntries B P ents) s)"

text \<open>
  The loop that deletes the entries after the appended ones. Its counter wraps around after the
  largest index, which only happens when that is the bound, and then the loop does not end.
\<close>

function clearEntries :: "('db, 'txn) badger \<Rightarrow> int64 \<Rightarrow> uint64 \<Rightarrow> uint64 \<Rightarrow> ('db, error, unit) op" where
  "clearEntries B rid i lasti =
     (if i \<le> lasti then
        bindM (Clear (rocksdb B) (raftLogKey rid i)) (\<lambda>_.
          if i = - 1 then fail Diverges else clearEntries B rid (i + 1) lasti)
      else ret ())"
  by pat_completeness auto
termination
proof (relation "measure (\<lambda>(B, rid, i, lasti). 2 ^ 64 - unat i)")
  fix i lasti :: uint64
  assume "i \<noteq> - 1"
  then have "unat (i + 1) = unat i + 1" by (metis Suc_eq_plus1 add.commute add_eq_0_iff unatSuc)
  moreover have "unat i < 2 ^ 64" using unat_word_bound [of i] by simp
  ultimately show "((B, rid, i + 1, lasti), B, rid, i, lasti)
      \<in> measure (\<lambda>(B, rid, i, lasti). 2 ^ 64 - unat i)" for B :: "('db, 'txn) badger" and rid
    by simp
qed simp

definition replica_append ::
    "('db, 'txn) badger \<Rightarrow> raftpb \<Rightarrow> Entry list \<Rightarrow> (('g, 'db) onDisk, error, unit) op" where
  "replica_append B P ents =
     (if length ents = 0 then ret ()
      else bindM (putEntries B P ents) (\<lambda>_.
           let lst = EIndex (ents ! (length ents - 1))
           in bindM (\<lambda>s. onDb (clearEntries B (rangeID (fst s)) (lst + 1) (raftLastIndex (fst s))) s) (\<lambda>_.
              setLastIndex (rocksdb B) lst)))"

definition compact :: "('db, 'txn) badger \<Rightarrow> uint64 \<Rightarrow> (('g, 'db) onDisk, error, unit) op" where
  "compact B index s =
     (case s of (r, db) \<Rightarrow>
        if index \<le> raftOffsetIndex r then (Inl (Errorf ''no need compact''), s)
        else if index > raftLastIndex r then (Inl (Errorf ''out of lastIndex''), s)
        else let skey = raftLogKey (rangeID r) 0; ekey = raftLogKey (rangeID r) index;
                 batch = newRocksDBBatch B db :: ('txn, unit) batch
             in case Iterate (rocksDBBatch B) skey ekey
                       (\<lambda>kv. bindM (Clear (rocksDBBatch B) (MKVKey kv)) (\<lambda>_. ret False)) batch batch of
                  (Inl err, _) \<Rightarrow> (Inl err, s)
                | (Inr _, batch) \<Rightarrow>
                    (case setOffsetIndex (rocksDBBatch B) index (r, batch) of
                       (Inl err, (r, _)) \<Rightarrow> (Inl err, (r, db))
                     | (Inr _, (r, batch)) \<Rightarrow>
                         (case rocksDBBatch_Commit B (batch, db) of
                            (Inl err, (_, db)) \<Rightarrow> (Inl err, (r, db))
                          | (Inr _, (_, db)) \<Rightarrow> (Inr (), (r, db)))))"

subsection \<open>Snapshots\<close>

fun dataLoop :: "bytes \<Rightarrow> (bytes \<times> bytes option) list \<Rightarrow> SnapshotKeyValues \<Rightarrow> SnapshotKeyValues" where
  "dataLoop stop [] kvs = kvs"
| "dataLoop stop ((k, v) # rest) kvs =
     (if k \<ge> stop then kvs else dataLoop stop rest (kvs @ [\<lparr>MKVKey = k, MKVValue = key_bytes v\<rparr>]))"

text \<open>\<^verbatim>\<open>data\<close>: the marshalled pairs of a snapshot of the engine between the keys of the descriptor.\<close>

definition snapshotData :: "('db, 'txn) badger \<Rightarrow> 'g replica \<Rightarrow> 'db \<Rightarrow> bytes" where
  "snapshotData B r db =
     SnapshotKeyValues_MarshalTo
       (dataLoop (EndKey (rangeDesc r))
         (Seek (rocksDBSnapshot B) False (StartKey (rangeDesc r)) (NewSnapshot B db)) [])"

text \<open>
  \<^verbatim>\<open>snapshot\<close>; \<open>nodes\<close> are the keys of \<^verbatim>\<open>r.raftGroup.Status().Progress\<close> in the order Go visits them.
\<close>

definition raftSnapshot ::
    "('db, 'txn) badger \<Rightarrow> raftpb \<Rightarrow> uint64 list \<Rightarrow> 'g replica \<Rightarrow> 'db \<Rightarrow> error + RaftSnapshot" where
  "raftSnapshot B P nodes r db =
     bindE (loadAppliedIndex B r db) (\<lambda>index.
     bindE (Term B P index r db) (\<lambda>tm.
       Inr \<lparr>SnapData = snapshotData B r db,
            SnapMeta = \<lparr>ConfNodes = nodes, SMIndex = index, SMTerm = tm\<rparr>\<rparr>))"

fun clearLoop :: "('db, 'txn) badger \<Rightarrow> bytes \<Rightarrow> (bytes \<times> bytes option) list \<Rightarrow> ('db, error, unit) op" where
  "clearLoop B stop [] = ret ()"
| "clearLoop B stop ((k, v) # kvs) =
     (if k \<ge> stop then ret () else bindM (Clear (rocksdb B) k) (\<lambda>_. clearLoop B stop kvs))"

definition replica_clear :: "('db, 'txn) badger \<Rightarrow> (('g, 'db) onDisk, error, unit) op" where
  "replica_clear B s =
     (case s of (r, db) \<Rightarrow>
        onDb (clearLoop B (EndKey (rangeDesc r)) (Seek (rocksdb B) False (StartKey (rangeDesc r)) db)) s)"

text \<open>The two assignments that reset the statistics; a missing entry is a nil pointer.\<close>

definition resetStats :: "('e estate, error, unit) op" where
  "resetStats s =
     (case rstats s of
        None \<Rightarrow> (Inl NilPointer, s)
      | Some rs \<Rightarrow> (Inr (), s\<lparr>rstats := Some (rs\<lparr>TotalBytes := 0, TotalCount := 0\<rparr>)\<rparr>))"

fun applyPairs :: "('db, 'txn) badger \<Rightarrow> SnapshotKeyValues \<Rightarrow> ('db estate, error, unit) op" where
  "applyPairs B [] = ret ()"
| "applyPairs B (kv # kvs) =
     bindM (updateStatsDeref True 0 0 (length (MKVKey kv)) (length (MKVValue kv))) (\<lambda>_.
     bindM (onEng (Put (rocksdb B) (MKVKey kv) (MKVValue kv))) (\<lambda>_.
     applyPairs B kvs))"

definition applySnapshot ::
    "('db, 'txn) badger \<Rightarrow> RaftSnapshot \<Rightarrow> (('g, 'db estate) onDisk, error, unit) op" where
  "applySnapshot B snap s =
     (case SnapshotKeyValues_Unmarshal [] (SnapData snap) of
        Inl err \<Rightarrow> (Inl (protoError err), s)
      | Inr kvs \<Rightarrow>
          bindM (onStore (replica_clear B)) (\<lambda>_.
          bindM (onDb resetStats) (\<lambda>_.
          bindM (onDb (applyPairs B kvs)) (\<lambda>_.
          bindM (onStore (setLastIndex (rocksdb B) (SMIndex (SnapMeta snap)))) (\<lambda>_.
          bindM (onStore (setAppliedIndex (rocksdb B) (SMIndex (SnapMeta snap)))) (\<lambda>_ s.
          (Inr (), (fst s)\<lparr>raftTruncateIndex := SMIndex (SnapMeta snap),
                          raftTruncateTerm := SMTerm (SnapMeta snap)\<rparr>, snd s)))))) s)"

section \<open>Contracts\<close>

text \<open>
  What the code relies on in the encodings: entries of moderate size and hard states marshal to
  non-empty values that fit the store and unmarshal to what they were; the empty hard state is
  the zero one.
\<close>

definition raftpb_laws :: "raftpb \<Rightarrow> bool" where
  "raftpb_laws P \<longleftrightarrow>
     (\<forall>ent. length (EData ent) \<le> 2 ^ 19 \<longrightarrow>
        (\<exists>b. entMarshal P ent = Inr b \<and> b \<noteq> [] \<and> length b \<le> 2 ^ 20 \<and> entUnmarshal P b = Inr ent)) \<and>
     (\<forall>hs. \<exists>b. hsMarshal P hs = Inr b \<and> b \<noteq> [] \<and> length b \<le> 2 ^ 20 \<and> hsUnmarshal P b = Inr hs) \<and>
     (\<forall>hs. isEmptyHardState P hs \<longleftrightarrow> hs = zero_hs)"

lemma raftpb_entry:
  assumes "raftpb_laws P" "length (EData ent) \<le> 2 ^ 19"
  obtains b where "entMarshal P ent = Inr b" "b \<noteq> []" "length b \<le> 2 ^ 20" "entUnmarshal P b = Inr ent"
  using assms unfolding raftpb_laws_def by blast

lemma raftpb_hs:
  assumes "raftpb_laws P"
  obtains b where "hsMarshal P hs = Inr b" "b \<noteq> []" "length b \<le> 2 ^ 20" "hsUnmarshal P b = Inr hs"
  using assms unfolding raftpb_laws_def by blast

section \<open>Indices\<close>

lemma onDb_simps [simp]:
  "m e = (x, e') \<Longrightarrow> onDb m (r, e) = (x, (r, e'))"
  by (simp add: onDb_def)

lemma onStore_simps [simp]:
  "m (r, eng es) = (x, (r', e')) \<Longrightarrow> onStore m (r, es) = (x, (r', es\<lparr>eng := e'\<rparr>))"
  by (simp add: onStore_def)

lemma indexValue_fields:
  "indexValue i \<noteq> [] \<and> length (indexValue i) \<le> 100 \<and>
   Value_Unmarshal zero_value (indexValue i) = Inr (SetInt i zero_value)"
proof -
  have size: "Value_Size (SetInt i zero_value) \<le> 100"
    using sov_max [of 1]
    by (simp add: Value_Size_def SetInt_def zero_value_def bytesFieldSize_def sov.simps [of 8] Let_def)
  then have "Value_Size (SetInt i zero_value) < 2 ^ 63" by simp
  from Value_roundtrip [OF this] size show ?thesis
    by (auto simp: indexValue_def Value_MarshalTo_def SetInt_def zero_value_def bytesField_def
        EncodeUint64_def simp flip: Value_Size)
qed

lemma GetInt_SetInt [simp]: "GetInt (SetInt i v) = Inr i"
  using DecodeUint64_Encode [of i "[]"] by (simp add: GetInt_def SetInt_def)

lemma fits_index: "storable k \<Longrightarrow> fits k (indexValue i)"
  using indexValue_fields [of i] by (simp add: fits_def)

lemmas set_index_defs = setOffsetIndex_def setAppliedIndex_def setLastIndex_def

context engine_write
begin

lemma set_index_laws:
  assumes "live e"
  shows
    "\<exists>e'. setOffsetIndex E i (r, e) = (Inr (), (r\<lparr>raftOffsetIndex := i\<rparr>, e')) \<and> live e' \<and>
       view e' = (view e)(raftOffsetIndexKey (rangeID r) \<mapsto> indexValue i)"
    "\<exists>e'. setAppliedIndex E i (r, e) = (Inr (), (r\<lparr>raftAppliedIndex := i\<rparr>, e')) \<and> live e' \<and>
       view e' = (view e)(raftAppliedIndexKey (rangeID r) \<mapsto> indexValue i)"
    "\<exists>e'. setLastIndex E i (r, e) = (Inr (), (r\<lparr>raftLastIndex := i\<rparr>, e')) \<and> live e' \<and>
       view e' = (view e)(raftLastIndexKey (rangeID r) \<mapsto> indexValue i)"
  using Put_law [OF assms fits_index [OF raft_keys_storable(2)], of "rangeID r" i]
    Put_law [OF assms fits_index [OF raft_keys_storable(3)], of "rangeID r" i]
    Put_law [OF assms fits_index [OF raft_keys_storable(4)], of "rangeID r" i]
  by (auto simp: set_index_defs)

end

context badger_laws
begin

lemma loadIndex_found: "dview db k = Some (indexValue i) \<Longrightarrow> loadIndex B k db = Inr i"
  using indexValue_fields [of i] rocks.Get_found [of db k "indexValue i"]
  by (simp add: loadIndex_def)

lemma loadIndex_missing: "storable k \<Longrightarrow> dview db k = None \<Longrightarrow> loadIndex B k db = Inr 0"
  using rocks.Get_missing [of k db] by (simp add: loadIndex_def)

end

section \<open>Reading the log\<close>

text \<open>The log as a map from indices to entries, and the shape of the part of the store that holds it.\<close>

definition raft_log :: "raftpb \<Rightarrow> (bytes \<rightharpoonup> bytes) \<Rightarrow> int64 \<Rightarrow> uint64 \<rightharpoonup> Entry" where
  "raft_log P m rid i =
     (case m (raftLogKey rid i) of
        None \<Rightarrow> None
      | Some b \<Rightarrow> (case entUnmarshal P b of Inl _ \<Rightarrow> None | Inr ent \<Rightarrow> Some ent))"

definition max_index :: uint64 where
  "max_index = 10 ^ 16 - 1"

definition wf_log :: "raftpb \<Rightarrow> (bytes \<rightharpoonup> bytes) \<Rightarrow> int64 \<Rightarrow> bool" where
  "wf_log P m rid \<longleftrightarrow> (\<forall>x b. m x = Some b \<and> raftLogKey rid 0 \<le> x \<and> x \<le> raftLogKey rid max_index \<longrightarrow>
     (\<exists>i ent. index_ok i \<and> x = raftLogKey rid i \<and> b \<noteq> [] \<and> entUnmarshal P b = Inr ent \<and> EIndex ent = i))"

text \<open>The indices from \<open>lo\<close> below \<open>hi\<close>.\<close>

definition indices :: "uint64 \<Rightarrow> uint64 \<Rightarrow> uint64 list" where
  "indices lo hi = map of_nat [unat lo..<unat hi]"

text \<open>What \<^verbatim>\<open>Entries\<close> is to return, given the log.\<close>

definition entries_spec ::
    "(uint64 \<rightharpoonup> Entry) \<Rightarrow> uint64 \<Rightarrow> uint64 \<Rightarrow> uint64 \<Rightarrow> uint64 \<Rightarrow> error + Entry list" where
  "entries_spec L offset lst lo hi =
     (let present = filter (\<lambda>i. L i \<noteq> None) (indices lo hi)
      in if lo < offset then Inl ErrCompacted
         else if present = indices lo hi \<or> present = [] then Inr (map (the \<circ> L) present)
         else if hd present > lo then Inl ErrCompacted
         else if lst \<le> lo + of_nat (length present) then Inl ErrUnavailable
         else Inl (Errorf ''there is a gap in the index record''))"

lemma index_ok_mono: "i \<le> j \<Longrightarrow> index_ok j \<Longrightarrow> index_ok i"
  by (auto simp: index_ok_unat word_le_nat_alt)

lemma index_ok_max: "index_ok i \<longleftrightarrow> i \<le> max_index"
  by (simp add: index_ok_unat word_le_nat_alt max_index_def) linarith

lemma unat_of_nat_below: "n < unat (w :: 'a::len word) \<Longrightarrow> unat (of_nat n :: 'a word) = n"
  by (metis mod_less order.strict_trans unat_of_nat unat_word_bound)

lemma set_indices: "i \<in> set (indices lo hi) \<longleftrightarrow> lo \<le> i \<and> i < hi"
proof
  assume "i \<in> set (indices lo hi)"
  then obtain n where "i = of_nat n" "unat lo \<le> n" "n < unat hi" by (auto simp: indices_def)
  then show "lo \<le> i \<and> i < hi" by (simp add: word_le_nat_alt word_less_nat_alt unat_of_nat_below)
next
  assume "lo \<le> i \<and> i < hi"
  then have "i = of_nat (unat i)" "unat i \<in> set [unat lo..<unat hi]"
    by (simp_all add: word_le_nat_alt word_less_nat_alt)
  then show "i \<in> set (indices lo hi)" unfolding indices_def set_map by blast
qed

lemma sorted_indices: "sorted_wrt (<) (indices lo hi)"
proof -
  have "sorted_wrt (\<lambda>x y. of_nat x < (of_nat y :: uint64)) [unat lo..<unat hi]"
  proof (rule sorted_wrt_mono_rel [OF _ sorted_wrt_upt])
    fix x y
    assume "x \<in> set [unat lo..<unat hi]" "y \<in> set [unat lo..<unat hi]" "x < y"
    then show "of_nat x < (of_nat y :: uint64)"
      using unat_of_nat_below [of x hi] unat_of_nat_below [of y hi] by (simp add: word_less_nat_alt)
  qed
  then show ?thesis by (simp add: indices_def sorted_wrt_map)
qed

lemma length_indices: "length (indices lo hi) = unat hi - unat lo"
  by (simp add: indices_def)

lemma entriesLoop_takeWhile:
  assumes "\<And>k v. (k, v) \<in> set kvs \<Longrightarrow> k \<le> ekey \<Longrightarrow> entUnmarshal P (key_bytes v) = Inr (f k)"
  shows "entriesLoop P ekey kvs ents n =
    (let ks = takeWhile (\<lambda>k. k \<le> ekey) (map fst kvs)
     in Inr (ents @ map f ks, n + of_nat (length ks)))"
  using assms
proof (induction kvs arbitrary: ents n)
  case (Cons kv kvs)
  obtain k v where kv: "kv = (k, v)" by (cases kv)
  show ?case
  proof (cases "k \<le> ekey")
    case True
    have u: "entUnmarshal P (key_bytes v) = Inr (f k)" using Cons.prems [of k v] kv True by simp
    have "entriesLoop P ekey kvs (ents @ [f k]) (n + 1) =
      (let ks = takeWhile (\<lambda>k. k \<le> ekey) (map fst kvs)
       in Inr ((ents @ [f k]) @ map f ks, n + 1 + of_nat (length ks)))"
      by (rule Cons.IH) (use Cons.prems in auto)
    with u kv True show ?thesis by (simp add: Let_def not_less algebra_simps)
  qed (simp add: kv not_le)
qed simp

lemma sorted_takeWhile_le: "sorted xs \<Longrightarrow> takeWhile (\<lambda>x. x \<le> b) xs = filter (\<lambda>x. x \<le> (b :: 'a::linorder)) xs"
proof (induction xs)
  case (Cons x xs)
  then have "b < x \<Longrightarrow> filter (\<lambda>y. y \<le> b) xs = []"
    by (simp add: filter_empty_conv not_le) (meson order.strict_trans2)
  with Cons show ?case by (auto simp: not_le)
qed simp

lemma less_iff_le_pred: "lo < hi \<Longrightarrow> i < hi \<longleftrightarrow> i \<le> hi - (1 :: 'a::len word)"
proof -
  assume "lo < hi"
  then have "hi \<noteq> 0" by auto
  from unat_minus_one [OF this] \<open>lo < hi\<close> show ?thesis
    by (auto simp: word_less_nat_alt word_le_nat_alt)
qed

lemma log_keys:
  assumes "finite (dom m)" "range_ok rid" "index_ok (hi - 1)" "lo < hi" "wf_log P m rid"
  shows "sorted_list_of_set {x \<in> dom m. raftLogKey rid lo \<le> x \<and> x \<le> raftLogKey rid (hi - 1)}
    = map (raftLogKey rid) (filter (\<lambda>i. raft_log P m rid i \<noteq> None) (indices lo hi))" (is "?S = map _ ?I")
proof (rule sorted_distinct_set_unique)
  have ok: "index_ok i" if "i < hi" for i
    using index_ok_mono [OF _ assms(3), of i] that less_iff_le_pred [OF assms(4), of i] by blast
  have I: "i \<in> set ?I \<longleftrightarrow> raft_log P m rid i \<noteq> None \<and> lo \<le> i \<and> i < hi" for i
    by (auto simp: set_indices)
  have "sorted_wrt (<) ?I" by (rule sorted_wrt_filter [OF sorted_indices])
  then have "sorted_wrt (\<lambda>i j. raftLogKey rid i < raftLogKey rid j) ?I"
    by (rule sorted_wrt_mono_rel [rotated]) (use I ok assms(2) in \<open>auto simp: raftLogKey_less_iff\<close>)
  then have s: "sorted_wrt (<) (map (raftLogKey rid) ?I)" by (simp add: sorted_wrt_map)
  then show "sorted (map (raftLogKey rid) ?I)" "distinct (map (raftLogKey rid) ?I)"
    by (simp_all add: strict_sorted_iff)
  have zero: "raftLogKey rid 0 \<le> raftLogKey rid lo" "raftLogKey rid (hi - 1) \<le> raftLogKey rid max_index"
    using assms(2-4) ok [of lo] by (simp_all add: raftLogKey_le_iff index_ok_max)
  show "set ?S = set (map (raftLogKey rid) ?I)"
  proof (intro set_eqI iffI)
    fix x assume "x \<in> set ?S"
    then have x: "x \<in> dom m" "raftLogKey rid lo \<le> x" "x \<le> raftLogKey rid (hi - 1)"
      using assms(1) by simp_all
    then obtain b where b: "m x = Some b" by blast
    with x zero obtain i ent where i: "index_ok i" "x = raftLogKey rid i" "entUnmarshal P b = Inr ent"
      using assms(5) unfolding wf_log_def by (meson order_trans)
    then have "raft_log P m rid i \<noteq> None" using b by (simp add: raft_log_def)
    moreover have "lo \<le> i \<and> i \<le> hi - 1"
      using x i assms(2,3) ok [OF assms(4)] by (simp add: raftLogKey_le_iff)
    ultimately show "x \<in> set (map (raftLogKey rid) ?I)"
      using i(2) I [of i] assms(4) by (auto simp: less_iff_le_pred)
  next
    fix x assume "x \<in> set (map (raftLogKey rid) ?I)"
    then obtain i where i: "x = raftLogKey rid i" "i \<in> set ?I" by auto
    then have p: "raft_log P m rid i \<noteq> None" "lo \<le> i" "i \<le> hi - 1" "i < hi"
      using I less_iff_le_pred [OF assms(4)] by blast+
    then have "raftLogKey rid lo \<le> x" "x \<le> raftLogKey rid (hi - 1)"
      using i(1) assms(2,3,4) ok by (simp_all add: raftLogKey_le_iff)
    moreover have "x \<in> dom m" using p(1) i(1) by (auto simp: raft_log_def split: option.splits)
    ultimately show "x \<in> set ?S" using assms(1) by simp
  qed
qed (use assms(1) in simp_all)

lemma all_present:
  assumes "lo < hi"
  shows "of_nat (length (filter Q (indices lo hi))) = hi - lo \<longleftrightarrow> filter Q (indices lo hi) = indices lo hi"
proof -
  let ?n = "length (filter Q (indices lo hi))"
  have sub: "unat (hi - lo) = unat hi - unat lo"
    using assms by (simp add: unat_sub word_less_nat_alt word_le_nat_alt)
  have le: "?n \<le> unat hi - unat lo"
    using length_filter_le [of Q "indices lo hi"] by (simp add: length_indices)
  then have "?n < 2 ^ 64" using unat_word_bound [of hi] by simp
  then have u: "unat (of_nat ?n :: uint64) = ?n" by (simp add: unat_of_nat)
  have "of_nat ?n = hi - lo \<longleftrightarrow> ?n = length (indices lo hi)"
    unfolding word_unat_eq_iff u sub length_indices by (rule refl)
  also have "\<dots> \<longleftrightarrow> filter Q (indices lo hi) = indices lo hi"
    using length_filter_less [of _ "indices lo hi" Q] filter_id_conv [of Q "indices lo hi"] by force
  finally show ?thesis .
qed

context badger_laws
begin

lemma Entries_loop:
  assumes "range_ok rid" "index_ok (hi - 1)" "lo < hi" "wf_log P (dview db) rid"
  shows "entriesLoop P (raftLogKey rid (hi - 1)) (Seek (rocksdb B) False (raftLogKey rid lo) db) [] lo
    = (let present = filter (\<lambda>i. raft_log P (dview db) rid i \<noteq> None) (indices lo hi)
       in Inr (map (the \<circ> raft_log P (dview db) rid) present, lo + of_nat (length present)))"
proof -
  let ?m = "dview db" and ?ekey = "raftLogKey rid (hi - 1)" and ?S = "Seek (rocksdb B) False (raftLogKey rid lo) db"
  let ?P = "filter (\<lambda>i. raft_log P (dview db) rid i \<noteq> None) (indices lo hi)"
  let ?f = "\<lambda>k. projr (entUnmarshal P (the (?m k)))"
  have fin: "finite {x \<in> dom ?m. raftLogKey rid lo \<le> x}" using finite_view(1) [of db] by simp
  have okl: "index_ok lo" using assms(2,3) less_iff_le_pred [OF assms(3)] index_ok_mono by blast
  have ok: "raftLogKey rid 0 \<le> raftLogKey rid lo" "?ekey \<le> raftLogKey rid max_index"
    using assms(1,2) okl by (simp_all add: raftLogKey_le_iff index_ok_max)
  have keys: "map fst ?S = sorted_list_of_set {x \<in> dom ?m. raftLogKey rid lo \<le> x}"
    by (rule rocks.Seek_keys) simp
  have "takeWhile (\<lambda>k. k \<le> ?ekey) (map fst ?S)
      = sorted_list_of_set {x \<in> dom ?m. raftLogKey rid lo \<le> x \<and> x \<le> ?ekey}"
    unfolding keys by (simp add: sorted_takeWhile_le sorted_list_of_set_filter [OF fin] conj_assoc)
  then have taken: "takeWhile (\<lambda>k. k \<le> ?ekey) (map fst ?S) = map (raftLogKey rid) ?P"
    using log_keys [OF finite_view(1) assms] by simp
  have "entUnmarshal P (key_bytes v) = Inr (?f k)" if kv: "(k, v) \<in> set ?S" "k \<le> ?ekey" for k v
  proof -
    have "k \<in> set (map fst ?S)" using kv(1) by force
    then have k: "k \<in> dom ?m" "raftLogKey rid lo \<le> k" unfolding keys using fin by auto
    then obtain b where b: "?m k = Some b" by blast
    with k(2) kv(2) ok obtain ent where "b \<noteq> []" "entUnmarshal P b = Inr ent"
      using assms(4) unfolding wf_log_def by (meson order_trans)
    with rocks.Seek_vals [OF TrueI kv(1) b] b show ?thesis by (simp add: key_bytes_def)
  qed
  from entriesLoop_takeWhile [of ?S ?ekey P ?f "[]" lo, OF this]
  have "entriesLoop P ?ekey ?S [] lo = Inr (map (?f \<circ> raftLogKey rid) ?P, lo + of_nat (length ?P))"
    by (simp add: taken Let_def)
  moreover have "(?f \<circ> raftLogKey rid) i = the (raft_log P ?m rid i)" if "i \<in> set ?P" for i
    using that by (auto simp: raft_log_def split: option.splits sum.splits)
  ultimately show ?thesis by (simp add: Let_def cong: map_cong)
qed

lemma present_index:
  assumes "range_ok rid" "index_ok i" "wf_log P m rid" "raft_log P m rid i = Some ent"
  shows "EIndex ent = i"
proof -
  obtain b where b: "m (raftLogKey rid i) = Some b" "entUnmarshal P b = Inr ent"
    using assms(4) by (auto simp: raft_log_def split: option.splits sum.splits)
  moreover have "raftLogKey rid 0 \<le> raftLogKey rid i" "raftLogKey rid i \<le> raftLogKey rid max_index"
    using assms(1,2) by (simp_all add: raftLogKey_le_iff index_ok_max)
  ultimately obtain j where "index_ok j" "raftLogKey rid i = raftLogKey rid j" "EIndex ent = j"
    using assms(3) unfolding wf_log_def by fastforce
  with raftLogKey_inject [OF assms(1,2)] show ?thesis by blast
qed

lemma Entries_law:
  assumes "range_ok (rangeID r)" "index_ok (hi - 1)" "lo < hi" "wf_log P (dview db) (rangeID r)"
  shows "Entries B P lo hi mx r db
    = entries_spec (raft_log P (dview db) (rangeID r)) (raftOffsetIndex r) (raftLastIndex r) lo hi"
proof -
  let ?L = "raft_log P (dview db) (rangeID r)"
  let ?P = "filter (\<lambda>i. ?L i \<noteq> None) (indices lo hi)"
  note all = all_present [OF assms(3), of "\<lambda>i. ?L i \<noteq> None"]
  have head: "EIndex (the (?L (hd ?P))) = hd ?P" if "?P \<noteq> []"
  proof -
    have "hd ?P \<in> {i \<in> set (indices lo hi). ?L i \<noteq> None}"
      using hd_in_set [OF that] unfolding set_filter .
    then have p: "?L (hd ?P) \<noteq> None" "hd ?P < hi" unfolding mem_Collect_eq set_indices by blast+
    then have "index_ok (hd ?P)" using assms(2,3) less_iff_le_pred index_ok_mono by blast
    with present_index [OF assms(1) _ assms(4)] p(1) show ?thesis by auto
  qed
  have nle: "\<not> hi \<le> lo" using assms(3) by simp
  show ?thesis
  proof (cases "?P = []")
    case True
    then show ?thesis
      using Entries_loop [OF assms] nle all
      unfolding Entries_def entries_spec_def Let_def by simp
  next
    case False
    then have "EIndex (map (the \<circ> ?L) ?P ! 0) = hd ?P" using head by (simp add: hd_conv_nth)
    with False show ?thesis
      using Entries_loop [OF assms] nle all
      unfolding Entries_def entries_spec_def Let_def LastIndex_def by simp
  qed
qed

end

section \<open>Writing the log\<close>

text \<open>What appending does to the content: each entry is stored under its index, later ones win.\<close>

definition entBytes :: "raftpb \<Rightarrow> Entry \<Rightarrow> bytes" where
  "entBytes P ent = projr (entMarshal P ent)"

fun put_entries :: "raftpb \<Rightarrow> int64 \<Rightarrow> Entry list \<Rightarrow> (bytes \<rightharpoonup> bytes) \<Rightarrow> bytes \<rightharpoonup> bytes" where
  "put_entries P rid [] m = m"
| "put_entries P rid (ent # ents) m =
     put_entries P rid ents (m(raftLogKey rid (EIndex ent) \<mapsto> entBytes P ent))"

definition entry_ok :: "Entry \<Rightarrow> bool" where
  "entry_ok ent \<longleftrightarrow> index_ok (EIndex ent) \<and> length (EData ent) \<le> 2 ^ 19"

fun log_update :: "Entry list \<Rightarrow> (uint64 \<rightharpoonup> Entry) \<Rightarrow> uint64 \<rightharpoonup> Entry" where
  "log_update [] L = L"
| "log_update (ent # ents) L = log_update ents (L(EIndex ent \<mapsto> ent))"

lemma log_update_cong: "K i = K' i \<Longrightarrow> log_update ents K i = log_update ents K' i"
proof (induction ents arbitrary: K K')
  case (Cons ent ents)
  show ?case unfolding log_update.simps by (rule Cons.IH) (simp add: Cons.prems)
qed simp

lemma raft_log_put:
  assumes "raftpb_laws P" "range_ok rid" "entry_ok ent" "index_ok i"
  shows "raft_log P (m(raftLogKey rid (EIndex ent) \<mapsto> entBytes P ent)) rid i
    = ((raft_log P m rid)(EIndex ent \<mapsto> ent)) i"
proof -
  obtain b where "entMarshal P ent = Inr b" "entUnmarshal P b = Inr ent"
    using raftpb_entry [OF assms(1), of ent] assms(3) by (auto simp: entry_ok_def)
  with assms show ?thesis by (auto simp: raft_log_def entBytes_def entry_ok_def raftLogKey_inject)
qed

lemma wf_log_put:
  assumes "raftpb_laws P" "entry_ok ent" "wf_log P m rid"
  shows "wf_log P (m(raftLogKey rid (EIndex ent) \<mapsto> entBytes P ent)) rid"
proof -
  obtain b where b: "entMarshal P ent = Inr b" "b \<noteq> []" "entUnmarshal P b = Inr ent"
    using raftpb_entry [OF assms(1), of ent] assms(2) by (auto simp: entry_ok_def)
  have "index_ok (EIndex ent)" using assms(2) by (simp add: entry_ok_def)
  with b assms(3) show ?thesis unfolding wf_log_def by (auto simp: entBytes_def)
qed

lemma put_entries_log:
  assumes "raftpb_laws P" "range_ok rid" "\<forall>ent \<in> set ents. entry_ok ent" "wf_log P m rid"
  shows "wf_log P (put_entries P rid ents m) rid \<and>
    (\<forall>i. index_ok i \<longrightarrow> raft_log P (put_entries P rid ents m) rid i = log_update ents (raft_log P m rid) i)"
  using assms(3,4)
proof (induction ents arbitrary: m)
  case (Cons ent ents)
  let ?m = "m(raftLogKey rid (EIndex ent) \<mapsto> entBytes P ent)"
  have L: "raft_log P ?m rid i = ((raft_log P m rid)(EIndex ent \<mapsto> ent)) i" if "index_ok i" for i
    using raft_log_put [OF assms(1,2) _ that] Cons.prems by simp
  have "wf_log P ?m rid" using wf_log_put [OF assms(1)] Cons.prems by simp
  from Cons.IH [OF _ this] Cons.prems(1) have "wf_log P (put_entries P rid ents ?m) rid"
    "\<forall>i. index_ok i \<longrightarrow> raft_log P (put_entries P rid ents ?m) rid i = log_update ents (raft_log P ?m rid) i"
    by fastforce+
  moreover have "log_update ents (raft_log P ?m rid) i = log_update ents ((raft_log P m rid)(EIndex ent \<mapsto> ent)) i"
    if "index_ok i" for i by (rule log_update_cong) (rule L [OF that])
  ultimately show ?case unfolding put_entries.simps log_update.simps by simp
qed simp

lemma log_update_notin: "i \<notin> EIndex ` set ents \<Longrightarrow> log_update ents L i = L i"
  by (induction ents arbitrary: L) auto

lemma log_update_nth:
  "distinct (map EIndex ents) \<Longrightarrow> ent \<in> set ents \<Longrightarrow> log_update ents L (EIndex ent) = Some ent"
proof (induction ents arbitrary: L)
  case (Cons e es)
  show ?case
  proof (cases "ent = e")
    case True
    with Cons.prems log_update_notin [of "EIndex e" es "L(EIndex e \<mapsto> e)"] show ?thesis by simp
  next
    case False
    with Cons show ?thesis by simp
  qed
qed simp

text \<open>A key outside the log of the range keeps its value.\<close>

lemma put_entries_other:
  "\<forall>ent \<in> set ents. k \<noteq> raftLogKey rid (EIndex ent) \<Longrightarrow> put_entries P rid ents m k = m k"
  by (induction ents arbitrary: m) auto

declare clearEntries.simps [simp del]

context badger_laws
begin

lemma putEntries_law:
  assumes "raftpb_laws P" "\<forall>ent \<in> set ents. entry_ok ent"
  shows "\<exists>db'. putEntries B P ents (r, db) = (Inr (), (r, db')) \<and>
    dview db' = put_entries P (rangeID r) ents (dview db)"
  using assms(2)
proof (induction ents arbitrary: db)
  case (Cons ent ents)
  obtain b where b: "entMarshal P ent = Inr b" "b \<noteq> []" "length b \<le> 2 ^ 20"
    using raftpb_entry [OF assms(1), of ent] Cons.prems by (auto simp: entry_ok_def)
  then have "fits (raftLogKey (rangeID r) (EIndex ent)) b" by (simp add: fits_def)
  from rocks.Put_law [OF TrueI this, of db] obtain db1 where db1:
    "Put (rocksdb B) (raftLogKey (rangeID r) (EIndex ent)) b db = (Inr (), db1)"
    "dview db1 = (dview db)(raftLogKey (rangeID r) (EIndex ent) \<mapsto> b)" by blast
  obtain db' where "putEntries B P ents (r, db1) = (Inr (), (r, db'))"
    "dview db' = put_entries P (rangeID r) ents (dview db1)" using Cons.IH [of db1] Cons.prems by auto
  with db1(1) b(1) show ?case unfolding db1(2) by (intro exI [of _ db']) (simp add: entBytes_def)
qed simp

lemma clearEntries_keeps:
  assumes "index_ok lasti"
  shows "clearEntries B rid i lasti db = (Inr (), db)"
proof (induction "Suc (unat lasti) - unat i" arbitrary: i)
  case 0
  then have "\<not> i \<le> lasti" by (simp add: word_le_nat_alt)
  then show ?case by (simp add: clearEntries.simps [of B rid i])
next
  case (Suc n)
  then have "unat i \<le> unat lasti" by simp
  moreover have "unat lasti < 10 ^ 16" using assms by (simp add: index_ok_unat)
  ultimately have "i \<le> lasti" "unat i < 10 ^ 16" by (simp_all add: word_le_nat_alt)
  then have "i \<noteq> - 1" "unat (i + 1) = unat i + 1"
    by (auto simp: unat_word_ariths unsigned_minus_1_eq_mask mask_eq_exp_minus_1)
  with Suc \<open>i \<le> lasti\<close> show ?case
    by (simp add: clearEntries.simps [of B rid i] rocks.Clear_keeps)
qed

lemma replica_append_law:
  assumes "raftpb_laws P" "ents \<noteq> []" "\<forall>ent \<in> set ents. entry_ok ent" "index_ok (raftLastIndex r)"
  shows "\<exists>db'. replica_append B P ents (r, db) = (Inr (), (r\<lparr>raftLastIndex := EIndex (last ents)\<rparr>, db')) \<and>
    dview db' = (put_entries P (rangeID r) ents (dview db))
      (raftLastIndexKey (rangeID r) \<mapsto> indexValue (EIndex (last ents)))"
proof -
  obtain db1 where db1: "putEntries B P ents (r, db) = (Inr (), (r, db1))"
    "dview db1 = put_entries P (rangeID r) ents (dview db)" using putEntries_law [OF assms(1,3)] by blast
  obtain db2 where "setLastIndex (rocksdb B) (EIndex (last ents)) (r, db1)
      = (Inr (), (r\<lparr>raftLastIndex := EIndex (last ents)\<rparr>, db2))"
    "dview db2 = (dview db1)(raftLastIndexKey (rangeID r) \<mapsto> indexValue (EIndex (last ents)))"
    using rocks.set_index_laws(3) [OF TrueI, of _ r db1] by blast
  with db1 assms(2) show ?thesis
    by (simp add: replica_append_def Let_def clearEntries_keeps [OF assms(4)] last_conv_nth)
qed

end

section \<open>Compaction\<close>

context engine_clear
begin

lemma iterate_clear:
  assumes "live e" "\<forall>(k, v) \<in> set kvs. storable k"
  shows "\<exists>e'. iterateLoop stop (\<lambda>kv. bindM (Clear E (MKVKey kv)) (\<lambda>_. ret False)) kvs e = (Inr (), e') \<and>
    live e' \<and> view e' = view e |` (- fst ` set (takeWhile (\<lambda>(k, v). k < stop) kvs))"
  using assms
proof (induction kvs arbitrary: e)
  case (Cons kv kvs)
  obtain k v where kv: "kv = (k, v)" by (cases kv)
  show ?case
  proof (cases "k < stop")
    case True
    have "storable k" and rest: "\<forall>(k, v) \<in> set kvs. storable k" using Cons.prems(2) kv by simp_all
    from Clear_law [OF Cons.prems(1) \<open>storable k\<close>] obtain e1 where e1:
      "Clear E k e = (Inr (), e1)" "view e1 = (view e)(k := None)" "live e1" by blast
    obtain e' where e': "iterateLoop stop (\<lambda>kv. bindM (Clear E (MKVKey kv)) (\<lambda>_. ret False)) kvs e1 = (Inr (), e')"
      "live e'" "view e' = view e1 |` (- fst ` set (takeWhile (\<lambda>(k, v). k < stop) kvs))"
      using Cons.IH [OF e1(3) rest] by blast
    have "bindM (Clear E k) (\<lambda>_. ret False) e = (Inr False, e1)" using e1(1) by simp
    with e'(1) True kv have "iterateLoop stop (\<lambda>kv. bindM (Clear E (MKVKey kv)) (\<lambda>_. ret False)) (kv # kvs) e
        = (Inr (), e')" by (simp del: ret_apply)
    moreover have "view e' = view e |` (- fst ` set (takeWhile (\<lambda>(k, v). k < stop) (kv # kvs)))"
      using True kv by (auto simp: e'(3) e1(2) restrict_map_def fun_eq_iff)
    ultimately show ?thesis using e'(2) by blast
  qed (use Cons.prems kv in \<open>auto simp: restrict_map_def\<close>)
qed (simp add: restrict_map_def)

lemma Iterate_clear:
  assumes "live e" "\<forall>x \<in> dom (view e). storable x"
  shows "\<exists>e'. Iterate E start stop (\<lambda>kv. bindM (Clear E (MKVKey kv)) (\<lambda>_. ret False)) e e = (Inr (), e') \<and>
    live e' \<and> view e' = view e |` (- {x. start \<le> x \<and> x < stop})"
proof (cases "start \<ge> stop")
  case True
  then have none: "{x. start \<le> x \<and> x < stop} = {}" by auto
  show ?thesis unfolding none using True assms(1) by (simp add: Iterate_def restrict_map_def)
next
  case False
  let ?S = "Seek E False start e"
  have fin: "finite {x \<in> dom (view e). start \<le> x}" using finite_dom [OF assms(1)] by simp
  have "storable k" if "(k, v) \<in> set ?S" for k v
  proof -
    have "k \<in> set (map fst ?S)" using that by force
    then show ?thesis using assms(2) fin unfolding Seek_keys [OF assms(1)] by simp
  qed
  then obtain e' where e': "iterateLoop stop (\<lambda>kv. bindM (Clear E (MKVKey kv)) (\<lambda>_. ret False)) ?S e = (Inr (), e')"
    "live e'" "view e' = view e |` (- fst ` set (takeWhile (\<lambda>(k, v). k < stop) ?S))"
    using iterate_clear [OF assms(1), of ?S stop] by blast
  have "fst ` set (takeWhile (\<lambda>(k, v). k < stop) ?S) = {x \<in> dom (view e). start \<le> x \<and> x < stop}"
    using arg_cong [OF Seek_range_keys [OF assms(1), of stop start], of set] finite_dom [OF assms(1)] by simp
  with e'(3) have "view e' = view e |` (- {x. start \<le> x \<and> x < stop})"
    by (auto simp: restrict_map_def fun_eq_iff)
  with e' False show ?thesis by (simp add: Iterate_def)
qed

end

context badger_laws
begin

lemma commit_view:
  assumes "batchTxn b = Some t" "current t db"
  shows "\<exists>db'. rocksDBBatch_Commit B (b, db)
      = (Inr (rev (defers b)), (\<lparr>batchTxn = None, defers = []\<rparr>, db')) \<and> dview db' = tview t"
  using commit_law [OF assms(2)] assms(1) by (auto simp: rocksDBBatch_Commit_def)

lemma compact_law:
  assumes "raftOffsetIndex r < index" "index \<le> raftLastIndex r"
  shows "\<exists>db'. compact B index (r, db) = (Inr (), (r\<lparr>raftOffsetIndex := index\<rparr>, db')) \<and>
    dview db' = (dview db |` (- {x. raftLogKey (rangeID r) 0 \<le> x \<and> x < raftLogKey (rangeID r) index}))
      (raftOffsetIndexKey (rangeID r) \<mapsto> indexValue index)"
proof -
  let ?b = "newRocksDBBatch B db :: ('txn, unit) batch"
  let ?live = "\<lambda>b :: ('txn, unit) batch. \<exists>t. batchTxn b = Some t \<and> current t db"
  let ?f = "\<lambda>kv. bindM (Clear (rocksDBBatch B) (MKVKey kv)) (\<lambda>_. ret False) :: (('txn, unit) batch, error, bool) op"
  let ?R = "{x. raftLogKey (rangeID r) 0 \<le> x \<and> x < raftLogKey (rangeID r) index}"
  note clear = batch_clear [of db]
  have wr: "engine_write (rocksDBBatch B) (batch_view tview) ?live"
    by (rule engine_clear.axioms(1) [OF clear])
  have b: "?live ?b" "batch_view tview ?b = dview db"
    by (simp_all add: newRocksDBBatch_def new_current batch_view_def new_view)
  have "\<forall>x \<in> dom (batch_view tview ?b). storable x"
    using stored_keys [of _ "bNewTransaction B True db"] by (auto simp: b(2) new_view)
  from engine_clear.Iterate_clear [OF clear b(1) this] b(2) obtain b1 where b1:
    "Iterate (rocksDBBatch B) (raftLogKey (rangeID r) 0) (raftLogKey (rangeID r) index) ?f ?b ?b = (Inr (), b1)"
    "?live b1" "batch_view tview b1 = dview db |` (- ?R)" by fastforce
  from engine_write.set_index_laws(1) [OF wr b1(2), of index r] b1(3) obtain b2 where b2:
    "setOffsetIndex (rocksDBBatch B) index (r, b1) = (Inr (), (r\<lparr>raftOffsetIndex := index\<rparr>, b2))" "?live b2"
    "batch_view tview b2 = (dview db |` (- ?R))(raftOffsetIndexKey (rangeID r) \<mapsto> indexValue index)" by auto
  then obtain t where "batchTxn b2 = Some t" "current t db" by blast
  with commit_view [OF this] b2(3) obtain db' where db': "rocksDBBatch_Commit B (b2, db)
      = (Inr (rev (defers b2)), (\<lparr>batchTxn = None, defers = []\<rparr>, db'))"
    "dview db' = (dview db |` (- ?R))(raftOffsetIndexKey (rangeID r) \<mapsto> indexValue index)"
    by (auto simp: batch_view_def)
  have guards: "\<not> index \<le> raftOffsetIndex r" "\<not> raftLastIndex r < index" using assms by auto
  show ?thesis unfolding compact_def Let_def
    by (rule exI [of _ db']) (simp add: guards b1(1) b2(1) db' del: ret_apply)
qed

end

lemma raft_log_compact:
  assumes "range_ok rid" "index_ok index" "index_ok i"
  shows "raft_log P ((m |` (- {x. raftLogKey rid 0 \<le> x \<and> x < raftLogKey rid index}))
      (raftOffsetIndexKey rid \<mapsto> b)) rid i = (if i < index then None else raft_log P m rid i)"
  using assms raftLogKey_le_iff [OF assms(1) _ assms(3), of 0]
  by (simp add: raft_log_def restrict_map_def raftLogKey_less_iff index_ok_unat)

text \<open>The keys of the indices lie outside the log of the range.\<close>

lemma index_keys_outside:
  assumes "range_ok rid"
  shows "\<not> (raftLogKey rid 0 \<le> raftOffsetIndexKey rid \<and> raftOffsetIndexKey rid \<le> raftLogKey rid max_index)"
    and "\<not> (raftLogKey rid 0 \<le> raftLastIndexKey rid \<and> raftLastIndexKey rid \<le> raftLogKey rid max_index)"
proof -
  have max: "index_ok max_index" by (simp add: index_ok_max)
  have "raftLogKey rid max_index < raftOffsetIndexKey rid" "raftLogKey rid max_index < raftLastIndexKey rid"
    using NewMVCCKey_append_less_iff [of "logPrefix rid @ fixed 16 (unat max_index)" "[]"
        "OffsetIndexPrefix @ fmt_d (sint rid)" "[]"]
      NewMVCCKey_append_less_iff [of "logPrefix rid @ fixed 16 (unat max_index)" "[]"
        "LastIndexPrefix @ fmt_d (sint rid)" "[]"]
    by (simp_all add: raftLogKey_eq [OF assms max] raftOffsetIndexKey_def raftLastIndexKey_def NewKey_def
        logPrefix_def prefix_defs)
  then show "\<not> (raftLogKey rid 0 \<le> raftOffsetIndexKey rid \<and> raftOffsetIndexKey rid \<le> raftLogKey rid max_index)"
    "\<not> (raftLogKey rid 0 \<le> raftLastIndexKey rid \<and> raftLastIndexKey rid \<le> raftLogKey rid max_index)"
    by (simp_all add: not_le)
qed

lemma wf_log_put_other:
  assumes "wf_log P m rid" "\<not> (raftLogKey rid 0 \<le> k \<and> k \<le> raftLogKey rid max_index)"
  shows "wf_log P (m(k \<mapsto> b)) rid"
  using assms unfolding wf_log_def by auto

lemma wf_log_restrict: "wf_log P m rid \<Longrightarrow> wf_log P (m |` A) rid"
  unfolding wf_log_def by (auto simp: restrict_map_def split: if_splits)

lemmas wf_log_index = wf_log_put_other [OF _ index_keys_outside(1)] wf_log_put_other [OF _ index_keys_outside(2)]

section \<open>Snapshots\<close>

fun put_pairs :: "SnapshotKeyValues \<Rightarrow> (bytes \<rightharpoonup> bytes) \<Rightarrow> bytes \<rightharpoonup> bytes" where
  "put_pairs [] m = m"
| "put_pairs (kv # kvs) m = put_pairs kvs (m(MKVKey kv \<mapsto> MKVValue kv))"

fun pair_stats :: "SnapshotKeyValues \<Rightarrow> RangeStatsInfo \<Rightarrow> RangeStatsInfo" where
  "pair_stats [] rs = rs"
| "pair_stats (kv # kvs) rs =
     pair_stats kvs (UpdateRangeStats 0 0 (length (MKVKey kv)) (length (MKVValue kv)) rs)"

lemma put_pairs_map:
  "put_pairs (map (\<lambda>k. \<lparr>MKVKey = k, MKVValue = f k\<rparr>) ks) m k = (if k \<in> set ks then Some (f k) else m k)"
  by (induction ks arbitrary: m) auto

lemma put_range_pairs:
  assumes "finite (dom m)"
  shows "put_pairs (range_pairs m a b) m' k =
    (if a \<le> k \<and> k < b \<and> k \<in> dom m then m k else m' k)"
  using assms unfolding range_pairs_def put_pairs_map by auto

lemma pair_stats_count:
  "\<forall>kv \<in> set kvs. MKVKey kv \<noteq> [] \<Longrightarrow>
     TotalCount (pair_stats kvs rs) = TotalCount rs + of_nat (length kvs) \<and>
     TotalBytes (pair_stats kvs rs) = TotalBytes rs +
       of_nat (sum_list (map (\<lambda>kv. length (MKVKey kv) + length (MKVValue kv)) kvs))"
proof (induction kvs arbitrary: rs)
  case (Cons kv kvs)
  then show ?case by (simp add: UpdateRangeStats_def Let_def algebra_simps)
qed simp

lemma dataLoop_takeWhile:
  "dataLoop stop kvs acc = acc @ map (\<lambda>(k, v). \<lparr>MKVKey = k, MKVValue = key_bytes v\<rparr>)
     (takeWhile (\<lambda>(k, v). k < stop) kvs)"
  by (induction stop kvs acc rule: dataLoop.induct) (auto simp: not_le)

context badger_laws
begin

lemma snapshotData_law:
  assumes "\<forall>v \<in> ran (dview db). v \<noteq> []"
  shows "snapshotData B r db = SnapshotKeyValues_MarshalTo
    (range_pairs (dview db) (StartKey (rangeDesc r)) (EndKey (rangeDesc r)))"
proof -
  have "tview (handle (NewSnapshot B db)) = dview db" by (simp add: NewSnapshot_def new_view)
  with assms snap.Seek_range [of "NewSnapshot B db" "EndKey (rangeDesc r)" "StartKey (rangeDesc r)"]
  show ?thesis by (simp add: snapshotData_def dataLoop_takeWhile)
qed

lemma clearLoop_keeps:
  assumes "\<forall>(k, v) \<in> set kvs. storable k"
  shows "clearLoop B stop kvs db = (Inr (), db)"
  using assms
proof (induction kvs)
  case (Cons kv kvs)
  obtain k v where "kv = (k, v)" by (cases kv)
  with Cons show ?case by (simp add: rocks.Clear_keeps)
qed simp

lemma seek_storable:
  assumes "(k, v) \<in> set (Seek (rocksdb B) False start db)"
  shows "storable k"
proof -
  have "k \<in> set (map fst (Seek (rocksdb B) False start db))" using assms by force
  then have "k \<in> dom (dview db)"
    unfolding rocks.Seek_keys [OF TrueI] using finite_view(1) [of db] by simp
  then show ?thesis using stored_keys [of k "bNewTransaction B True db"] by (simp add: new_view)
qed

lemma replica_clear_keeps: "replica_clear B (r, db) = (Inr (), (r, db))"
proof -
  have "\<forall>(k, v) \<in> set (Seek (rocksdb B) False (StartKey (rangeDesc r)) db). storable k"
    using seek_storable by blast
  from clearLoop_keeps [OF this] show ?thesis by (simp add: replica_clear_def)
qed

lemma applyPairs_law:
  assumes "rstats s = Some rs" "\<forall>kv \<in> set kvs. fits (MKVKey kv) (MKVValue kv)"
  shows "\<exists>s'. applyPairs B kvs s = (Inr (), s') \<and> dview (eng s') = put_pairs kvs (dview (eng s)) \<and>
    rstats s' = Some (pair_stats kvs rs)"
  using assms
proof (induction kvs arbitrary: s rs)
  case (Cons kv kvs)
  let ?rs = "UpdateRangeStats 0 0 (length (MKVKey kv)) (length (MKVValue kv)) rs"
  have "fits (MKVKey kv) (MKVValue kv)" using Cons.prems(2) by simp
  from rocks.Put_law [OF TrueI this, of "eng s"] obtain db' where db':
    "Put (rocksdb B) (MKVKey kv) (MKVValue kv) (eng s) = (Inr (), db')"
    "dview db' = (dview (eng s))(MKVKey kv \<mapsto> MKVValue kv)" by blast
  let ?s = "s\<lparr>rstats := Some ?rs, eng := db'\<rparr>"
  have "updateStatsDeref True 0 0 (length (MKVKey kv)) (length (MKVValue kv)) s
      = (Inr (), s\<lparr>rstats := Some ?rs\<rparr>)"
    using Cons.prems(1) by (simp add: updateStatsDeref_def updateStats_def)
  moreover have "onEng (Put (rocksdb B) (MKVKey kv) (MKVValue kv)) (s\<lparr>rstats := Some ?rs\<rparr>) = (Inr (), ?s)"
    using db'(1) by (simp add: onEng_def)
  ultimately have step: "applyPairs B (kv # kvs) s = applyPairs B kvs ?s" by simp
  obtain s' where "applyPairs B kvs ?s = (Inr (), s')" "dview (eng s') = put_pairs kvs (dview (eng ?s))"
    "rstats s' = Some (pair_stats kvs ?rs)" using Cons.IH [of ?s ?rs] Cons.prems(2) by auto
  with step db'(2) show ?case by (intro exI [of _ s']) simp
qed simp

lemma applySnapshot_law:
  assumes "SnapshotKeyValues_Unmarshal [] (SnapData snap) = Inr kvs" "rstats s = Some rs"
    and "\<forall>kv \<in> set kvs. fits (MKVKey kv) (MKVValue kv)"
  shows "\<exists>s'. applySnapshot B snap (r, s) = (Inr (), (r\<lparr>raftLastIndex := SMIndex (SnapMeta snap),
      raftAppliedIndex := SMIndex (SnapMeta snap), raftTruncateIndex := SMIndex (SnapMeta snap),
      raftTruncateTerm := SMTerm (SnapMeta snap)\<rparr>, s')) \<and>
    dview (eng s') = (put_pairs kvs (dview (eng s)))
      (raftLastIndexKey (rangeID r) \<mapsto> indexValue (SMIndex (SnapMeta snap)),
       raftAppliedIndexKey (rangeID r) \<mapsto> indexValue (SMIndex (SnapMeta snap))) \<and>
    rstats s' = Some (pair_stats kvs (rs\<lparr>TotalBytes := 0, TotalCount := 0\<rparr>))"
proof -
  let ?i = "SMIndex (SnapMeta snap)" and ?rs = "rs\<lparr>TotalBytes := 0, TotalCount := 0\<rparr>"
  let ?s = "s\<lparr>rstats := Some ?rs\<rparr>"
  have clear: "onStore (replica_clear B) (r, s) = (Inr (), (r, s))"
    by (simp add: onStore_def replica_clear_keeps)
  have reset: "onDb resetStats (r, s) = (Inr (), (r, ?s))" using assms(2) by (simp add: resetStats_def)
  obtain s1 where s1: "applyPairs B kvs ?s = (Inr (), s1)" "dview (eng s1) = put_pairs kvs (dview (eng s))"
    "rstats s1 = Some (pair_stats kvs ?rs)" using applyPairs_law [of ?s ?rs kvs] assms(3) by auto
  let ?r1 = "r\<lparr>raftLastIndex := ?i\<rparr>"
  obtain d2 where d2: "setLastIndex (rocksdb B) ?i (r, eng s1) = (Inr (), (?r1, d2))"
    "dview d2 = (dview (eng s1))(raftLastIndexKey (rangeID r) \<mapsto> indexValue ?i)"
    using rocks.set_index_laws(3) [OF TrueI, of ?i r "eng s1"] by blast
  obtain d3 where d3: "setAppliedIndex (rocksdb B) ?i (?r1, d2) = (Inr (), (?r1\<lparr>raftAppliedIndex := ?i\<rparr>, d3))"
    "dview d3 = (dview d2)(raftAppliedIndexKey (rangeID r) \<mapsto> indexValue ?i)"
    using rocks.set_index_laws(2) [OF TrueI, of ?i ?r1 d2] by auto
  have "applySnapshot B snap (r, s) = (Inr (), (r\<lparr>raftLastIndex := ?i, raftAppliedIndex := ?i,
      raftTruncateIndex := ?i, raftTruncateTerm := SMTerm (SnapMeta snap)\<rparr>, s1\<lparr>eng := d3\<rparr>))"
    unfolding applySnapshot_def assms(1) by (simp add: clear reset s1(1) d2(1) d3(1))
  moreover have "dview d3 = (put_pairs kvs (dview (eng s)))
      (raftLastIndexKey (rangeID r) \<mapsto> indexValue ?i, raftAppliedIndexKey (rangeID r) \<mapsto> indexValue ?i)"
    by (simp only: d3(2) d2(2) s1(2))
  ultimately show ?thesis using s1(3) by (intro exI [of _ "s1\<lparr>eng := d3\<rparr>"]) simp
qed

end

section \<open>A reference codec\<close>

text \<open>The laws of the encodings have a model with fixed-width fields, for the concrete evaluations.\<close>

definition ref_raftpb :: raftpb where
  "ref_raftpb = \<lparr>
     entMarshal = (\<lambda>e. Inr (EncodeUint32 [] (EType e) @ EncodeUint64 [] (ETerm e) @
        EncodeUint64 [] (EIndex e) @ EData e)),
     entUnmarshal = (\<lambda>b.
        case DecodeUint32 b of Inl e \<Rightarrow> Inl (Errorf ''entry'') | Inr (b, ty) \<Rightarrow>
        (case DecodeUint64 b of Inl e \<Rightarrow> Inl (Errorf ''entry'') | Inr (b, tm) \<Rightarrow>
        (case DecodeUint64 b of Inl e \<Rightarrow> Inl (Errorf ''entry'') | Inr (b, i) \<Rightarrow>
           Inr \<lparr>EType = ty, ETerm = tm, EIndex = i, EData = b\<rparr>))),
     hsMarshal = (\<lambda>h. Inr (EncodeUint64 [] (HSTerm h) @ EncodeUint64 [] (HSVote h) @
        EncodeUint64 [] (HSCommit h))),
     hsUnmarshal = (\<lambda>b.
        case DecodeUint64 b of Inl e \<Rightarrow> Inl (Errorf ''hard state'') | Inr (b, tm) \<Rightarrow>
        (case DecodeUint64 b of Inl e \<Rightarrow> Inl (Errorf ''hard state'') | Inr (b, vote) \<Rightarrow>
        (case DecodeUint64 b of Inl e \<Rightarrow> Inl (Errorf ''hard state'') | Inr (b, cm) \<Rightarrow>
           Inr \<lparr>HSTerm = tm, HSVote = vote, HSCommit = cm\<rparr>))),
     isEmptyHardState = (\<lambda>h. h = zero_hs)\<rparr>"

lemma EncodeUint_nonempty [simp]: "EncodeUint64 [] v \<noteq> []" "EncodeUint32 [] w \<noteq> []"
  by (simp_all add: EncodeUint64_def EncodeUint32_def)

lemma DecodeUint64_exact [simp]: "DecodeUint64 (EncodeUint64 [] v) = Inr ([], v)"
  using DecodeUint64_Encode [of v "[]"] by simp

lemma ref_raftpb_laws: "raftpb_laws ref_raftpb"
  by (auto simp: raftpb_laws_def ref_raftpb_def)

lemma last_indices: "lo < hi \<Longrightarrow> last (indices lo hi) = hi - 1"
proof -
  assume lt: "lo < hi"
  then have "unat lo < unat hi" by (simp add: word_less_nat_alt)
  moreover have "hi \<noteq> 0" using lt by auto
  ultimately have "last (indices lo hi) = of_nat (unat (hi - 1))"
    unfolding indices_def using unat_minus_one [of hi] by (simp add: last_map)
  then show ?thesis by simp
qed

lemma log_update_indices:
  assumes "map EIndex ents = indices lo hi"
  shows "map (the \<circ> log_update ents L) (indices lo hi) = ents"
    and "i \<in> set (indices lo hi) \<Longrightarrow> log_update ents L i \<noteq> None"
proof -
  have d: "distinct (map EIndex ents)"
    using sorted_indices [of lo hi] unfolding assms by (simp add: strict_sorted_iff)
  have "map (the \<circ> log_update ents L) (map EIndex ents) = ents"
    unfolding map_map by (rule map_idI) (simp add: log_update_nth [OF d])
  then show "map (the \<circ> log_update ents L) (indices lo hi) = ents" by (simp only: assms)
  assume "i \<in> set (indices lo hi)"
  then obtain ent where "ent \<in> set ents" "i = EIndex ent" by (metis assms imageE list.set_map)
  then show "log_update ents L i \<noteq> None" using log_update_nth [OF d] by simp
qed

context badger_laws
begin

lemma append_reads_back_law:
  assumes "raftpb_laws P" "range_ok (rangeID r)"
    and "wf_log P (dview db) (rangeID r)" "index_ok (raftLastIndex r)"
    and "ents \<noteq> []" "\<forall>ent \<in> set ents. entry_ok ent" "lo < hi"
    and "map EIndex ents = indices lo hi" "raftOffsetIndex r \<le> lo"
  shows "\<exists>r' db'. replica_append B P ents (r, db) = (Inr (), (r', db')) \<and>
    r' = r\<lparr>raftLastIndex := hi - 1\<rparr> \<and> loadLastIndex B r' db' = Inr (hi - 1) \<and>
    Entries B P lo hi mx r' db' = Inr ents \<and>
    (\<forall>i. index_ok i \<and> \<not> (lo \<le> i \<and> i < hi) \<longrightarrow>
       raft_log P (dview db') (rangeID r) i = raft_log P (dview db) (rangeID r) i)"
proof -
  let ?rid = "rangeID r" and ?L = "raft_log P (dview db) (rangeID r)" and ?r = "r\<lparr>raftLastIndex := hi - 1\<rparr>"
  have lst: "EIndex (last ents) = hi - 1"
    using last_indices [OF assms(7)] last_map [OF assms(5), of EIndex] unfolding assms(8) by simp
  obtain db' where db': "replica_append B P ents (r, db) = (Inr (), (?r, db'))"
    "dview db' = (put_entries P ?rid ents (dview db))(raftLastIndexKey ?rid \<mapsto> indexValue (hi - 1))"
    using replica_append_law [OF assms(1,5,6,4), of db] unfolding lst by blast
  have put: "wf_log P (put_entries P ?rid ents (dview db)) ?rid"
    "\<And>i. index_ok i \<Longrightarrow> raft_log P (put_entries P ?rid ents (dview db)) ?rid i = log_update ents ?L i"
    using put_entries_log [OF assms(1,2,6,3)] by blast+
  then have wf: "wf_log P (dview db') ?rid" unfolding db'(2) by (intro wf_log_index(2) assms(2))
  have log: "raft_log P (dview db') ?rid i = log_update ents ?L i" if "index_ok i" for i
    using put(2) [OF that] unfolding db'(2) raft_log_def by simp
  have "hi - 1 \<in> EIndex ` set ents" using lst assms(5) last_in_set by (metis imageI)
  then have ok: "index_ok (hi - 1)" using assms(6) by (auto simp: entry_ok_def)
  have oki: "index_ok i" if "i \<in> set (indices lo hi)" for i
    using that ok index_ok_mono less_iff_le_pred [OF assms(7), of i] by (auto simp: set_indices)
  have present: "filter (\<lambda>i. raft_log P (dview db') ?rid i \<noteq> None) (indices lo hi) = indices lo hi"
    using log_update_indices(2) [OF assms(8)] log oki by (simp add: filter_id_conv)
  have "map (the \<circ> raft_log P (dview db') ?rid) (indices lo hi) = map (the \<circ> log_update ents ?L) (indices lo hi)"
    using log oki by (intro map_cong) auto
  then have ents: "map (the \<circ> raft_log P (dview db') ?rid) (indices lo hi) = ents"
    by (simp only: log_update_indices(1) [OF assms(8)])
  have "entries_spec (raft_log P (dview db') ?rid) (raftOffsetIndex r) (hi - 1) lo hi = Inr ents"
    unfolding entries_spec_def Let_def present ents using assms(9) by (simp add: not_less)
  then have "Entries B P lo hi mx ?r db' = Inr ents"
    using Entries_law [of ?r hi lo P db' mx] assms(2,7) ok wf by simp
  moreover have "loadLastIndex B ?r db' = Inr (hi - 1)"
    unfolding loadLastIndex_def by (rule loadIndex_found) (simp add: db'(2))
  moreover have "raft_log P (dview db') ?rid i = ?L i" if "index_ok i" "\<not> (lo \<le> i \<and> i < hi)" for i
    using log [OF that(1)] log_update_notin [of i ents ?L] that(2) assms(8)
    by (metis list.set_map set_indices)
  ultimately show ?thesis using db'(1) by blast
qed

end

section \<open>Persistence\<close>

context badger_laws
begin

lemma hard_state_roundtrip:
  assumes "raftpb_laws P"
  shows "\<exists>db'. setHardState B P hs (r, db) = (Inr (), (r, db')) \<and>
    InitialState B P r db' = Inr (hs, if hs = zero_hs then []
      else map (\<lambda>rep. scast (RepNodeID rep) + rangeID r) (Replicas (rangeDesc r)))"
proof -
  obtain b where b: "hsMarshal P hs = Inr b" "b \<noteq> []" "length b \<le> 2 ^ 20" "hsUnmarshal P b = Inr hs"
    using raftpb_hs [OF assms] .
  have "fits (raftHardStateKey (rangeID r)) b" using b by (simp add: fits_def)
  from rocks.Put_law [OF TrueI this, of db] obtain db' where db':
    "Put (rocksdb B) (raftHardStateKey (rangeID r)) b db = (Inr (), db')"
    "dview db' = (dview db)(raftHardStateKey (rangeID r) \<mapsto> b)" by blast
  have "Get (rocksdb B) (raftHardStateKey (rangeID r)) db' = Inr (Some b)"
    by (rule rocks.Get_found) (simp_all add: db'(2) b(2))
  moreover have "isEmptyHardState P hs \<longleftrightarrow> hs = zero_hs" using assms by (simp add: raftpb_laws_def)
  ultimately show ?thesis using b(1,4) db'(1)
    by (simp add: setHardState_def InitialState_def loadHardState_def)
qed

lemma indices_roundtrip:
  "\<exists>r1 db1 r2 db2 r3 db3. setAppliedIndex (rocksdb B) a (r, db) = (Inr (), (r1, db1)) \<and>
     setLastIndex (rocksdb B) l (r1, db1) = (Inr (), (r2, db2)) \<and>
     setOffsetIndex (rocksdb B) f (r2, db2) = (Inr (), (r3, db3)) \<and>
     loadAppliedIndex B r3 db3 = Inr a \<and> loadLastIndex B r3 db3 = Inr l \<and> loadOffsetIndex B r3 db3 = Inr f \<and>
     raftAppliedIndex r3 = a \<and> LastIndex r3 = l \<and> FirstIndex r3 = f + 1"
proof -
  let ?r1 = "r\<lparr>raftAppliedIndex := a\<rparr>" and ?r2 = "r\<lparr>raftAppliedIndex := a, raftLastIndex := l\<rparr>"
  let ?r3 = "r\<lparr>raftAppliedIndex := a, raftLastIndex := l, raftOffsetIndex := f\<rparr>"
  obtain db1 where db1: "setAppliedIndex (rocksdb B) a (r, db) = (Inr (), (?r1, db1))"
    "dview db1 = (dview db)(raftAppliedIndexKey (rangeID r) \<mapsto> indexValue a)"
    using rocks.set_index_laws(2) [OF TrueI, of a r db] by blast
  obtain db2 where db2: "setLastIndex (rocksdb B) l (?r1, db1) = (Inr (), (?r2, db2))"
    "dview db2 = (dview db1)(raftLastIndexKey (rangeID r) \<mapsto> indexValue l)"
    using rocks.set_index_laws(3) [OF TrueI, of l ?r1 db1] by auto
  obtain db3 where db3: "setOffsetIndex (rocksdb B) f (?r2, db2) = (Inr (), (?r3, db3))"
    "dview db3 = (dview db2)(raftOffsetIndexKey (rangeID r) \<mapsto> indexValue f)"
    using rocks.set_index_laws(1) [OF TrueI, of f ?r2 db2] by auto
  have "dview db3 (raftAppliedIndexKey (rangeID r)) = Some (indexValue a)"
    "dview db3 (raftLastIndexKey (rangeID r)) = Some (indexValue l)"
    "dview db3 (raftOffsetIndexKey (rangeID r)) = Some (indexValue f)"
    by (simp_all add: db3(2) db2(2) db1(2))
  from this [THEN loadIndex_found]
  have "loadAppliedIndex B ?r3 db3 = Inr a \<and> loadLastIndex B ?r3 db3 = Inr l \<and> loadOffsetIndex B ?r3 db3 = Inr f"
    by (simp add: loadAppliedIndex_def loadLastIndex_def loadOffsetIndex_def)
  moreover have "raftAppliedIndex ?r3 = a \<and> LastIndex ?r3 = l \<and> FirstIndex ?r3 = f + 1"
    by (simp add: LastIndex_def FirstIndex_def)
  ultimately show ?thesis using db1(1) db2(1) db3(1) by blast
qed

lemma snapshot_transfer_law:
  assumes "\<forall>k v. dview db k = Some v \<longrightarrow> v \<noteq> [] \<and> length v \<le> 2 ^ 20"
    and "SnapshotKeyValues_Size (range_pairs (dview db) (StartKey (rangeDesc r)) (EndKey (rangeDesc r))) < 2 ^ 63"
    and "SnapData snap = snapshotData B r db" and "rstats s = Some rs"
  shows "\<exists>r2' s'. applySnapshot B snap (r2, s) = (Inr (), (r2', s')) \<and>
    (\<forall>k. k \<noteq> raftLastIndexKey (rangeID r2) \<and> k \<noteq> raftAppliedIndexKey (rangeID r2) \<longrightarrow>
       dview (eng s') k = (if StartKey (rangeDesc r) \<le> k \<and> k < EndKey (rangeDesc r) \<and> dview db k \<noteq> None
         then dview db k else dview (eng s) k)) \<and>
    loadAppliedIndex B r2' (eng s') = Inr (SMIndex (SnapMeta snap)) \<and>
    loadLastIndex B r2' (eng s') = Inr (SMIndex (SnapMeta snap)) \<and>
    raftTruncateIndex r2' = SMIndex (SnapMeta snap) \<and> raftTruncateTerm r2' = SMTerm (SnapMeta snap) \<and>
    map_option TotalCount (rstats s') =
      Some (of_nat (card {k \<in> dom (dview db). StartKey (rangeDesc r) \<le> k \<and> k < EndKey (rangeDesc r)}))"
proof -
  let ?a = "StartKey (rangeDesc r)" and ?b = "EndKey (rangeDesc r)" and ?i = "SMIndex (SnapMeta snap)"
  let ?kvs = "range_pairs (dview db) ?a ?b"
  have fin: "finite (dom (dview db))" by (rule finite_view)
  have "SnapData snap = SnapshotKeyValues_MarshalTo ?kvs"
    using snapshotData_law [of db r] assms(1,3) by (auto simp: ran_def)
  then have dec: "SnapshotKeyValues_Unmarshal [] (SnapData snap) = Inr ?kvs"
    using SnapshotKeyValues_roundtrip [OF assms(2)] by simp
  have kvs: "\<exists>v. dview db (MKVKey kv) = Some v \<and> MKVValue kv = v" if "kv \<in> set ?kvs" for kv
    using that fin by (auto simp: range_pairs_def)
  have fits: "\<forall>kv \<in> set ?kvs. fits (MKVKey kv) (MKVValue kv)"
  proof
    fix kv assume "kv \<in> set ?kvs"
    from kvs [OF this] obtain v where "dview db (MKVKey kv) = Some v" "MKVValue kv = v" by blast
    with assms(1) stored_keys [of "MKVKey kv" "bNewTransaction B True db"]
    show "fits (MKVKey kv) (MKVValue kv)" by (auto simp: fits_def new_view)
  qed
  let ?r2 = "r2\<lparr>raftLastIndex := ?i, raftAppliedIndex := ?i, raftTruncateIndex := ?i,
    raftTruncateTerm := SMTerm (SnapMeta snap)\<rparr>" and ?rs = "rs\<lparr>TotalBytes := 0, TotalCount := 0\<rparr>"
  obtain s' where s': "applySnapshot B snap (r2, s) = (Inr (), (?r2, s'))"
    "dview (eng s') = (put_pairs ?kvs (dview (eng s)))(raftLastIndexKey (rangeID r2) \<mapsto> indexValue ?i,
       raftAppliedIndexKey (rangeID r2) \<mapsto> indexValue ?i)"
    "rstats s' = Some (pair_stats ?kvs ?rs)"
    using applySnapshot_law [OF dec assms(4) fits, of r2] by blast
  have "\<forall>kv \<in> set ?kvs. MKVKey kv \<noteq> []" using fits by (auto simp: fits_def storable_def)
  from pair_stats_count [OF this] have "TotalCount (pair_stats ?kvs ?rs) = of_nat (length ?kvs)" by simp
  moreover have "length ?kvs = card {k \<in> dom (dview db). ?a \<le> k \<and> k < ?b}"
    using fin unfolding range_pairs_def length_map by simp
  moreover have "loadAppliedIndex B ?r2 (eng s') = Inr ?i" "loadLastIndex B ?r2 (eng s') = Inr ?i"
    unfolding loadAppliedIndex_def loadLastIndex_def
    by (rule loadIndex_found; simp add: s'(2) not_sym [OF raft_keys_distinct(5)])+
  moreover have "dview (eng s') k = (if ?a \<le> k \<and> k < ?b \<and> dview db k \<noteq> None then dview db k else dview (eng s) k)"
    if "k \<noteq> raftLastIndexKey (rangeID r2)" "k \<noteq> raftAppliedIndexKey (rangeID r2)" for k
    using that put_range_pairs [OF fin, of ?a ?b "dview (eng s)" k] by (simp add: s'(2) domIff)
  ultimately show ?thesis using s'(1,3) by (intro exI [of _ ?r2] exI [of _ s']) simp
qed

end

section \<open>Properties\<close>

text \<open>Data of the concrete evaluations: a replica of range 1 and a log with one entry.\<close>

definition sample_replica :: "unit replica" where
  "sample_replica = \<lparr>rangeID = 1,
     rangeDesc = \<lparr>RangeID = 1, StartKey = [2], EndKey = [3], Replicas = [\<lparr>RepNodeID = 7, RepReplicaID = 1\<rparr>]\<rparr>,
     pendingCmds = Map.empty, raftGroup = (), raftOffsetIndex = 0, raftAppliedIndex = 0,
     raftTruncateIndex = 0, raftTruncateTerm = 0, raftLastIndex = 5\<rparr>"

definition sample_entry :: "uint64 \<Rightarrow> Entry" where
  "sample_entry i = \<lparr>EType = 0, ETerm = 1, EIndex = i, EData = [7]\<rparr>"

definition sample_log :: pairs where
  "sample_log = [(raftLogKey 1 5, entBytes ref_raftpb (sample_entry 5))]"

lemma sample_replica_fields [simp]:
  "rangeID sample_replica = 1" "raftOffsetIndex sample_replica = 0" "raftLastIndex sample_replica = 5"
  "StartKey (rangeDesc sample_replica) = [2]" "EndKey (rangeDesc sample_replica) = [3]"
  "Replicas (rangeDesc sample_replica) = [\<lparr>RepNodeID = 7, RepReplicaID = 1\<rparr>]"
  by (simp_all add: sample_replica_def)

lemma sample_entry_fields [simp]: "EIndex (sample_entry i) = i" "EData (sample_entry i) = [7]"
  by (simp_all add: sample_entry_def)

lemma small_index_ok: "index_ok 0" "index_ok 5" "index_ok 6" "range_ok 1"
  by (simp_all add: index_ok_def range_ok_def)

lemma sample_entry_ok: "entry_ok (sample_entry 5)" "entry_ok (sample_entry 6)"
  by (simp_all add: entry_ok_def small_index_ok)

lemma wf_log_empty: "wf_log P Map.empty rid"
  by (simp add: wf_log_def)

lemma sample_log_view:
  "ref_view sample_log = Map.empty(raftLogKey 1 5 \<mapsto> entBytes ref_raftpb (sample_entry 5))"
  by (simp add: sample_log_def ref_view_Cons)

lemma sample_log_wf: "wf_log ref_raftpb (ref_view sample_log) 1"
  using wf_log_put [OF ref_raftpb_laws sample_entry_ok(1) wf_log_empty, of 1]
  by (simp add: sample_log_view)

lemma sample_log_map: "index_ok i \<Longrightarrow> raft_log ref_raftpb (ref_view sample_log) 1 i
    = (if i = 5 then Some (sample_entry 5) else None)"
  using raft_log_put [OF ref_raftpb_laws small_index_ok(4) sample_entry_ok(1), of i Map.empty]
  by (simp add: sample_log_view raft_log_def)

text \<open>
  C19. \<^verbatim>\<open>Entries\<close> refines the log as a map from indices to entries. For indices of at most 16 digits
  it returns the entries from \<open>lo\<close> below \<open>hi\<close> in order when all of them are stored, nothing when
  none is, and otherwise the error that tells a compacted prefix, a missing end and a gap apart;
  below the offset it reports compaction.
\<close>

theorem Entries_reads_log:
  assumes "badger_laws B dview tview current" and "range_ok (rangeID r)" and "index_ok (hi - 1)"
    and "lo < hi" and "wf_log P (dview db) (rangeID r)"
  shows "Entries B P lo hi mx r db
    = entries_spec (raft_log P (dview db) (rangeID r)) (raftOffsetIndex r) (raftLastIndex r) lo hi"
  by (rule badger_laws.Entries_law [OF assms])

theorem Entries_reads_log_witness:
  "Entries ref_badger ref_raftpb 5 6 0 sample_replica sample_log = Inr [sample_entry 5]"
proof -
  have "Entries ref_badger ref_raftpb 5 6 0 sample_replica sample_log
      = entries_spec (raft_log ref_raftpb (ref_view sample_log) 1) 0 5 5 6"
    using Entries_reads_log [OF ref.badger_laws_axioms, of sample_replica 6 5 ref_raftpb sample_log 0]
      sample_log_wf small_index_ok by simp
  moreover have "indices 5 6 = [5]" by (simp add: indices_def)
  ultimately show ?thesis by (simp add: entries_spec_def sample_log_map small_index_ok)
qed

text \<open>
  C11. \<^verbatim>\<open>append\<close> stores its entries under their indices, persists the last of them as the last index
  and leaves every other entry of the log as it was; \<^verbatim>\<open>Entries\<close> then returns exactly the appended
  entries. Entries above the new last index, which the code means to delete, are among those that
  stay.
\<close>

theorem append_reads_back:
  assumes "badger_laws B dview tview current" and "raftpb_laws P" and "range_ok (rangeID r)"
    and "wf_log P (dview db) (rangeID r)" and "index_ok (raftLastIndex r)"
    and "ents \<noteq> []" and "\<forall>ent \<in> set ents. entry_ok ent" and "lo < hi"
    and "map EIndex ents = indices lo hi" and "raftOffsetIndex r \<le> lo"
  shows "\<exists>r' db'. replica_append B P ents (r, db) = (Inr (), (r', db')) \<and>
    r' = r\<lparr>raftLastIndex := hi - 1\<rparr> \<and> loadLastIndex B r' db' = Inr (hi - 1) \<and>
    Entries B P lo hi mx r' db' = Inr ents \<and>
    (\<forall>i. index_ok i \<and> \<not> (lo \<le> i \<and> i < hi) \<longrightarrow>
       raft_log P (dview db') (rangeID r) i = raft_log P (dview db) (rangeID r) i)"
  by (rule badger_laws.append_reads_back_law [OF assms])


theorem append_reads_back_witness:
  "\<exists>r' db'. replica_append ref_badger ref_raftpb [sample_entry 5] (sample_replica, []) = (Inr (), (r', db')) \<and>
     r' = sample_replica\<lparr>raftLastIndex := 5\<rparr> \<and> loadLastIndex ref_badger r' db' = Inr 5 \<and>
     Entries ref_badger ref_raftpb 5 6 0 r' db' = Inr [sample_entry 5]"
proof -
  have "map EIndex [sample_entry 5] = indices 5 6" by (simp add: indices_def)
  moreover have "wf_log ref_raftpb (ref_view []) (rangeID sample_replica)" by (simp add: wf_log_empty)
  ultimately show ?thesis
    using append_reads_back [OF ref.badger_laws_axioms ref_raftpb_laws, of sample_replica "[]"
        "[sample_entry 5]" 5 6 0] small_index_ok sample_entry_ok by auto
qed



text \<open>
  C33. What raft persists is what it finds again: the hard state with the peers of the range, and the
  applied, last and offset indices; before anything was written these are empty and zero.
\<close>

theorem raft_state_roundtrip:
  assumes "badger_laws B dview tview current" and "raftpb_laws P"
  shows "(\<exists>db'. setHardState B P hs (r, db) = (Inr (), (r, db')) \<and>
       InitialState B P r db' = Inr (hs, if hs = zero_hs then []
         else map (\<lambda>rep. scast (RepNodeID rep) + rangeID r) (Replicas (rangeDesc r)))) \<and>
    (\<exists>r1 db1 r2 db2 r3 db3. setAppliedIndex (rocksdb B) a (r, db) = (Inr (), (r1, db1)) \<and>
       setLastIndex (rocksdb B) l (r1, db1) = (Inr (), (r2, db2)) \<and>
       setOffsetIndex (rocksdb B) f (r2, db2) = (Inr (), (r3, db3)) \<and>
       loadAppliedIndex B r3 db3 = Inr a \<and> loadLastIndex B r3 db3 = Inr l \<and> loadOffsetIndex B r3 db3 = Inr f \<and>
       raftAppliedIndex r3 = a \<and> LastIndex r3 = l \<and> FirstIndex r3 = f + 1)"
  using badger_laws.hard_state_roundtrip [OF assms] badger_laws.indices_roundtrip [OF assms(1)] by blast

theorem raft_state_roundtrip_witness:
  "\<exists>db'. setHardState ref_badger ref_raftpb \<lparr>HSTerm = 2, HSVote = 7, HSCommit = 4\<rparr> (sample_replica, [])
       = (Inr (), (sample_replica, db')) \<and>
     InitialState ref_badger ref_raftpb sample_replica db'
       = Inr (\<lparr>HSTerm = 2, HSVote = 7, HSCommit = 4\<rparr>, [8])"
  using raft_state_roundtrip [OF ref.badger_laws_axioms ref_raftpb_laws,
      of "\<lparr>HSTerm = 2, HSVote = 7, HSCommit = 4\<rparr>" sample_replica "[]"]
  by (simp add: zero_hs_def)


definition sample_stats :: RangeStatsInfo where
  "sample_stats = \<lparr>StatRangeID = 1, StatNodeID = 7, TotalBytes = 40, TotalCount = 3, IsRaftLeader = True,
     IsRemoved = False\<rparr>"

definition sender_db :: pairs where
  "sender_db = [([2, 1], [9])]"

definition sample_snapshot :: RaftSnapshot where
  "sample_snapshot = \<lparr>SnapData = snapshotData ref_badger sample_replica sender_db,
     SnapMeta = \<lparr>ConfNodes = [8], SMIndex = 4, SMTerm = 2\<rparr>\<rparr>"

lemma sender_view: "ref_view sender_db = [[2, 1] \<mapsto> [9]]"
  by (simp add: sender_db_def ref_view_Cons storable_def badgerPrefix_def)

lemma sender_pairs: "range_pairs (ref_view sender_db) [2] [3] = [\<lparr>MKVKey = [2, 1], MKVValue = [9]\<rparr>]"
proof -
  have "{x \<in> dom (ref_view sender_db). [2] \<le> x \<and> x < [3]} = {[2, 1]}" by (auto simp: sender_view)
  then show ?thesis unfolding range_pairs_def by (simp add: sender_view)
qed


end
