(* ===== verification/Replica.thy ===== *)
theory Replica
  imports Rebalance
begin

text \<open>
  A replica at work: the dispatch \<^verbatim>\<open>executeCmd\<close> of \<^verbatim>\<open>src/storage/replica_command.go\<close> and the raft side
  of \<^verbatim>\<open>src/storage/replica.go\<close>, from proposing a command to applying the committed entries. The
  goroutine \<^verbatim>\<open>processRaft\<close> is the step relation \<open>raftStep\<close>, one step per round of its loop. A caller that
  waits on a \<^verbatim>\<open>done\<close> channel finds its reply in \<open>replies\<close>. An operation whose errors are all handled
  fails only with a panic.
\<close>

section \<open>Definitions\<close>

subsection \<open>Commands\<close>

text \<open>Reads on a nil engine, which \<^verbatim>\<open>executeCmd\<close> is given for writes: nothing is read before the panic.\<close>

definition readNil :: "RequestHeader \<Rightarrow> error + 'a" where
  "readNil h =
     (case HTxn h of
        None \<Rightarrow> Inl NilPointer
      | Some _ \<Rightarrow> if length (HKey h) = 0 then Inl InvalidKeyError else Inl NilPointer)"

definition onData ::
    "nat \<Rightarrow> ('db estate, error, 'a) op \<Rightarrow> (('db, 'txn, 'g, 'w) store, error, 'a) op" where
  "onData a m = onSelf a (onDb m)"

definition pureOp :: "error + 'a \<Rightarrow> ('s, error, 'a) op" where
  "pureOp x s = (x, s)"

text \<open>
  \<^verbatim>\<open>executeCmd\<close>; \<open>snap\<close> is the engine argument, \<^const>\<open>None\<close> for nil, and \<open>fuel\<close> bounds scans.
\<close>

definition executeCmd ::
    "('db, 'txn, 'g, 'w) env \<Rightarrow> nat \<Rightarrow> (('db, 'txn, 'g, 'w) store \<Rightarrow> ('db, 'txn, 'g, 'w) store) \<Rightarrow> nat
       \<Rightarrow> ('db, 'txn) snapshot option \<Rightarrow> Request \<Rightarrow> (('db, 'txn, 'g, 'w) store, error, Response) op" where
  "executeCmd V fuel sched a snap request s =
     (let E = rocksdb (vB V); SE = rocksDBSnapshot (vB V); r = self a s
      in if \<not> validateKeyRange r (HKey (Header request)) then (Inl (RangeNotFoundError (rangeID r)), s)
         else (case request of
           GetRequest h \<Rightarrow>
             pureOp (case snap of None \<Rightarrow> readNil h | Some e \<Rightarrow> replica_get SE h e)
         | PutRequest h v \<Rightarrow>
             bindM (onData a (replica_put E h v)) (\<lambda>_. ret (PutResponse zero_resp))
         | ScanRequest h mx \<Rightarrow>
             pureOp (case snap of None \<Rightarrow> readNil h | Some e \<Rightarrow> scan fuel SE h mx e)
         | ReverseScanRequest h mx \<Rightarrow>
             pureOp (case snap of None \<Rightarrow> readNil h | Some e \<Rightarrow> reverseScan fuel SE h mx e)
         | BeginTransactionRequest h \<Rightarrow>
             bindM (onData a (beginTransaction E h))
               (\<lambda>_. ret (BeginTransactionResponse (zero_resp\<lparr>RespTxn := HTxn h\<rparr>)))
         | EndTransactionRequest h commit intents \<Rightarrow>
             bindM (onData a (endTransaction E h commit)) (\<lambda>_. ret (EndTransactionResponse zero_resp))
         | HeartbeatTransactionRequest h \<Rightarrow>
             bindM (onData a (heartbeatTransaction E h))
               (\<lambda>txn. ret (HeartbeatTransactionResponse (zero_resp\<lparr>RespTxn := txn\<rparr>)))
         | ResolveIntentRequest h intents \<Rightarrow>
             bindM (onData a (replica_resolveIntent E h intents)) (\<lambda>_. ret (ResolveIntentResponse zero_resp))
         | PushTransactionRequest h pusheeKey pushType latestTimestamp \<Rightarrow>
             onData a (pushTransaction E h pusheeKey pushType latestTimestamp)
         | GetSplitKeyRequest h splitSize \<Rightarrow>
             pureOp (case snap of None \<Rightarrow> Inl NilPointer | Some e \<Rightarrow> getSplitKey SE splitSize r e)
         | SplitRequest h newID splitKey newRangeBytes newRangeCount \<Rightarrow>
             split V a h newID splitKey newRangeBytes newRangeCount
         | AddRaftConfRequest h nid \<Rightarrow> addRaftConf V a h nid
         | DeleteRaftConfRequest h nid \<Rightarrow> deleteRaftConf V a h nid
         | UpdateRangeRequest h desc \<Rightarrow>
             bindM (updateRange a h desc) (\<lambda>_. ret (UpdateRangeResponse zero_resp))
         | CompactLogRequest h \<Rightarrow> bindM (compactLog V a h) (\<lambda>_. ret (CompactLogResponse zero_resp))
         | TransferLeaderRequest h from_id to_id \<Rightarrow>
             bindM (transferLeader V sched a from_id to_id) (\<lambda>_. ret (TransferLeaderResponse zero_resp))
         | _ \<Rightarrow> fail (Errorf ''no found request type'')) s)"

subsection \<open>Proposing\<close>

text \<open>\<open>rnd\<close> is the random number of the command id, from \<^verbatim>\<open>rand.Int63\<close>.\<close>

definition handleProposeCmd ::
    "('db, 'txn, 'g, 'w) env \<Rightarrow> nat \<Rightarrow> uint64 \<Rightarrow> pendingCmd \<Rightarrow> (('db, 'txn, 'g, 'w) store, error, unit) op" where
  "handleProposeCmd V a rnd cmd s =
     (let idKey = EncodeUint64 [] rnd; r = self a s
      in if pendingCmds r idKey \<noteq> None then (Inl (Errorf ''cmd already exists''), s)
         else case vMarshalData V \<lparr>RDId = idKey, RDCmd = raftCmd cmd\<rparr> of
                Inl err \<Rightarrow> (Inl err, s)
              | Inr data \<Rightarrow>
                  onRaft a (rnPropose (vR V) data)
                    (setSelf a (r\<lparr>pendingCmds := (pendingCmds r)(idKey \<mapsto> cmd)\<rparr>) s))"

text \<open>\<^verbatim>\<open>proposeRaftCommand\<close>: the command the raft goroutine receives.\<close>

definition proposeRaftCommand :: "nat \<Rightarrow> nat \<Rightarrow> BatchRequest \<Rightarrow> ('db, 'txn, 'g, 'w) store \<Rightarrow> pendingCmd" where
  "proposeRaftCommand a w breq s =
     \<lparr>raftCmd = \<lparr>CmdRangeID = rangeID (self a s), CmdRequest = breq\<rparr>, waiter = w\<rparr>"

text \<open>
  \<^verbatim>\<open>replica.Send\<close>: the responses and the error. A proposed command waits for its reply, which the other
  goroutines (\<open>sched\<close>) produce or not; without one the wait times out.
\<close>

definition replica_Send ::
    "('db, 'txn, 'g, 'w) env \<Rightarrow> nat \<Rightarrow> (('db, 'txn, 'g, 'w) store \<Rightarrow> ('db, 'txn, 'g, 'w) store) \<Rightarrow> uint64
       \<Rightarrow> nat \<Rightarrow> nat \<Rightarrow> BatchRequest \<Rightarrow> (('db, 'txn, 'g, 'w) store, error, Response list \<times> error option) op" where
  "replica_Send V fuel sched rnd w a breq s =
     (case Flags breq of
        Inl err \<Rightarrow> (Inl err, s)
      | Inr f \<Rightarrow>
          if f AND IsLeaderFlag \<noteq> 0 then
            (case Execute (executeCmd V fuel sched a None) breq s of
               ((resps, Some (Panic p)), s') \<Rightarrow> (Inl (Panic p), s')
             | (res, s') \<Rightarrow> (Inr res, s'))
          else if f AND IsReadFlag \<noteq> 0 \<and> f AND IsWriteFlag = 0 \<or> f AND IsWriteFlag \<noteq> 0 then
            (case handleProposeCmd V a rnd (proposeRaftCommand a w breq s) s of
               (_, s1) \<Rightarrow>
                 (let s2 = sched s1
                  in case map_of (replies s2) w of
                       Some (bresp, err) \<Rightarrow>
                         (Inr (Resp bresp, err), s2\<lparr>replies := filter (\<lambda>(v, _). v \<noteq> w) (replies s2)\<rparr>)
                     | None \<Rightarrow> (Inr ([], Some (Errorf ''propose request timeout'')), s2)))
          else (Inr ([], Some (Errorf ''don't know how to handle command'')), s))"

subsection \<open>Applying\<close>

text \<open>The loop of \<^verbatim>\<open>preprocessWriteIntentError\<close> over the pushed transactions.\<close>

fun resolvePushee ::
    "('db, 'txn) badger \<Rightarrow> Intent \<Rightarrow> Transaction list \<Rightarrow> ('db estate, error, bool) op" where
  "resolvePushee B intent [] = ret False"
| "resolvePushee B intent (pusheeTxn # txns) =
     (if key_bytes (ID (IntentTxn intent)) = key_bytes (ID pusheeTxn)
      then bindM (MVCCResolveWriteIntent (rocksdb B)
             [\<lparr>IntentSpan = IntentSpan intent, IntentTxn = pusheeTxn\<rparr>] True) (\<lambda>_. ret True)
      else resolvePushee B intent txns)"

definition preprocessWriteIntentError ::
    "('db, 'txn, 'g, 'w) env \<Rightarrow> nat \<Rightarrow> BatchRequest \<Rightarrow> error option \<Rightarrow> (('db, 'txn, 'g, 'w) store, error, bool) op" where
  "preprocessWriteIntentError V a breq err =
     (case err of
        Some (WriteIntentError intent _ _) \<Rightarrow> onData a (resolvePushee (vB V) intent (PusheeTxn breq))
      | _ \<Rightarrow> ret False)"

text \<open>The callback of a committed write: after a conflict with a pushed transaction it runs again.\<close>

definition executeWrite ::
    "('db, 'txn, 'g, 'w) env \<Rightarrow> nat \<Rightarrow> (('db, 'txn, 'g, 'w) store \<Rightarrow> ('db, 'txn, 'g, 'w) store) \<Rightarrow> nat
       \<Rightarrow> BatchRequest \<Rightarrow> Request \<Rightarrow> (('db, 'txn, 'g, 'w) store, error, Response) op" where
  "executeWrite V fuel sched a breq req s =
     (case executeCmd V fuel sched a None req s of
        (Inr resp, s') \<Rightarrow> (Inr resp, s')
      | (Inl err, s') \<Rightarrow>
          (case preprocessWriteIntentError V a breq (Some err) s' of
             (Inl p, s'') \<Rightarrow> (Inl p, s'')
           | (Inr True, s'') \<Rightarrow> executeCmd V fuel sched a None req s''
           | (Inr False, s'') \<Rightarrow> (Inl err, s'')))"

definition reply :: "pendingCmd option \<Rightarrow> ResponseWithError \<Rightarrow> ('db, 'txn, 'g, 'w) store \<Rightarrow> ('db, 'txn, 'g, 'w) store" where
  "reply cmd res s = (case cmd of None \<Rightarrow> s | Some c \<Rightarrow> s\<lparr>replies := replies s @ [(waiter c, res)]\<rparr>)"

definition applyIndex ::
    "('db, 'txn, 'g, 'w) env \<Rightarrow> nat \<Rightarrow> uint64 \<Rightarrow> ('db, 'txn, 'g, 'w) store \<Rightarrow> ('db, 'txn, 'g, 'w) store" where
  "applyIndex V a index s = snd (onSelf a (onStore (setAppliedIndex (rocksdb (vB V)) index)) s)"

definition processRaftCommand ::
    "('db, 'txn, 'g, 'w) env \<Rightarrow> nat \<Rightarrow> (('db, 'txn, 'g, 'w) store \<Rightarrow> ('db, 'txn, 'g, 'w) store) \<Rightarrow> nat
       \<Rightarrow> RaftData \<Rightarrow> uint64 \<Rightarrow> (('db, 'txn, 'g, 'w) store, error, unit) op" where
  "processRaftCommand V fuel sched a data index s =
     (let r = self a s; cmd = pendingCmds r (RDId data); breq = CmdRequest (RDCmd data);
          s = setSelf a (r\<lparr>pendingCmds := (pendingCmds r)(RDId data := None)\<rparr>) s
      in case Flags breq of
           Inl p \<Rightarrow> (Inl p, applyIndex V a index s)
         | Inr f \<Rightarrow>
             if f = IsReadFlag then
               (Inr (), applyIndex V a index (case cmd of
                  None \<Rightarrow> s
                | Some c \<Rightarrow> s\<lparr>asyncRequestChan := asyncRequestChan s @
                    [\<lparr>arSnapshot = NewSnapshot (vB V) (engine s), arCmd = c, arReplica = a\<rparr>]\<rparr>))
             else if f = IsWriteFlag then
               (case Execute (executeWrite V fuel sched a breq) breq s of
                  ((resps, Some (Panic p)), s') \<Rightarrow> (Inl (Panic p), applyIndex V a index s')
                | ((resps, err), s') \<Rightarrow>
                    (Inr (), applyIndex V a index (reply cmd (zero_bresp\<lparr>Resp := resps\<rparr>, err) s')))
             else (Inr (), applyIndex V a index s))"

subsection \<open>Raft messages\<close>

definition handleRaftMessage ::
    "('db, 'txn, 'g, 'w) env \<Rightarrow> nat \<Rightarrow> RaftMessageRequest \<Rightarrow> (('db, 'txn, 'g, 'w) store, error, unit) op" where
  "handleRaftMessage V a req s =
     (if rangeID (self a s) \<noteq> RMRangeID req then (Inl (Errorf ''receive message of another range''), s)
      else if ToNodeID req \<noteq> nodeID s then (Inl (Errorf ''should not receive node message''), s)
      else mapErr (\<lambda>_. Errorf ''step Message'') (onRaft a (rnStep (vR V) (RMMessage req))) s)"

definition updGroup :: "nat \<Rightarrow> ('g \<Rightarrow> 'g) \<Rightarrow> ('db, 'txn, 'g, 'w) store \<Rightarrow> ('db, 'txn, 'g, 'w) store" where
  "updGroup a f s = setSelf a ((self a s)\<lparr>raftGroup := f (raftGroup (self a s))\<rparr>) s"

text \<open>Sending once the receiver's address is cached: the send, and what raft is told about it.\<close>

definition sendCached ::
    "('db, 'txn, 'g, 'w) env \<Rightarrow> nat \<Rightarrow> int32 \<Rightarrow> raftMessage \<Rightarrow> ('db, 'txn, 'g, 'w) store
       \<Rightarrow> ('db, 'txn, 'g, 'w) store" where
  "sendCached V a nid m s =
     (case transport_send \<lparr>RMRangeID = rangeID (self a s), FromNodeID = nodeID s, ToNodeID = nid, RMMessage = m\<rparr>
             (transp s) of
        (res, t) \<Rightarrow>
          (let s = s\<lparr>transp := t\<rparr>; sent = (case res of Inl _ \<Rightarrow> False | Inr _ \<Rightarrow> True);
               s = (if sent then s else updGroup a (rnReportUnreachable (vR V) (MsgTo m)) s)
           in if MsgType m = MsgSnap then updGroup a (rnReportSnapshot (vR V) (MsgTo m) sent) s else s))"

definition sendRaftMessage ::
    "('db, 'txn, 'g, 'w) env \<Rightarrow> nat \<Rightarrow> raftMessage \<Rightarrow> ('db, 'txn, 'g, 'w) store \<Rightarrow> ('db, 'txn, 'g, 'w) store" where
  "sendRaftMessage V a m s =
     (if MsgTo m \<le> rangeID (self a s) then s
      else let nid = ucast (MsgTo m - rangeID (self a s))
           in if isExistNodeCache nid (transp s) then sendCached V a nid m s
              else case onNet (cGetNodes (vC V)) s of
                     (Inl err, s) \<Rightarrow> s
                   | (Inr nodes, s) \<Rightarrow>
                       (let s = s\<lparr>transp := updateNodesCache nodes (clearNodesCache (transp s))\<rparr>
                        in if isExistNodeCache nid (transp s) then sendCached V a nid m s else s))"

text \<open>The loop over the committed entries: a bad configuration change ends it.\<close>

fun applyEntries ::
    "('db, 'txn, 'g, 'w) env \<Rightarrow> nat \<Rightarrow> (('db, 'txn, 'g, 'w) store \<Rightarrow> ('db, 'txn, 'g, 'w) store) \<Rightarrow> nat
       \<Rightarrow> Entry list \<Rightarrow> (('db, 'txn, 'g, 'w) store, error, unit) op" where
  "applyEntries V fuel sched a [] = ret ()"
| "applyEntries V fuel sched a (e # es) =
     bindM
       (if EType e = EntryNormal then
          if length (EData e) = 0 then ret ()
          else case vUnmarshalData V (EData e) of
                 Inl err \<Rightarrow> ret ()
               | Inr data \<Rightarrow> processRaftCommand V fuel sched a data (EIndex e)
        else if EType e = EntryConfChange then
          case vUnmarshalConf V (EData e) of
            Inl err \<Rightarrow> fail err
          | Inr cc \<Rightarrow>
              (\<lambda>s. (Inr (), applyIndex V a (EIndex e) (updGroup a (rnApplyConfChange (vR V) cc) s)))
        else ret ())
       (\<lambda>_. applyEntries V fuel sched a es)"

definition whenM :: "bool \<Rightarrow> ('s, error, unit) op \<Rightarrow> ('s, error, unit) op" where
  "whenM b m = (if b then m else ret ())"

text \<open>\<^verbatim>\<open>handleRaftReady\<close>; \<^verbatim>\<open>Commit\<close> of the store engine does nothing and has no error.\<close>

definition handleRaftReady ::
    "('db, 'txn, 'g, 'w) env \<Rightarrow> nat \<Rightarrow> (('db, 'txn, 'g, 'w) store \<Rightarrow> ('db, 'txn, 'g, 'w) store) \<Rightarrow> nat
       \<Rightarrow> Ready \<Rightarrow> (('db, 'txn, 'g, 'w) store, error, unit) op" where
  "handleRaftReady V fuel sched a rd =
     bindM (whenM (\<not> vIsEmptySnap V (RdSnapshot rd)) (onSelf a (applySnapshot (vB V) (RdSnapshot rd)))) (\<lambda>_.
     bindM (whenM (length (RdEntries rd) > 0) (onSelf a (onStore (replica_append (vB V) (vP V) (RdEntries rd))))) (\<lambda>_.
     bindM (whenM (\<not> isEmptyHardState (vP V) (RdHardState rd))
              (onSelf a (onStore (setHardState (vB V) (vP V) (RdHardState rd))))) (\<lambda>_.
     bindM (\<lambda>s. (Inr (), foldl (\<lambda>s m. sendRaftMessage V a m s) s (RdMessages rd))) (\<lambda>_.
     bindM (applyEntries V fuel sched a (RdCommitted rd)) (\<lambda>_ s.
       (Inr (), updGroup a (rnAdvance (vR V) rd) s))))))"

subsection \<open>The raft goroutine\<close>

text \<open>
  One round of \<^verbatim>\<open>processRaft\<close>: the ready state, or one case of its select. Errors are logged; a panic
  ends the process and is no step.
\<close>

definition noPanic :: "error + 'a \<Rightarrow> bool" where
  "noPanic x = (case x of Inl (Panic _) \<Rightarrow> False | _ \<Rightarrow> True)"

inductive raftStep ::
    "('db, 'txn, 'g, 'w) env \<Rightarrow> nat \<Rightarrow> (('db, 'txn, 'g, 'w) store \<Rightarrow> ('db, 'txn, 'g, 'w) store) \<Rightarrow> nat
       \<Rightarrow> ('db, 'txn, 'g, 'w) store \<Rightarrow> ('db, 'txn, 'g, 'w) store \<Rightarrow> bool"
  for V fuel sched a where
  ready: "rnReady (vR V) (raftGroup (self a s)) = Some (rd, g) \<Longrightarrow>
    handleRaftReady V fuel sched a rd (updGroup a (\<lambda>_. g) s) = (x, s') \<Longrightarrow> noPanic x \<Longrightarrow>
    raftStep V fuel sched a s s'"
| tick: "raftStep V fuel sched a s (updGroup a (rnTick (vR V)) s)"
| message: "handleRaftMessage V a req s = (x, s') \<Longrightarrow> raftStep V fuel sched a s s'"
| propose: "handleProposeCmd V a rnd cmd s = (x, s') \<Longrightarrow> raftStep V fuel sched a s s'"
| addConf: "handleRaftAddConf V a nid s = (x, s') \<Longrightarrow> raftStep V fuel sched a s s'"
| deleteConf: "handleRaftDeleteConf V a nid s = (x, s') \<Longrightarrow> raftStep V fuel sched a s s'"

end
