(* ===== verification/Store.thy ===== *)
theory Store
  imports Replica
begin

text \<open>
  The store of a node, \<^verbatim>\<open>src/storage/store.go\<close> and \<^verbatim>\<open>src/storage/stats.go\<close>: sending a batch to its
  replica with the retry loop that resolves write intents, the commands on the store itself, the
  workers that execute reads, and the statistics a node persists and reports.
\<close>

section \<open>Definitions\<close>

subsection \<open>Commands on the store\<close>

definition executeCreateReplica ::
    "('db, 'txn, 'g, 'w) env \<Rightarrow> RequestHeader \<Rightarrow> RangeDescriptor \<Rightarrow> (('db, 'txn, 'g, 'w) store, error, unit) op" where
  "executeCreateReplica V h desc s =
     (if replicas s (HRangeID h) \<noteq> None then (Inr (), s)
      else bindM (createReplica V desc True) (\<lambda>_. ret ()) s)"

definition executeRemoveReplica ::
    "RequestHeader \<Rightarrow> int32 \<Rightarrow> (('db, 'txn, 'g, 'w) store, error, unit) op" where
  "executeRemoveReplica h nid s =
     (case replicas s (HRangeID h) of
        None \<Rightarrow> (Inl (Errorf ''range not found''), s)
      | Some a \<Rightarrow>
          if \<not> isExistNode nid (self a s) then (Inl errNotFoundNode, s)
          else bindM (deleteReplica (HRangeID h)) (\<lambda>_ s.
                 case rangeStats s (HRangeID h) of
                   None \<Rightarrow> (Inl NilPointer, s)
                 | Some rs \<Rightarrow>
                     (Inr (), s\<lparr>rangeStats := (rangeStats s)(HRangeID h \<mapsto> rs\<lparr>IsRemoved := True\<rparr>)\<rparr>)) s)"

definition executeRootCmd ::
    "('db, 'txn, 'g, 'w) env \<Rightarrow> Request \<Rightarrow> (('db, 'txn, 'g, 'w) store, error, Response) op" where
  "executeRootCmd V request =
     (case request of
        CreateReplicaRequest h desc nid \<Rightarrow>
          bindM (executeCreateReplica V h desc) (\<lambda>_. ret (CreateReplicaResponse zero_resp))
      | RemoveReplicaRequest h nid \<Rightarrow>
          bindM (executeRemoveReplica h nid) (\<lambda>_. ret (RemoveReplicaResponse zero_resp))
      | _ \<Rightarrow> fail (Errorf ''no found request type''))"

subsection \<open>Sending\<close>

definition processWriteIntentError ::
    "('db, 'txn, 'g, 'w) env \<Rightarrow> Intent \<Rightarrow> Transaction option \<Rightarrow> int32
       \<Rightarrow> (('db, 'txn, 'g, 'w) store, error, Transaction) op" where
  "processWriteIntentError V intent pusher pushType =
     bindM (onNet (cPushTxn (vC V) pushType (ID (IntentTxn intent)) pusher)) (\<lambda>pusheeTxn.
     bindM (onNet (cResolveIntent (vC V) (SpanKey (IntentSpan intent)) pusheeTxn)) (\<lambda>_.
     ret pusheeTxn))"

text \<open>
  The retry loop of \<^verbatim>\<open>Send\<close>, whose options set no maximum: \<open>n\<close> is its fuel, \<open>k\<close> the attempt, and
  \<open>rnds\<close> and \<open>ws\<close> the random numbers and channels of the attempts.
\<close>

fun sendLoop ::
    "nat \<Rightarrow> ('db, 'txn, 'g, 'w) env \<Rightarrow> nat \<Rightarrow> (('db, 'txn, 'g, 'w) store \<Rightarrow> ('db, 'txn, 'g, 'w) store)
       \<Rightarrow> (nat \<Rightarrow> uint64) \<Rightarrow> (nat \<Rightarrow> nat) \<Rightarrow> nat \<Rightarrow> nat \<Rightarrow> BatchRequest \<Rightarrow> Response list
       \<Rightarrow> (('db, 'txn, 'g, 'w) store, error, Response list \<times> error option) op" where
  "sendLoop 0 V fuel sched rnds ws a k breq bresp = fail Diverges"
| "sendLoop (Suc n) V fuel sched rnds ws a k breq bresp =
     bindM (replica_Send V fuel sched (rnds k) (ws k) a breq) (\<lambda>(resp, err).
       let bresp = bresp @ resp
       in case err of
            None \<Rightarrow> ret (bresp, None)
          | Some (WriteIntentError intent pusher pushType) \<Rightarrow> (\<lambda>s.
              case processWriteIntentError V intent pusher pushType s of
                (Inl err1, s) \<Rightarrow> (Inr (bresp, Some err1), s)
              | (Inr pusheeTxn, s) \<Rightarrow>
                  sendLoop n V fuel sched rnds ws a (k + 1)
                    (breq\<lparr>Req := drop (length resp) (Req breq), PusheeTxn := PusheeTxn breq @ [pusheeTxn]\<rparr>)
                    bresp s)
          | Some err \<Rightarrow> ret (bresp, Some err))"

text \<open>\<^verbatim>\<open>Store.Send\<close>: the responses and the error; only a panic or a loop without end is a failure.\<close>

definition Send ::
    "nat \<Rightarrow> ('db, 'txn, 'g, 'w) env \<Rightarrow> nat \<Rightarrow> (('db, 'txn, 'g, 'w) store \<Rightarrow> ('db, 'txn, 'g, 'w) store)
       \<Rightarrow> (nat \<Rightarrow> uint64) \<Rightarrow> (nat \<Rightarrow> nat) \<Rightarrow> BatchRequest
       \<Rightarrow> (('db, 'txn, 'g, 'w) store, error, Response list \<times> error option) op" where
  "Send n V fuel sched rnds ws breq s =
     (case IsSystem breq of
        Inl p \<Rightarrow> (Inl p, s)
      | Inr True \<Rightarrow>
          (case Execute (executeRootCmd V) breq s of
             ((resps, Some (Panic p)), s') \<Rightarrow> (Inl (Panic p), s')
           | (res, s') \<Rightarrow> (Inr res, s'))
      | Inr False \<Rightarrow>
          (case getReplica (HRangeID (BHeader breq)) s of
             Inl err \<Rightarrow> (Inr ([], Some err), s)
           | Inr a \<Rightarrow>
               (case getRaftGroupLeader V a s of (nid, isLeader) \<Rightarrow>
                  if \<not> isLeader then (Inr ([], Some (NotLeaderError nid)), s)
                  else sendLoop n V fuel sched rnds ws a 0 breq [] s)))"

text \<open>\<^verbatim>\<open>NodeServer.ExecuteCmd\<close>: the error travels in the header of the response.\<close>

definition ExecuteCmd ::
    "nat \<Rightarrow> ('db, 'txn, 'g, 'w) env \<Rightarrow> nat \<Rightarrow> (('db, 'txn, 'g, 'w) store \<Rightarrow> ('db, 'txn, 'g, 'w) store)
       \<Rightarrow> (nat \<Rightarrow> uint64) \<Rightarrow> (nat \<Rightarrow> nat) \<Rightarrow> BatchRequest \<Rightarrow> (('db, 'txn, 'g, 'w) store, error, BatchResponse) op" where
  "ExecuteCmd n V fuel sched rnds ws breq =
     bindM (Send n V fuel sched rnds ws breq) (\<lambda>(resps, err).
       ret \<lparr>BRespHeader = zero_resp\<lparr>RespError := err\<rparr>, Resp = resps\<rparr>)"

subsection \<open>Workers\<close>

text \<open>A worker takes a read from the channel, executes it on its snapshot and replies.\<close>

definition asyncStep ::
    "('db, 'txn, 'g, 'w) env \<Rightarrow> nat \<Rightarrow> (('db, 'txn, 'g, 'w) store \<Rightarrow> ('db, 'txn, 'g, 'w) store)
       \<Rightarrow> (('db, 'txn, 'g, 'w) store, error, unit) op" where
  "asyncStep V fuel sched s =
     (case asyncRequestChan s of
        [] \<Rightarrow> (Inr (), s)
      | ar # rest \<Rightarrow>
          (case Execute (executeCmd V fuel sched (arReplica ar) (Some (arSnapshot ar)))
                  (CmdRequest (raftCmd (arCmd ar))) (s\<lparr>asyncRequestChan := rest\<rparr>) of
             ((resps, Some (Panic p)), s') \<Rightarrow> (Inl (Panic p), s')
           | ((resps, err), s') \<Rightarrow> (Inr (), reply (Some (arCmd ar)) (zero_bresp\<lparr>Resp := resps\<rparr>, err) s')))"

text \<open>The other case of its select: the outcome of sending a snapshot is reported to raft.\<close>

definition snapStatusStep ::
    "('db, 'txn, 'g, 'w) env \<Rightarrow> RaftMessageRequest \<Rightarrow> error option \<Rightarrow> ('db, 'txn, 'g, 'w) store
       \<Rightarrow> ('db, 'txn, 'g, 'w) store" where
  "snapStatusStep V req err s =
     (case getReplica (RMRangeID req) s of
        Inl _ \<Rightarrow> s
      | Inr a \<Rightarrow> updGroup a (rnReportSnapshot (vR V) (MsgTo (RMMessage req)) (err = None)) s)"

text \<open>
  \<^verbatim>\<open>raftMessage\<close> hands each message of a batch to the goroutine of its replica; here the goroutine
  handles it at once.
\<close>

fun store_raftMessage ::
    "('db, 'txn, 'g, 'w) env \<Rightarrow> RaftMessageRequest list \<Rightarrow> ('db, 'txn, 'g, 'w) store \<Rightarrow> ('db, 'txn, 'g, 'w) store" where
  "store_raftMessage V [] s = s"
| "store_raftMessage V (req # reqs) s =
     store_raftMessage V reqs
       (case getReplica (RMRangeID req) s of Inl _ \<Rightarrow> s | Inr a \<Rightarrow> snd (handleRaftMessage V a req s))"

subsection \<open>Statistics\<close>

definition makeRangeStatsKey :: "int32 \<Rightarrow> bytes" where
  "makeRangeStatsKey nid = RangeStatsKeyPrefix @ ascii ''_'' @ fmt_d (sint nid)"

definition loadRangeStats ::
    "('db, 'txn, 'g, 'w) env \<Rightarrow> int32 \<Rightarrow> 'db \<Rightarrow> error + (int64 \<rightharpoonup> RangeStatsInfo)" where
  "loadRangeStats V nid db =
     bindE (Get (rocksdb (vB V)) (makeRangeStatsKey nid) db) (\<lambda>val.
       case val of
         None \<Rightarrow> Inr Map.empty
       | Some val \<Rightarrow> bindE (vUnmarshalStats V val) (\<lambda>nsi. Inr (NSRangeStats nsi)))"

text \<open>
  The loop of \<^verbatim>\<open>newNodeStats\<close> over the ranges in the order Go visits the map. A range that was not
  removed but has no replica is left out.
\<close>

fun nodeStatsLoop ::
    "('db, 'txn, 'g, 'w) env \<Rightarrow> int64 list \<Rightarrow> NodeStatsInfo \<Rightarrow> ('db, 'txn, 'g, 'w) store
       \<Rightarrow> NodeStatsInfo \<times> ('db, 'txn, 'g, 'w) store" where
  "nodeStatsLoop V [] nsi s = (nsi, s)"
| "nodeStatsLoop V (rid # rids) nsi s =
     (case rangeStats s rid of
        None \<Rightarrow> nodeStatsLoop V rids nsi s
      | Some rs \<Rightarrow>
          (let add = (\<lambda>isLeader.
                 let rs' = rs\<lparr>IsRaftLeader := isLeader\<rparr>
                 in nodeStatsLoop V rids
                      (nsi\<lparr>LeaderCount := LeaderCount nsi + (if isLeader then 1 else 0),
                           NSTotalBytes := NSTotalBytes nsi + TotalBytes rs,
                           NSTotalCount := NSTotalCount nsi + TotalCount rs,
                           NSRangeStats := (NSRangeStats nsi)(rid \<mapsto> rs')\<rparr>)
                      (s\<lparr>rangeStats := (rangeStats s)(rid \<mapsto> rs')\<rparr>))
           in if \<not> IsRemoved rs then
                (case getReplica rid s of
                   Inl _ \<Rightarrow> nodeStatsLoop V rids nsi s
                 | Inr a \<Rightarrow> add (snd (getRaftGroupLeader V a s)))
              else add False))"

definition newNodeStats ::
    "('db, 'txn, 'g, 'w) env \<Rightarrow> int64 list \<Rightarrow> ('db, 'txn, 'g, 'w) store
       \<Rightarrow> NodeStatsInfo \<times> ('db, 'txn, 'g, 'w) store" where
  "newNodeStats V rids s =
     nodeStatsLoop V rids
       \<lparr>NSNodeID = nodeID s, NSTotalBytes = 0, NSTotalCount = 0, LeaderCount = 0, NSRangeStats = Map.empty\<rparr> s"

definition storeNodeStats ::
    "('db, 'txn, 'g, 'w) env \<Rightarrow> NodeStatsInfo \<Rightarrow> (('db, 'txn, 'g, 'w) store, error, unit) op" where
  "storeNodeStats V nsi s =
     (case vMarshalStats V nsi of
        Inl err \<Rightarrow> (Inl (Errorf ''stats marshal error''), s)
      | Inr val \<Rightarrow>
          (case Put (rocksdb (vB V)) (makeRangeStatsKey (nodeID s)) val (engine s) of
             (Inl err, db) \<Rightarrow> (Inl (Errorf ''put stats local error''), s\<lparr>engine := db\<rparr>)
           | (Inr _, db) \<Rightarrow> (Inr (), s\<lparr>engine := db\<rparr>)))"

text \<open>What the goroutine of \<^verbatim>\<open>uploadRangeStats\<close> does on each tick; errors are logged.\<close>

definition uploadStep ::
    "('db, 'txn, 'g, 'w) env \<Rightarrow> int64 list \<Rightarrow> ('db, 'txn, 'g, 'w) store \<Rightarrow> ('db, 'txn, 'g, 'w) store" where
  "uploadStep V rids s =
     (case newNodeStats V rids s of
        (stats, s) \<Rightarrow>
          if \<forall>rid \<in> set rids. NSRangeStats stats rid = None then s
          else snd (onNet (cSetNodeStats (vC V) stats) (snd (storeNodeStats V stats s))))"

definition NewStore ::
    "('db, 'txn, 'g, 'w) env \<Rightarrow> int32 \<Rightarrow> 'w \<Rightarrow> 'db \<Rightarrow> NodesCache \<Rightarrow> error + ('db, 'txn, 'g, 'w) store" where
  "NewStore V nid w db nc =
     bindE (loadRangeStats V nid db) (\<lambda>stats.
       Inr \<lparr>nodeID = nid, engine = db, transp = newTransport nc, net = w, objs = [], replicas = Map.empty,
            asyncRequestChan = [], rangeStats = stats, activeRaftSnapshot = 0, snapshotWorkers = [],
            snapshotChan = [], replies = []\<rparr>)"

end
