(* ===== verification/NodeFrame.thy ===== *)
theory NodeFrame
  imports Store
begin

section \<open>What data operations keep\<close>

text \<open>No command on the data creates, drops or marks the statistics of its range.\<close>

definition stats_kept :: "'e estate \<Rightarrow> 'e estate \<Rightarrow> bool" where
  "stats_kept es es' \<longleftrightarrow> map_option IsRemoved (rstats es') = map_option IsRemoved (rstats es)"

interpretation sk: frame stats_kept
  by unfold_locales (simp_all add: stats_kept_def)

lemma UpdateRangeStats_IsRemoved [simp]: "IsRemoved (UpdateRangeStats ok ov k v rs) = IsRemoved rs"
  by (simp add: UpdateRangeStats_def Let_def)

lemma stats_kept_ops [frame_intros]:
  "always stats_kept (readEng f)" "always stats_kept (onEng m)"
  "always stats_kept (updateStats st ok ov k v)" "always stats_kept (updateStatsDeref st ok ov k v)"
  "always stats_kept resetStats"
  by (auto simp: always_def stats_kept_def readEng_def onEng_def updateStats_def updateStatsDeref_def
      resetStats_def option.map_comp comp_def split: prod.splits option.splits)

lemma stats_kept_mvcc [frame_intros]:
  "always stats_kept (MVCCPutMeta E key txn deleted st ok ov)"
  "always stats_kept (MVCCPutTxn E reqTxn changeType st)"
  "always stats_kept (MVCCPut E key otxn val st)"
  "always stats_kept (MVCCClear E key ts)"
  unfolding MVCCPutMeta_def MVCCPutTxn_def MVCCPut_def mvccPutInternal_def MVCCClear_def
  by (intro frame_intros)+

lemma stats_kept_resolve [frame_intros]:
  "always stats_kept (mvccResolveIntentUpdate E key txn localMeta st)"
  "always stats_kept (abortUpdateMeta E key txn st ok ov kvs)"
  unfolding mvccResolveIntentUpdate_def abortUpdateMeta_def by (intro frame_intros)+

lemma stats_kept_resolves [frame_intros]:
  "always stats_kept (mvccResolveIntentPending E key txn localMeta st ok ov)"
  "always stats_kept (mvccResolveIntentCommit E key txn localMeta st ok ov)"
  "always stats_kept (mvccResolveIntentAbort E key txn localMeta st ok ov)"
  unfolding mvccResolveIntentPending_def mvccResolveIntentCommit_def mvccResolveIntentAbort_def
  by (intro frame_intros)+

lemma stats_kept_resolveIntent: "always stats_kept (resolveIntent E intent st)"
proof (rule alwaysI)
  fix s
  note k = stats_kept_resolves [unfolded always_def, rule_format]
  show "stats_kept s (snd (resolveIntent E intent st s))"
    unfolding resolveIntent_def Let_def
    by (auto simp: sk.R_refl k split: sum.splits option.splits error.splits)
qed

lemma stats_kept_MVCCResolveWriteIntent [frame_intros]:
  "always stats_kept (MVCCResolveWriteIntent E intents st)"
proof (rule alwaysI)
  fix s
  show "stats_kept s (snd (MVCCResolveWriteIntent E intents st s))"
  proof (induction intents arbitrary: s)
    case (Cons intent intents)
    obtain x s1 where x: "resolveIntent E intent st s = (x, s1)" by (cases "resolveIntent E intent st s")
    with Cons.IH [of s1] alwaysD [OF stats_kept_resolveIntent x] show ?case
      by (auto split: sum.splits error.splits intro: sk.R_trans)
  qed (simp add: sk.R_refl)
qed

lemma stats_kept_derefTxn [frame_intros]:
  "(\<And>t. always stats_kept (f t)) \<Longrightarrow> always stats_kept (derefTxn txn f)"
  unfolding derefTxn_def by (intro frame_intros)

lemma stats_kept_commands [frame_intros]:
  "always stats_kept (replica_put E h val)" "always stats_kept (beginTransaction E h)"
  "always stats_kept (endTransaction E h commit)" "always stats_kept (replica_resolveIntent E h intents)"
  unfolding replica_put_def beginTransaction_def endTransaction_def replica_resolveIntent_def
    putConflict_def putDataAndMeta_def putMetaData_def wrapper_defs
  by (intro frame_intros)+

lemma stats_kept_push [frame_intros]: "always stats_kept (pushTransaction E h pk pt ts)"
  unfolding pushTransaction_def processPushTransaction_def wrapper_defs Let_def by (intro frame_intros)

lemma stats_kept_heartbeat [frame_intros]: "always stats_kept (heartbeatTransaction E h)"
  unfolding heartbeatTransaction_def putTxnData_def
proof (rule stats_kept_derefTxn, rule alwaysI)
  fix t s
  obtain x s1 where x: "MVCCPutTxn E t TxnChangeTypeHeartbeat False s = (x, s1)"
    by (cases "MVCCPutTxn E t TxnChangeTypeHeartbeat False s")
  then have "stats_kept s s1" by (rule alwaysD [OF stats_kept_mvcc(2)])
  then show "stats_kept s (snd (case MVCCPutTxn E t TxnChangeTypeHeartbeat False s of
       (Inl (TransactionStatusError _ _ _), s') \<Rightarrow> (Inr (Some (zero_txn\<lparr>ID := ID t, Status := ABORTED\<rparr>)), s')
     | (Inl (Panic p), s') \<Rightarrow> (Inl (Panic p), s') | (_, s') \<Rightarrow> (Inr None, s')))"
    unfolding x by (auto split: sum.splits error.splits)
qed

lemma stats_kept_applyPairs [frame_intros]: "always stats_kept (applyPairs B kvs)"
proof (induction kvs)
  case (Cons kv kvs)
  then show ?case unfolding applyPairs.simps by (intro frame_intros)
qed (unfold applyPairs.simps, intro frame_intros)

lemma stats_kept_resolvePushee [frame_intros]: "always stats_kept (resolvePushee B intent txns)"
proof (induction txns)
  case (Cons t txns)
  then show ?case unfolding resolvePushee.simps by (intro frame_intros)
qed (unfold resolvePushee.simps, intro frame_intros)

section \<open>What raft operations keep\<close>

definition id_kept :: "('g, 'e) onDisk \<Rightarrow> ('g, 'e) onDisk \<Rightarrow> bool" where
  "id_kept s s' \<longleftrightarrow> rangeID (fst s') = rangeID (fst s)"

interpretation ik: frame id_kept
  by unfold_locales (simp_all add: id_kept_def)

lemma id_kept_onDb [frame_intros]: "always id_kept (onDb m)"
  by (auto simp: always_def id_kept_def onDb_def split: prod.splits)

lemma id_kept_sets [frame_intros]:
  "always id_kept (setOffsetIndex E i)" "always id_kept (setAppliedIndex E i)" "always id_kept (setLastIndex E i)"
  by (auto simp: always_def id_kept_def set_index_defs onDb_def split: prod.splits)

lemma id_kept_putEntries [frame_intros]:
  fixes B :: "('db, 'txn) badger"
  shows "always (id_kept :: ('g, 'db) onDisk \<Rightarrow> _) (putEntries B P ents)"
proof (induction ents)
  case (Cons e es)
  have "always (id_kept :: ('g, 'db) onDisk \<Rightarrow> _) (bindM (onDb m) (\<lambda>_. putEntries B P es))"
    for m :: "('db, error, unit) op" by (intro frame_intros Cons)
  then show ?case by (auto simp: always_def ik.R_refl split: sum.splits)
qed (unfold putEntries.simps, intro frame_intros)

lemma id_kept_append [frame_intros]: "always id_kept (replica_append B P ents)"
proof -
  have "always id_kept (\<lambda>s. onDb (m s) s)" for m
    by (auto simp: always_def id_kept_def onDb_def split: prod.splits)
  then show ?thesis unfolding replica_append_def by (intro frame_intros)
qed

lemma id_kept_raft [frame_intros]:
  "always id_kept (setHardState B P hs)" "always id_kept (replica_clear B)" "always id_kept (compact B i)"
proof -
  show "always id_kept (setHardState B P hs)" "always id_kept (replica_clear B)"
    by (auto simp: always_def id_kept_def setHardState_def replica_clear_def onDb_def
        split: prod.splits sum.splits)
  show "always id_kept (compact B i)"
    by (auto simp: always_def id_kept_def compact_def Let_def set_index_defs onDb_def
        split: prod.splits sum.splits)
qed

text \<open>Both, for an operation on a replica with the state of its range.\<close>

definition disk_kept :: "('g, 'e estate) onDisk \<Rightarrow> ('g, 'e estate) onDisk \<Rightarrow> bool" where
  "disk_kept s s' \<longleftrightarrow> id_kept s s' \<and> stats_kept (snd s) (snd s')"

interpretation dk: frame disk_kept
  by unfold_locales (auto simp: disk_kept_def intro: ik.R_refl ik.R_trans sk.R_refl sk.R_trans)

lemma disk_kept_onDb [frame_intros]: "always stats_kept m \<Longrightarrow> always disk_kept (onDb m)"
  by (auto simp: always_def disk_kept_def id_kept_def onDb_def split: prod.splits) (metis snd_conv)

lemma disk_kept_onStore [frame_intros]: "always id_kept m \<Longrightarrow> always disk_kept (onStore m)"
  by (auto simp: always_def disk_kept_def id_kept_def onStore_def stats_kept_def split: prod.splits)
    (metis fst_conv snd_conv)

lemma disk_kept_truncate [frame_intros]:
  "always disk_kept (\<lambda>s. (Inr (), (fst s)\<lparr>raftTruncateIndex := i, raftTruncateTerm := t\<rparr>, snd s))"
  by (auto simp: always_def disk_kept_def id_kept_def sk.R_refl)

lemma applySnapshot_eq:
  "applySnapshot B snap =
     (case SnapshotKeyValues_Unmarshal [] (SnapData snap) of
        Inl err \<Rightarrow> fail (protoError err)
      | Inr kvs \<Rightarrow>
          bindM (onStore (replica_clear B)) (\<lambda>_.
          bindM (onDb resetStats) (\<lambda>_.
          bindM (onDb (applyPairs B kvs)) (\<lambda>_.
          bindM (onStore (setLastIndex (rocksdb B) (SMIndex (SnapMeta snap)))) (\<lambda>_.
          bindM (onStore (setAppliedIndex (rocksdb B) (SMIndex (SnapMeta snap)))) (\<lambda>_ s.
          (Inr (), (fst s)\<lparr>raftTruncateIndex := SMIndex (SnapMeta snap),
                          raftTruncateTerm := SMTerm (SnapMeta snap)\<rparr>, snd s)))))))"
  by (rule ext) (auto simp: applySnapshot_def fail_def split: sum.splits)

lemma disk_kept_applySnapshot [frame_intros]: "always disk_kept (applySnapshot B snap)"
  unfolding applySnapshot_eq by (intro frame_intros)

end
