(* ===== verification/NodeInv.thy ===== *)
theory NodeInv
  imports NodeFrame
begin

text \<open>
  The node as a whole: every operation of the replicas and the store keeps the invariant \<open>store_wf\<close>,
  and so does every interleaving of the node's goroutines, the step relation \<open>nodeStep\<close>. On top of it:
  taking raft snapshots, splitting a range, and how committed commands are executed and answered.
\<close>

section \<open>What the operations of a node keep\<close>

text \<open>
  The invariant of a store: every entry of its replica map points to an object of that range, the
  range has statistics that are not marked as removed, and the snapshot token is taken exactly while a
  snapshot goroutine runs. It depends on the abstraction \<open>node_abs\<close> alone.
\<close>

definition token_ok :: "int32 \<Rightarrow> nat list \<Rightarrow> bool" where
  "token_ok tok workers \<longleftrightarrow> tok = 0 \<and> workers = [] \<or> tok = 1 \<and> length workers = 1"

definition store_wf :: "('db, 'txn, 'g, 'w) store \<Rightarrow> bool" where
  "store_wf s \<longleftrightarrow> token_ok (activeRaftSnapshot s) (snapshotWorkers s) \<and>
     (\<forall>rid a. replicas s rid = Some a \<longrightarrow>
        a < length (objs s) \<and> rangeID (self a s) = rid \<and> map_option IsRemoved (rangeStats s rid) = Some False)"

definition node_abs ::
    "('db, 'txn, 'g, 'w) store \<Rightarrow> (int64 \<rightharpoonup> nat) \<times> int64 list \<times> (int64 \<rightharpoonup> bool) \<times> int32 \<times> nat list" where
  "node_abs s = (replicas s, map rangeID (objs s), \<lambda>rid. map_option IsRemoved (rangeStats s rid),
     activeRaftSnapshot s, snapshotWorkers s)"

text \<open>Objects are never freed or moved, and the invariant is kept.\<close>

definition store_kept :: "('db, 'txn, 'g, 'w) store \<Rightarrow> ('db, 'txn, 'g, 'w) store \<Rightarrow> bool" where
  "store_kept s s' \<longleftrightarrow> prefix (map rangeID (objs s)) (map rangeID (objs s')) \<and> (store_wf s \<longrightarrow> store_wf s')"

interpretation stk: frame store_kept
  by unfold_locales (auto simp: store_kept_def intro: prefix_order.trans)

lemma store_wf_abs:
  "store_wf s \<longleftrightarrow> (case node_abs s of (reps, ids, removed, tok, workers) \<Rightarrow> token_ok tok workers \<and>
     (\<forall>rid a. reps rid = Some a \<longrightarrow> a < length ids \<and> ids ! a = rid \<and> removed rid = Some False))"
  by (simp add: store_wf_def node_abs_def self_def cong: conj_cong)

lemma same_kept: "node_abs s' = node_abs s \<Longrightarrow> store_kept s s'"
  by (simp add: store_kept_def store_wf_abs) (simp add: node_abs_def)

lemma setSelf_abs: "rangeID r = rangeID (self a s) \<Longrightarrow> node_abs (setSelf a r s) = node_abs s"
  by (cases "a < length (objs s)") (simp_all add: node_abs_def setSelf_def self_def map_update list_update_same_conv list_update_beyond)

lemma setSelf_kept: "rangeID r = rangeID (self a s) \<Longrightarrow> store_kept s (setSelf a r s)"
  by (rule same_kept) (rule setSelf_abs)

lemma updGroup_kept: "store_kept s (updGroup a f s)"
  by (simp add: updGroup_def setSelf_kept)

lemma store_kept_onSelf [frame_intros]:
  fixes m :: "(('g, 'db estate) onDisk, error, 'a) op"
  assumes "always disk_kept m"
  shows "always (store_kept :: ('db, 'txn, 'g, 'w) store \<Rightarrow> _) (onSelf a m)"
proof (rule alwaysI)
  fix s :: "('db, 'txn, 'g, 'w) store"
  let ?es = "\<lparr>eng = engine s, rstats = rangeStats s (rangeID (self a s))\<rparr>"
  obtain x r' es where m: "m (self a s, ?es) = (x, (r', es))" by (cases "m (self a s, ?es)") auto
  from alwaysD [OF assms m] have k: "rangeID r' = rangeID (self a s)"
    "map_option IsRemoved (rstats es) = map_option IsRemoved (rangeStats s (rangeID (self a s)))"
    by (simp_all add: disk_kept_def id_kept_def stats_kept_def)
  let ?s = "s\<lparr>engine := eng es, rangeStats := (rangeStats s)(rangeID (self a s) := rstats es)\<rparr>"
  have "node_abs ?s = node_abs s" using k(2) by (auto simp: node_abs_def fun_eq_iff)
  moreover have "store_kept ?s (setSelf a r' ?s)" by (rule setSelf_kept) (simp add: k(1) self_def)
  ultimately have "store_kept s (setSelf a r' ?s)" by (metis same_kept stk.R_trans)
  then show "store_kept s (snd (onSelf a m s))" by (simp add: onSelf_def Let_def m)
qed

lemma store_kept_onData [frame_intros]: "always stats_kept m \<Longrightarrow> always store_kept (onData a m)"
  unfolding onData_def by (intro frame_intros)

lemma store_kept_basic [frame_intros]:
  "always store_kept (onRaft a g)" "always store_kept (onNet n)" "always store_kept (pureOp x)"
  by (auto simp: always_def onRaft_def onNet_def pureOp_def setSelf_kept stk.R_refl
      split: prod.splits intro: same_kept) (simp add: same_kept node_abs_def)

lemma grow_kept: "store_kept s (s\<lparr>objs := objs s @ [r]\<rparr>)"
  unfolding store_kept_def store_wf_def self_def
  by (auto simp: nth_append less_Suc_eq)

lemma store_kept_newReplica: "always store_kept (newReplica V rd needLoad)"
proof (rule alwaysI)
  fix s
  show "store_kept s (snd (newReplica V rd needLoad s))"
    by (auto simp: newReplica_def Let_def stk.R_refl grow_kept split: sum.splits)
qed

lemma newReplica_result:
  "newReplica V rd needLoad s = (Inr a, s') \<Longrightarrow>
     a = length (objs s) \<and> (\<exists>r. objs s' = objs s @ [r] \<and> rangeID r = RangeID rd \<and> rangeDesc r = rd) \<and>
     replicas s' = replicas s \<and> rangeStats s' = rangeStats s \<and> nodeID s' = nodeID s"
  by (auto simp: newReplica_def Let_def withGroup_def loadRaftPrevIndex_def split: sum.splits)

lemma store_kept_createReplica [frame_intros]: "always store_kept (createReplica V rd needLoad)"
proof (rule alwaysI)
  fix s
  show "store_kept s (snd (createReplica V rd needLoad s))"
  proof (cases "getReplica (RangeID rd) s")
    case (Inl e)
    obtain x s1 where n: "newReplica V rd needLoad s = (x, s1)" by (cases "newReplica V rd needLoad s")
    have k: "store_kept s s1" by (rule alwaysD [OF store_kept_newReplica n])
    show ?thesis
    proof (cases x)
      case (Inl e')
      with n \<open>getReplica (RangeID rd) s = Inl e\<close> k show ?thesis by (simp add: createReplica_def)
    next
      case (Inr a)
      from newReplica_result [OF n [unfolded Inr]] obtain r where
        r: "a = length (objs s)" "objs s1 = objs s @ [r]" "rangeID r = RangeID rd" "replicas s1 = replicas s" by blast
      let ?s = "addReplica (RangeID rd) a (addRangeStats (RangeID rd) s1)"
      have "map rangeID (objs ?s) = map rangeID (objs s1)"
        by (simp add: addReplica_def addRangeStats_def split: option.splits)
      moreover have "store_wf s1 \<Longrightarrow> store_wf ?s"
        using r by (auto simp: store_wf_def addReplica_def addRangeStats_def self_def split: option.splits if_splits)
      ultimately have "store_kept s1 ?s" by (simp add: store_kept_def)
      with k have "store_kept s ?s" by (rule stk.R_trans)
      with n Inr \<open>getReplica (RangeID rd) s = Inl e\<close> show ?thesis by (simp add: createReplica_def)
    qed
  qed (simp add: createReplica_def stk.R_refl)
qed

lemma store_kept_fillRangeStats [frame_intros]: "always store_kept (fillRangeStats oldID newID nb nc)"
proof (rule alwaysI)
  fix s
  show "store_kept s (snd (fillRangeStats oldID newID nb nc s))"
    by (auto simp: fillRangeStats_def Let_def split: option.splits intro!: same_kept)
      (auto simp: node_abs_def fun_eq_iff)
qed

section \<open>Commands of a replica\<close>

lemma retryFor_kept:
  assumes "\<And>s. store_kept s (snd (body s))"
  shows "store_kept s (snd (retryFor n r body s))"
proof (induction n arbitrary: r s)
  case (Suc n)
  obtain go r' where g: "Next False r = (go, r')" by (cases "Next False r")
  obtain x s1 where b: "body s = (x, s1)" by (cases "body s")
  with assms [of s] Suc.IH [of s1 r'] g show ?case
    by (cases x) (auto simp: stk.R_refl intro: stk.R_trans)
qed (simp add: stk.R_refl)

text \<open>A command that is given as a function of the state it starts in.\<close>

lemma always_state: "(\<And>s. always R (f s)) \<Longrightarrow> always R (\<lambda>s. f s s)"
  by (simp add: always_def)

lemma pair_kept [frame_intros]: "always store_kept (\<lambda>s. (x s, s))"
  by (simp add: always_def stk.R_refl)

lemma store_kept_setRangeStats [frame_intros]: "always store_kept (setRangeStats V stats)"
  unfolding setRangeStats_def by (intro frame_intros)

lemma split_report_kept [frame_intros]:
  "always store_kept (\<lambda>s. case setRangeStats V stats s of (_, s) \<Rightarrow> (Inr x, s))"
  using store_kept_setRangeStats [of V stats] by (auto simp: always_def split: prod.splits) (metis snd_conv)

lemma if_state: "(if b then (Inl e, s) else f s) = (if b then fail e else f) s"
  by simp

lemma store_kept_split [frame_intros]: "always store_kept (split V a h newID k nb nc)"
proof -
  have "always store_kept (bindM (createReplica V d False) (\<lambda>_.
      bindM (fillRangeStats oldID newID nb nc) (\<lambda>stats s.
        (case setRangeStats V stats s of (_, s) \<Rightarrow> (Inr x, s)))))" for d oldID and x :: Response
    by (intro frame_intros)
  then show ?thesis by (auto simp: split_def Let_def always_def stk.R_refl)
qed

lemma store_kept_conf [frame_intros]:
  "always store_kept (addRaftConf V a h nid)" "always store_kept (deleteRaftConf V a h nid)"
proof -
  have "always store_kept (bindM (handleRaftAddConf V a i) (\<lambda>_ s. (Inr (f s), s)))"
    "always store_kept (bindM (handleRaftDeleteConf V a i) (\<lambda>_ s. (Inr (f s), s)))"
    for i and f :: "_ \<Rightarrow> Response"
    unfolding handleRaftAddConf_def handleRaftDeleteConf_def by (intro frame_intros)+
  then show "always store_kept (addRaftConf V a h nid)" "always store_kept (deleteRaftConf V a h nid)"
    by (auto simp: addRaftConf_def deleteRaftConf_def always_def stk.R_refl)
qed

lemma store_kept_updateRange [frame_intros]: "always store_kept (updateRange a h d)"
  by (auto simp: always_def updateRange_def stk.R_refl setSelf_kept)

lemma store_kept_compactLog [frame_intros]: "always store_kept (compactLog V a h)"
proof -
  have "always store_kept (onSelf a (onStore (compact (vB V) i)))" for i by (intro frame_intros)
  then show ?thesis by (auto simp: compactLog_def always_def stk.R_refl)
qed

lemma store_kept_transferLeader [frame_intros]:
  fixes V :: "('db, 'txn, 'g, 'w) env"
  assumes "\<And>s. store_kept s (sched s)"
  shows "always store_kept (transferLeader V sched a f t)"
proof (rule alwaysI)
  fix s :: "('db, 'txn, 'g, 'w) store"
  let ?to = "rangeID (self a s) + scast t"
  let ?s = "setSelf a ((self a s)\<lparr>raftGroup := rnTransferLeader (vR V) ?to (raftGroup (self a s))\<rparr>) s"
  let ?body = "\<lambda>s. let s = sched s
    in (if rnLead (vR V) (raftGroup (self a s)) = ?to then Some () else None, s)"
  have "store_kept ?s (snd (retryFor 22 (Start retryOptions) ?body ?s))"
    by (rule retryFor_kept) (simp add: Let_def assms)
  moreover have "store_kept s ?s" by (rule setSelf_kept) simp
  ultimately have "store_kept s (snd (retryFor 22 (Start retryOptions) ?body ?s))" by (rule stk.R_trans [rotated])
  then show "store_kept s (snd (transferLeader V sched a f t s))"
    unfolding transferLeader_def Let_def
    by (auto simp: stk.R_refl split: prod.splits option.splits)
qed

lemma store_kept_executeCmd [frame_intros]:
  assumes "\<And>s. store_kept s (sched s)"
  shows "always store_kept (executeCmd V fuel sched a snap req)"
proof (rule alwaysI)
  fix s
  note k = frame_intros assms
  show "store_kept s (snd (executeCmd V fuel sched a snap req s))"
  proof (cases req)
    case (GetRequest h)
    then show ?thesis by (auto simp: executeCmd_def Let_def pureOp_def stk.R_refl)
  next
    case (PutRequest h v)
    have "always store_kept (bindM (onData a (replica_put (rocksdb (vB V)) h v)) (\<lambda>_. ret (PutResponse zero_resp)))"
      by (intro k)
    then show ?thesis using PutRequest by (auto simp: executeCmd_def Let_def stk.R_refl always_def simp del: ret_apply)
  qed (auto simp: executeCmd_def Let_def pureOp_def stk.R_refl
      intro!: alwaysD [OF _ prod.collapse [symmetric], of store_kept] k simp del: ret_apply)
qed

section \<open>The raft goroutine\<close>

lemma executeLoop_kept:
  fixes ex :: "Request \<Rightarrow> (('db, 'txn, 'g, 'w) store, error, Response) op"
  assumes "\<And>req. always store_kept (ex req)"
  shows "store_kept s (snd (executeLoop ex us resps s))"
proof (induction us arbitrary: resps s)
  case (Cons u us)
  show ?case
  proof (cases u)
    case (Some req)
    obtain x s1 where x: "ex req s = (x, s1)" by (cases "ex req s")
    with alwaysD [OF assms x] Cons.IH [of s1] Some show ?thesis
      by (auto split: sum.splits intro: stk.R_trans)
  qed (simp add: stk.R_refl)
qed (simp add: stk.R_refl)

lemma Execute_kept:
  fixes ex :: "Request \<Rightarrow> (('db, 'txn, 'g, 'w) store, error, Response) op"
  assumes "\<And>req. always store_kept (ex req)" "Execute ex br s = (x, s')"
  shows "store_kept s s'"
  using executeLoop_kept [of ex s "Req br" "[]"] assms by (simp add: Execute_def)

lemma store_kept_executeWrite:
  fixes V :: "('db, 'txn, 'g, 'w) env"
  assumes "\<And>s. store_kept s (sched s)"
  shows "always store_kept (executeWrite V fuel sched a breq req)"
proof (rule alwaysI)
  fix s :: "('db, 'txn, 'g, 'w) store"
  note cmd = store_kept_executeCmd [OF assms, where V = V and fuel = fuel and a = a]
  have pre: "always store_kept (preprocessWriteIntentError V a breq err)" for err
    unfolding preprocessWriteIntentError_def
    by (cases err) (auto intro!: frame_intros split: error.splits simp del: ret_apply)
  obtain x s1 where x: "executeCmd V fuel sched a None req s = (x, s1)"
    by (cases "executeCmd V fuel sched a None req s")
  have 1: "store_kept s s1" by (rule alwaysD [OF cmd x])
  show "store_kept s (snd (executeWrite V fuel sched a breq req s))"
  proof (cases x)
    case (Inl err)
    obtain y s2 where y: "preprocessWriteIntentError V a breq (Some err) s1 = (y, s2)"
      by (cases "preprocessWriteIntentError V a breq (Some err) s1")
    have 2: "store_kept s s2" by (rule stk.R_trans [OF 1 alwaysD [OF pre y]])
    have "store_kept s (snd (executeCmd V fuel sched a None req s2))"
      using cmd [of None req] 2 stk.R_trans by (auto simp: always_def)
    with x y Inl 2 show ?thesis by (auto simp: executeWrite_def split: sum.splits bool.splits)
  qed (simp add: executeWrite_def x 1)
qed

lemma reply_kept: "store_kept s (reply cmd res s)"
  by (auto simp: reply_def stk.R_refl split: option.splits intro: same_kept) (simp add: same_kept node_abs_def)

lemma applyIndex_kept:
  fixes V :: "('db, 'txn, 'g, 'w) env" and s :: "('db, 'txn, 'g, 'w) store"
  shows "store_kept s (applyIndex V a i s)"
proof -
  have "always (store_kept :: ('db, 'txn, 'g, 'w) store \<Rightarrow> _)
    (onSelf a (onStore (setAppliedIndex (rocksdb (vB V)) i)))" by (intro frame_intros)
  then show ?thesis by (simp add: applyIndex_def always_def)
qed

lemma async_kept: "store_kept s (s\<lparr>asyncRequestChan := q\<rparr>)" "store_kept s (s\<lparr>replies := rs\<rparr>)"
  "store_kept s (s\<lparr>transp := t\<rparr>)" "store_kept s (s\<lparr>snapshotChan := c\<rparr>)" "store_kept s (s\<lparr>engine := db\<rparr>)"
  "store_kept s (s\<lparr>net := w\<rparr>)"
  by (rule same_kept, simp add: node_abs_def)+

lemma store_kept_processRaftCommand [frame_intros]:
  fixes V :: "('db, 'txn, 'g, 'w) env"
  assumes "\<And>s. store_kept s (sched s)"
  shows "always store_kept (processRaftCommand V fuel sched a data index)"
proof (rule alwaysI)
  fix s :: "('db, 'txn, 'g, 'w) store"
  let ?r = "self a s" and ?breq = "CmdRequest (RDCmd data)"
  let ?s = "setSelf a (?r\<lparr>pendingCmds := (pendingCmds ?r)(RDId data := None)\<rparr>) s"
  have 1: "store_kept s ?s" by (rule setSelf_kept) simp
  obtain resps err s2 where ex: "Execute (executeWrite V fuel sched a ?breq) ?breq ?s = ((resps, err), s2)"
    by (cases "Execute (executeWrite V fuel sched a ?breq) ?breq ?s") auto
  have 2: "store_kept s s2"
    by (rule stk.R_trans [OF 1 Execute_kept [OF _ ex]]) (rule store_kept_executeWrite [OF assms])
  have fin: "store_kept s (applyIndex V a index t)" if "store_kept s t" for t
    by (rule stk.R_trans [OF that applyIndex_kept])
  have async: "store_kept s (?s\<lparr>asyncRequestChan := q\<rparr>)" for q by (rule stk.R_trans [OF 1 async_kept(1)])
  have rep: "store_kept s (reply c res s2)" for c res by (rule stk.R_trans [OF 2 reply_kept])
  show "store_kept s (snd (processRaftCommand V fuel sched a data index s))"
    unfolding processRaftCommand_def Let_def ex
    by (auto split: sum.splits option.splits error.splits intro!: fin 1 2 async rep)
qed

lemma store_kept_handleRaftMessage:
  fixes V :: "('db, 'txn, 'g, 'w) env"
  shows "always store_kept (handleRaftMessage V a req)"
proof -
  have "always (store_kept :: ('db, 'txn, 'g, 'w) store \<Rightarrow> _) (mapErr (\<lambda>_. e) (onRaft a (rnStep (vR V) m)))" for e :: error and m by (intro frame_intros)
  then show ?thesis by (auto simp: handleRaftMessage_def always_def stk.R_refl)
qed

lemma sendCached_kept: "store_kept s (sendCached V a nid m s)"
proof -
  obtain res t where t: "transport_send \<lparr>RMRangeID = rangeID (self a s), FromNodeID = nodeID s,
      ToNodeID = nid, RMMessage = m\<rparr> (transp s) = (res, t)"
    by (metis surj_pair)
  have 1: "store_kept s (s\<lparr>transp := t\<rparr>)" by (rule async_kept)
  then have 2: "store_kept s (updGroup b f (s\<lparr>transp := t\<rparr>))" for b f by (rule stk.R_trans [OF _ updGroup_kept])
  then have "store_kept s (updGroup c g (updGroup b f (s\<lparr>transp := t\<rparr>)))" for b c f g
    by (rule stk.R_trans [OF _ updGroup_kept])
  with 1 2 show ?thesis unfolding sendCached_def t by (auto simp: Let_def)
qed

lemma sendRaftMessage_kept: "store_kept s (sendRaftMessage V a m s)"
proof -
  obtain x s1 where x: "onNet (cGetNodes (vC V)) s = (x, s1)" by (cases "onNet (cGetNodes (vC V)) s")
  have 1: "store_kept s s1" by (rule alwaysD [OF store_kept_basic(2) x])
  have 2: "store_kept s (s1\<lparr>transp := t\<rparr>)" for t by (rule stk.R_trans [OF 1 async_kept(3)])
  have "store_kept s (sendCached V a nid m (s1\<lparr>transp := t\<rparr>))" for nid t
    by (rule stk.R_trans [OF 2 sendCached_kept])
  with 1 2 show ?thesis
    unfolding sendRaftMessage_def x by (auto simp: Let_def stk.R_refl sendCached_kept split: sum.splits)
qed

lemma updGroup_op_kept [frame_intros]:
  "always store_kept (\<lambda>s. (Inr (), applyIndex V a i (updGroup a g s)))"
  "always store_kept (\<lambda>s. (Inr (), updGroup a g s))"
  by (auto simp: always_def intro: updGroup_kept stk.R_trans [OF updGroup_kept applyIndex_kept])

lemma store_kept_applyEntries [frame_intros]:
  fixes V :: "('db, 'txn, 'g, 'w) env"
  assumes "\<And>s. store_kept s (sched s)"
  shows "always store_kept (applyEntries V fuel sched a es)"
proof (induction es)
  case (Cons e es)
  then show ?case unfolding applyEntries.simps by (intro frame_intros assms)
qed (unfold applyEntries.simps, intro frame_intros)

lemma always_whenM [frame_intros]: "always store_kept m \<Longrightarrow> always store_kept (whenM b m)"
  unfolding whenM_def by (intro frame_intros)

lemma sendAll_kept [frame_intros]:
  "always store_kept (\<lambda>s. (Inr (), foldl (\<lambda>s m. sendRaftMessage V a m s) s ms))"
proof -
  have "store_kept s (foldl (\<lambda>s m. sendRaftMessage V a m s) s ms)" for s
    by (induction ms arbitrary: s) (auto simp: stk.R_refl intro: stk.R_trans sendRaftMessage_kept)
  then show ?thesis by (simp add: always_def)
qed

lemma store_kept_handleRaftReady [frame_intros]:
  fixes V :: "('db, 'txn, 'g, 'w) env"
  assumes "\<And>s. store_kept s (sched s)"
  shows "always store_kept (handleRaftReady V fuel sched a rd)"
  unfolding handleRaftReady_def by (intro frame_intros assms)

lemma store_kept_handleProposeCmd [frame_intros]:
  fixes V :: "('db, 'txn, 'g, 'w) env"
  shows "always store_kept (handleProposeCmd V a rnd cmd)"
proof (rule alwaysI)
  fix s :: "('db, 'txn, 'g, 'w) store"
  let ?s = "\<lambda>k. setSelf a ((self a s)\<lparr>pendingCmds := (pendingCmds (self a s))(k \<mapsto> cmd)\<rparr>) s"
  have "store_kept s (snd (onRaft a (rnPropose (vR V) d) (?s k)))" for d k
    by (rule stk.R_trans [OF setSelf_kept store_kept_basic(1) [unfolded always_def, rule_format]]) simp
  then show "store_kept s (snd (handleProposeCmd V a rnd cmd s))"
    unfolding handleProposeCmd_def Let_def by (auto simp: stk.R_refl split: sum.splits)
qed

lemma store_kept_raftStep:
  fixes V :: "('db, 'txn, 'g, 'w) env"
  assumes "\<And>s. store_kept s (sched s)" "raftStep V fuel sched a s s'"
  shows "store_kept s s'"
  using assms(2)
proof cases
  case (ready rd g x)
  from alwaysD [OF store_kept_handleRaftReady [OF assms(1)] ready(2)] show ?thesis
    by (rule stk.R_trans [OF updGroup_kept])
next
  case tick
  then show ?thesis by (simp add: updGroup_kept)
next
  case (message req x)
  then show ?thesis by (rule alwaysD [OF store_kept_handleRaftMessage])
next
  case (propose rnd cmd x)
  then show ?thesis by (rule alwaysD [OF store_kept_handleProposeCmd])
qed (unfold handleRaftAddConf_def handleRaftDeleteConf_def, (erule alwaysD [OF store_kept_basic(1)])+)

lemma store_kept_replica_Send [frame_intros]:
  fixes V :: "('db, 'txn, 'g, 'w) env"
  assumes "\<And>s. store_kept s (sched s)"
  shows "always store_kept (replica_Send V fuel sched rnd w a breq)"
proof (rule alwaysI)
  fix s :: "('db, 'txn, 'g, 'w) store"
  obtain resps err s1 where ex: "Execute (executeCmd V fuel sched a None) breq s = ((resps, err), s1)"
    by (metis surj_pair)
  have 1: "store_kept s s1" by (rule Execute_kept [OF store_kept_executeCmd [OF assms] ex])
  let ?c = "proposeRaftCommand a w breq s"
  obtain y s2 where p: "handleProposeCmd V a rnd ?c s = (y, s2)" by (cases "handleProposeCmd V a rnd ?c s")
  have 2: "store_kept s (sched s2)"
    by (rule stk.R_trans [OF alwaysD [OF store_kept_handleProposeCmd p] assms])
  then have "store_kept s ((sched s2)\<lparr>replies := q\<rparr>)" for q by (rule stk.R_trans [OF _ async_kept(2)])
  with 1 2 show "store_kept s (snd (replica_Send V fuel sched rnd w a breq s))"
    unfolding replica_Send_def ex p Let_def prod.case
    by (auto simp: stk.R_refl split: sum.splits option.splits error.splits)
qed

section \<open>The store\<close>

lemma then_kept: "store_kept s t \<Longrightarrow> always store_kept m \<Longrightarrow> store_kept s (snd (m t))"
  by (metis always_def stk.R_trans)

lemma store_kept_executeRootCmd [frame_intros]: "always store_kept (executeRootCmd V req)"
proof -
  have c: "always store_kept (executeCreateReplica V h d)" for h d
  proof -
    have "always store_kept (bindM (createReplica V d True) (\<lambda>_. ret ()))" by (intro frame_intros)
    then show ?thesis by (auto simp: executeCreateReplica_def always_def stk.R_refl)
  qed
  have r: "always store_kept (executeRemoveReplica h nid)" for h nid
    by (rule alwaysI) (auto simp: executeRemoveReplica_def deleteReplica_def getReplica_def store_kept_def
        store_wf_def self_def split: option.splits sum.splits)
  show ?thesis
    unfolding executeRootCmd_def
    by (cases req) (auto intro!: frame_intros c r simp del: ret_apply)
qed

lemma store_kept_processWriteIntentError [frame_intros]:
  "always store_kept (processWriteIntentError V intent pusher pushType)"
  unfolding processWriteIntentError_def by (intro frame_intros)

lemma store_kept_sendLoop [frame_intros]:
  fixes V :: "('db, 'txn, 'g, 'w) env"
  assumes "\<And>s. store_kept s (sched s)"
  shows "always store_kept (sendLoop n V fuel sched rnds ws a k breq bresp)"
proof (induction n arbitrary: k breq bresp)
  case (Suc n)
  have loop: "always store_kept (\<lambda>s. case processWriteIntentError V i p t s of
      (Inl err1, s) \<Rightarrow> (Inr (f s, Some err1), s)
    | (Inr x, s) \<Rightarrow> sendLoop n V fuel sched rnds ws a (k + 1) (g x) (f s) s)" for i p t f g
  proof (rule alwaysI)
    fix s :: "('db, 'txn, 'g, 'w) store"
    obtain y s1 where y: "processWriteIntentError V i p t s = (y, s1)"
      by (cases "processWriteIntentError V i p t s")
    have "store_kept s s1" by (rule alwaysD [OF store_kept_processWriteIntentError y])
    with then_kept [OF _ Suc.IH]
    show "store_kept s (snd (case processWriteIntentError V i p t s of
        (Inl err1, s) \<Rightarrow> (Inr (f s, Some err1), s)
      | (Inr x, s) \<Rightarrow> sendLoop n V fuel sched rnds ws a (k + 1) (g x) (f s) s))"
      unfolding y by (cases y) auto
  qed
  show ?case
    unfolding sendLoop.simps Let_def
    by (intro frame_intros assms) (auto split: error.splits intro!: frame_intros loop simp del: ret_apply)
qed (unfold sendLoop.simps, intro frame_intros)

lemma store_kept_Send [frame_intros]:
  fixes V :: "('db, 'txn, 'g, 'w) env"
  assumes "\<And>s. store_kept s (sched s)"
  shows "always store_kept (Send n V fuel sched rnds ws breq)"
proof (rule alwaysI)
  fix s :: "('db, 'txn, 'g, 'w) store"
  obtain resps err s1 where ex: "Execute (executeRootCmd V) breq s = ((resps, err), s1)" by (metis surj_pair)
  have 1: "store_kept s s1" by (rule Execute_kept [OF store_kept_executeRootCmd ex])
  have 2: "store_kept s (snd (sendLoop n V fuel sched rnds ws a k breq bresp s))" for a k bresp
    using store_kept_sendLoop [OF assms] by (simp add: always_def)
  show "store_kept s (snd (Send n V fuel sched rnds ws breq s))"
    unfolding Send_def ex using 1 2
    by (auto simp: stk.R_refl split: sum.splits option.splits error.splits bool.splits prod.splits)
qed

lemma store_kept_ExecuteCmd [frame_intros]:
  fixes V :: "('db, 'txn, 'g, 'w) env"
  assumes "\<And>s. store_kept s (sched s)"
  shows "always store_kept (ExecuteCmd n V fuel sched rnds ws breq)"
  unfolding ExecuteCmd_def by (intro frame_intros assms)

lemma store_kept_asyncStep [frame_intros]:
  fixes V :: "('db, 'txn, 'g, 'w) env"
  assumes "\<And>s. store_kept s (sched s)"
  shows "always store_kept (asyncStep V fuel sched)"
proof (rule alwaysI)
  fix s :: "('db, 'txn, 'g, 'w) store"
  show "store_kept s (snd (asyncStep V fuel sched s))"
  proof (cases "asyncRequestChan s")
    case (Cons ar rest)
    let ?ex = "executeCmd V fuel sched (arReplica ar) (Some (arSnapshot ar))"
    obtain resps err s1 where
      ex: "Execute ?ex (CmdRequest (raftCmd (arCmd ar))) (s\<lparr>asyncRequestChan := rest\<rparr>) = ((resps, err), s1)"
      by (metis surj_pair)
    have 1: "store_kept s s1"
      by (rule stk.R_trans [OF async_kept(1) Execute_kept [OF store_kept_executeCmd [OF assms] ex]])
    then have "store_kept s (reply c res s1)" for c res by (rule stk.R_trans [OF _ reply_kept])
    with 1 show ?thesis unfolding asyncStep_def
      by (auto simp: Cons ex split: option.splits error.splits)
  qed (simp add: asyncStep_def stk.R_refl)
qed

lemma store_raftMessage_kept: "store_kept s (store_raftMessage V reqs s)"
proof (induction reqs arbitrary: s)
  case (Cons req reqs)
  have "store_kept s (case getReplica (RMRangeID req) s of Inl _ \<Rightarrow> s | Inr a \<Rightarrow> snd (handleRaftMessage V a req s))"
    using store_kept_handleRaftMessage by (auto simp: always_def stk.R_refl split: sum.splits)
  with Cons.IH show ?case by (auto intro: stk.R_trans)
qed (simp add: stk.R_refl)

lemma snapStatusStep_kept: "store_kept s (snapStatusStep V req err s)"
  by (simp add: snapStatusStep_def stk.R_refl updGroup_kept split: sum.split)

lemma nodeStatsLoop_kept: "store_kept s (snd (nodeStatsLoop V rids nsi s))"
proof (induction rids arbitrary: nsi s)
  case (Cons rid rids)
  have "store_kept s (s\<lparr>rangeStats := (rangeStats s)(rid \<mapsto> rs\<lparr>IsRaftLeader := l\<rparr>)\<rparr>)"
    if "rangeStats s rid = Some rs" for rs l
    by (rule same_kept) (auto simp: node_abs_def fun_eq_iff that)
  then have "store_kept s (snd (nodeStatsLoop V rids n (s\<lparr>rangeStats := (rangeStats s)(rid \<mapsto> rs\<lparr>IsRaftLeader := l\<rparr>)\<rparr>)))"
    if "rangeStats s rid = Some rs" for rs l n
    using that by (blast intro: stk.R_trans Cons.IH)
  with Cons.IH show ?case
    by (auto simp: Let_def split: option.splits sum.splits)
qed (simp add: stk.R_refl)

lemma uploadStep_kept:
  fixes V :: "('db, 'txn, 'g, 'w) env"
  shows "store_kept s (uploadStep V rids s)"
proof -
  obtain nsi s1 where n: "newNodeStats V rids s = (nsi, s1)" by (cases "newNodeStats V rids s")
  have 1: "store_kept s s1" using nodeStatsLoop_kept n by (metis newNodeStats_def snd_conv)
  have "always store_kept (storeNodeStats V nsi)"
    by (auto simp: always_def storeNodeStats_def stk.R_refl async_kept split: sum.splits prod.splits)
  then have 2: "store_kept s (snd (storeNodeStats V nsi s1))"
    by (rule then_kept [OF 1])
  have "store_kept s (snd (onNet m (snd (storeNodeStats V nsi s1))))" for m :: "('w, error, unit) op"
    by (rule then_kept [OF 2 store_kept_basic(2)])
  with 1 show ?thesis by (simp add: uploadStep_def n)
qed

lemma createLoop_kept: "store_kept s (createLoop V rd reps s)"
proof (induction reps arbitrary: s)
  case (Cons rep reps)
  have "store_kept s (snd (createReplica V rd True s))"
    by (rule then_kept [OF stk.R_refl store_kept_createReplica])
  with Cons.IH show ?case by (auto intro: stk.R_trans stk.R_refl)
qed (simp add: stk.R_refl)

lemma Create_kept: "store_kept s (Create V rds s)"
  by (induction rds arbitrary: s) (auto simp: stk.R_refl intro: stk.R_trans createLoop_kept)

lemma Snapshot_kept [frame_intros]: "always store_kept (Snapshot a)"
  by (rule alwaysI) (auto simp: Snapshot_def acquireRaftSnapshot_def store_kept_def store_wf_def token_ok_def
      self_def split: option.splits)

lemma snapshotWorker_kept:
  assumes "a \<in> set (snapshotWorkers s)"
  shows "store_kept s (snapshotWorker V a s)"
proof -
  have "token_ok t ws \<Longrightarrow> a \<in> set ws \<Longrightarrow> token_ok 0 (remove1 a ws)" for t ws
    by (auto simp: token_ok_def length_Suc_conv)
  with assms show ?thesis
    by (auto simp: snapshotWorker_def releaseRaftSnapshot_def Let_def store_kept_def store_wf_def self_def
        split: sum.splits)
qed

section \<open>The node\<close>

text \<open>
  The steps of a node, in any order: a round of the raft goroutine of an object, a command a client
  sends, the workers, a batch of raft messages, the reports on snapshots, taking snapshots, the
  statistics, the replicas the placement driver lists at the start, the transport and the rest of the
  cluster. A step in which a goroutine waits carries the steps the node makes meanwhile in \<open>sched\<close>.
\<close>

inductive nodeStep ::
    "('db, 'txn, 'g, 'w) env \<Rightarrow> nat \<Rightarrow> ('db, 'txn, 'g, 'w) store \<Rightarrow> ('db, 'txn, 'g, 'w) store \<Rightarrow> bool"
  for V fuel where
  raft: "(\<And>t. (nodeStep V fuel)\<^sup>*\<^sup>* t (sched t)) \<Longrightarrow> a < length (objs s) \<Longrightarrow>
    raftStep V fuel sched a s s' \<Longrightarrow> nodeStep V fuel s s'"
| command: "(\<And>t. (nodeStep V fuel)\<^sup>*\<^sup>* t (sched t)) \<Longrightarrow>
    ExecuteCmd n V fuel sched rnds ws breq s = (x, s') \<Longrightarrow> noPanic x \<Longrightarrow> nodeStep V fuel s s'"
| async: "(\<And>t. (nodeStep V fuel)\<^sup>*\<^sup>* t (sched t)) \<Longrightarrow>
    asyncStep V fuel sched s = (x, s') \<Longrightarrow> noPanic x \<Longrightarrow> nodeStep V fuel s s'"
| snapStatus: "nodeStep V fuel s (snapStatusStep V req err s)"
| messages: "nodeStep V fuel s (store_raftMessage V reqs s)"
| snapshot: "a < length (objs s) \<Longrightarrow> Snapshot a s = (y, s') \<Longrightarrow> nodeStep V fuel s s'"
| worker: "a \<in> set (snapshotWorkers s) \<Longrightarrow> nodeStep V fuel s (snapshotWorker V a s)"
| upload: "nodeStep V fuel s (uploadStep V rids s)"
| create: "nodeStep V fuel s (Create V rds s)"
| network: "nodeStep V fuel s (s\<lparr>transp := t, net := w\<rparr>)"

lemma nodeStep_kept: "nodeStep V fuel s s' \<Longrightarrow> store_kept s s'"
proof (induction rule: nodeStep.induct)
  case (raft sched a s s')
  have "store_kept t (sched t)" for t by (rule stk.always_steps [OF _ raft(1)]) simp
  then show ?case by (rule store_kept_raftStep [OF _ raft(3)])
next
  case (command sched n rnds ws breq s x s')
  have "store_kept t (sched t)" for t by (rule stk.always_steps [OF _ command(1)]) simp
  then show ?case by (rule alwaysD [OF store_kept_ExecuteCmd command(2)])
next
  case (async sched s x s')
  have "store_kept t (sched t)" for t by (rule stk.always_steps [OF _ async(1)]) simp
  then show ?case by (rule alwaysD [OF store_kept_asyncStep async(2)])
next
  case (snapshot a s y s')
  show ?case by (rule alwaysD [OF Snapshot_kept snapshot(2)])
next
  case (network s t w)
  show ?case by (rule same_kept) (simp add: node_abs_def)
qed (simp_all add: snapStatusStep_kept store_raftMessage_kept snapshotWorker_kept uploadStep_kept Create_kept)

lemma NewStore_wf: "NewStore V nid w db nc = Inr s \<Longrightarrow> store_wf s"
  by (auto simp: NewStore_def bindE_eq_Inr store_wf_def token_ok_def)

end
