(* ===== verification/NodeProps.thy ===== *)
theory NodeProps
  imports NodeInv
begin

text \<open>
  What a node guarantees: its invariant in every reachable state, the progress of raft snapshots, the
  division of a range by a split, and how committed writes and reads are executed and answered.
\<close>

section \<open>A sample node\<close>

text \<open>
  Concrete instances of the code outside the repository: a raft library whose group is its own leader,
  and a cluster that answers without effect.
\<close>

definition sample_raft :: "uint64 rawnode" where
  "sample_raft = \<lparr>rnNew = (\<lambda>cfg peers. Inr (CfgID cfg)), rnLead = (\<lambda>g. g), rnProgress = (\<lambda>g. [g]),
     rnReady = (\<lambda>_. None), rnTick = (\<lambda>g. g), rnPropose = (\<lambda>_ g. (Inr (), g)),
     rnProposeConfChange = (\<lambda>_ g. (Inr (), g)), rnStep = (\<lambda>_ g. (Inr (), g)), rnApplyConfChange = (\<lambda>_ g. g),
     rnAdvance = (\<lambda>_ g. g), rnReportUnreachable = (\<lambda>_ g. g), rnReportSnapshot = (\<lambda>_ _ g. g),
     rnTransferLeader = (\<lambda>to_id _. to_id)\<rparr>"

definition sample_cluster :: "unit cluster" where
  "sample_cluster = \<lparr>cGetNodes = (\<lambda>w. (Inr [], w)), cPushTxn = (\<lambda>_ _ _ w. (Inr zero_txn, w)),
     cResolveIntent = (\<lambda>_ _ w. (Inr (), w)), cSetRangeStats = (\<lambda>_ w. (Inr (), w)),
     cSetNodeStats = (\<lambda>_ w. (Inr (), w))\<rparr>"

definition sample_env :: "(pairs, pairs, uint64, unit) env" where
  "sample_env = \<lparr>vB = ref_badger, vP = ref_raftpb, vR = sample_raft, vC = sample_cluster,
     vMarshalData = (\<lambda>_. Inr []), vUnmarshalData = (\<lambda>_. Inl (Errorf ''data'')),
     vUnmarshalConf = (\<lambda>_. Inl (Errorf ''conf'')), vIsEmptySnap = (\<lambda>sn. SMIndex (SnapMeta sn) = 0),
     vMarshalStats = (\<lambda>_. Inr []), vUnmarshalStats = (\<lambda>_. Inl (Errorf ''stats''))\<rparr>"

definition sample_desc :: RangeDescriptor where
  "sample_desc = makeRangeDesc 1 [2] [5] [\<lparr>RepNodeID = 7, RepReplicaID = 1\<rparr>]"

definition sample_object :: "uint64 replica" where
  "sample_object = \<lparr>rangeID = 1, rangeDesc = sample_desc, pendingCmds = Map.empty, raftGroup = 8,
     raftOffsetIndex = 0, raftAppliedIndex = 0, raftTruncateIndex = 0, raftTruncateTerm = 0, raftLastIndex = 0\<rparr>"

definition sample_store :: "(pairs, pairs, uint64, unit) store" where
  "sample_store = \<lparr>nodeID = 7, engine = [], transp = newTransport Map.empty, net = (), objs = [sample_object],
     replicas = [1 \<mapsto> 0], asyncRequestChan = [],
     rangeStats = [1 \<mapsto> \<lparr>StatRangeID = 1, StatNodeID = 7, TotalBytes = 100, TotalCount = 5,
       IsRaftLeader = False, IsRemoved = False\<rparr>],
     activeRaftSnapshot = 0, snapshotWorkers = [], snapshotChan = [], replies = []\<rparr>"

lemma sample_fields [simp]:
  "self 0 sample_store = sample_object" "rangeID sample_object = 1" "rangeDesc sample_object = sample_desc"
  "raftGroup sample_object = 8" "nodeID sample_store = 7" "engine sample_store = []"
  "replicas sample_store = [1 \<mapsto> 0]" "objs sample_store = [sample_object]" "replies sample_store = []"
  "snapshotWorkers sample_store = []" "snapshotChan sample_store = []" "asyncRequestChan sample_store = []"
  "StartKey sample_desc = [2]" "EndKey sample_desc = [5]" "RangeID sample_desc = 1"
  "Replicas sample_desc = [\<lparr>RepNodeID = 7, RepReplicaID = 1\<rparr>]"
  "vB sample_env = ref_badger" "vP sample_env = ref_raftpb" "vR sample_env = sample_raft"
  "rnNew sample_raft cfg peers = Inr (CfgID cfg)" "rnProgress sample_raft g = [g]"
  by (simp_all add: sample_store_def sample_object_def self_def sample_env_def sample_raft_def
      sample_desc_def makeRangeDesc_def)

lemma sample_store_wf: "store_wf sample_store"
  by (simp add: store_wf_def token_ok_def) (simp add: sample_store_def)

section \<open>Properties\<close>


lemma sample_stats_key: "storable (makeRangeStatsKey 7)"
  using fmt_d_length [of 7] by (simp add: storable_def makeRangeStatsKey_def badgerPrefix_def prefix_defs)

lemma sample_start:
  "NewStore sample_env 7 () [] Map.empty = Inr (sample_store\<lparr>objs := [], replicas := Map.empty, rangeStats := Map.empty\<rparr>)"
  by (simp add: NewStore_def loadRangeStats_def sample_stats_key ref.rocks.Get_missing ref_view_def
      sample_store_def)



text \<open>
  C23. Raft snapshots make progress one at a time. When no snapshot of a replica is ready and no
  goroutine takes one, the request is refused but starts one; until it ends every other request is
  refused and starts none; once it ends successfully the replica's next request returns its snapshot,
  and the token is free again.
\<close>

theorem snapshot_progress:
  assumes "store_wf s" and "takeSnapshot a (snapshotChan s) = None" and "snapshotWorkers s = []"
    and "raftSnapshot (vB V) (vP V) (rnProgress (vR V) (raftGroup (self a s))) (self a s) (engine s) = Inr snap"
  shows "\<exists>s1. Snapshot a s = (Inl ErrSnapshotTemporarilyUnavailable, s1) \<and> snapshotWorkers s1 = [a] \<and>
    (\<forall>b. takeSnapshot b (snapshotChan s) = None \<longrightarrow>
       Snapshot b s1 = (Inl ErrSnapshotTemporarilyUnavailable, s1)) \<and>
    Snapshot a (snapshotWorker V a s1) = (Inr snap, s)"
proof -
  have take: "takeSnapshot a (q @ [(a, snap)]) = Some (snap, q)" if "takeSnapshot a q = None" for q
    using that by (induction q) (auto split: if_splits)
  have tok: "activeRaftSnapshot s = 0" using assms(1,3) by (simp add: store_wf_def token_ok_def)
  let ?s = "s\<lparr>activeRaftSnapshot := 1, snapshotWorkers := [a]\<rparr>"
  have 1: "Snapshot a s = (Inl ErrSnapshotTemporarilyUnavailable, ?s)"
    using assms(2,3) tok by (simp add: Snapshot_def acquireRaftSnapshot_def)
  have 2: "snapshotWorker V a ?s = s\<lparr>snapshotChan := snapshotChan s @ [(a, snap)]\<rparr>"
    using assms(3,4) tok by (simp add: snapshotWorker_def releaseRaftSnapshot_def self_def)
  show ?thesis
    using 1 2 assms(2) by (intro exI [of _ ?s]) (simp add: Snapshot_def acquireRaftSnapshot_def take)
qed

theorem snapshot_progress_witness:
  "\<exists>s1 snap. Snapshot 0 sample_store = (Inl ErrSnapshotTemporarilyUnavailable, s1) \<and>
     Snapshot 1 s1 = (Inl ErrSnapshotTemporarilyUnavailable, s1) \<and>
     Snapshot 0 (snapshotWorker sample_env 0 s1) = (Inr snap, sample_store)"
proof -
  have "Seek (rocksdb ref_badger) False k [] = []" for k
    using ref.rocks.Seek_keys [of k "[]"] by (simp add: ref_view_def)
  then obtain snap where "raftSnapshot (vB sample_env) (vP sample_env)
      (rnProgress (vR sample_env) (raftGroup (self 0 sample_store))) (self 0 sample_store) (engine sample_store) = Inr snap"
    by (simp add: raftSnapshot_def loadAppliedIndex_def loadIndex_def ref.rocks.Get_missing ref_view_def Term_def
      Entries_def sample_object_def)
  from snapshot_progress [OF sample_store_wf _ _ this] show ?thesis by auto
qed


definition covers :: "RangeDescriptor \<Rightarrow> bytes \<Rightarrow> bool" where
  "covers d k \<longleftrightarrow> StartKey d \<le> k \<and> (EndKey d = [] \<or> k < EndKey d)"

lemma validateKeyRange_covers: "validateKeyRange r k \<longleftrightarrow> covers (rangeDesc r) k"
  by (auto simp: validateKeyRange_def covers_def Let_def)

lemma covers_split:
  fixes k :: bytes
  assumes "skey < key" "ekey = [] \<or> key < ekey"
  shows "covers (makeRangeDesc i skey ekey reps) k \<longleftrightarrow>
      covers (makeRangeDesc newID skey key reps) k \<noteq> covers (makeRangeDesc oldID key ekey reps) k"
    and "\<not> (covers (makeRangeDesc newID skey key reps) k \<and> covers (makeRangeDesc oldID key ekey reps) k)"
  using assms by (auto simp: covers_def makeRangeDesc_def)

lemma fillRangeStats_result:
  assumes "rangeStats s newID = Some new" "rangeStats s oldID = Some old" "newID \<noteq> oldID"
  shows "\<exists>stats. fillRangeStats oldID newID nb nc s = (Inr stats, s\<lparr>rangeStats := (rangeStats s)
    (newID \<mapsto> new\<lparr>TotalBytes := nb, TotalCount := nc\<rparr>,
     oldID \<mapsto> old\<lparr>TotalBytes := TotalBytes old - nb, TotalCount := TotalCount old - nc\<rparr>)\<rparr>) \<and> length stats = 2"
  using assms by (simp add: fillRangeStats_def Let_def)

lemma newReplica_ok:
  assumes "\<And>cfg peers. \<exists>g. rnNew (vR V) cfg peers = Inr g"
  shows "\<exists>r. newReplica V d needLoad s = (Inr (length (objs s)), s\<lparr>objs := objs s @ [r]\<rparr>) \<and>
    rangeID r = RangeID d \<and> rangeDesc r = d"
proof -
  let ?r = "\<lparr>rangeID = RangeID d, rangeDesc = d, pendingCmds = Map.empty, raftGroup = (),
     raftOffsetIndex = 0, raftAppliedIndex = 0, raftTruncateIndex = 0, raftTruncateTerm = 0, raftLastIndex = 0\<rparr>"
  have ok: "\<exists>g. addRaftGroup V d s r = Inr g" for r
  proof -
    obtain g where "rnNew (vR V) \<lparr>CfgID = raftID (nodeID s) (rangeID r), ElectionTick = 20, HeartbeatTick = 2,
         MaxSizePerMsg = 1024 * 1024, MaxInflightMsgs = 1024, CfgApplied = raftAppliedIndex r,
         CfgStorage = storageOf (vB V) (vP V) (engine s) r\<rparr>
        (map (\<lambda>rep. raftID (RepNodeID rep) (rangeID r)) (Replicas d)) = Inr g"
      using assms by blast
    then show ?thesis unfolding addRaftGroup_def Let_def by simp
  qed
  let ?l = "if needLoad then loadRaftPrevIndex (vB V) (engine s) ?r else ?r"
  obtain g where "addRaftGroup V d s ?l = Inr g" using ok by blast
  then have "newReplica V d needLoad s = (Inr (length (objs s)), s\<lparr>objs := objs s @ [withGroup g ?l]\<rparr>)"
    unfolding newReplica_def Let_def by simp
  moreover have "rangeID (withGroup g ?l) = RangeID d" "rangeDesc (withGroup g ?l) = d"
    by (simp_all add: withGroup_def loadRaftPrevIndex_def)
  ultimately show ?thesis by blast
qed




context badger_laws
begin

lemma applied_index_roundtrip:
  "\<exists>db'. setAppliedIndex (rocksdb B) i (r, db) = (Inr (), (r\<lparr>raftAppliedIndex := i\<rparr>, db')) \<and>
     loadAppliedIndex B (r\<lparr>raftAppliedIndex := i\<rparr>) db' = Inr i"
proof -
  obtain db1 where db1: "setAppliedIndex (rocksdb B) i (r, db) = (Inr (), (r\<lparr>raftAppliedIndex := i\<rparr>, db1))"
    "dview db1 = (dview db)(raftAppliedIndexKey (rangeID r) \<mapsto> indexValue i)"
    using rocks.set_index_laws(2) [OF TrueI, of i r db] by blast
  have "dview db1 (raftAppliedIndexKey (rangeID r)) = Some (indexValue i)" by (simp add: db1(2))
  from loadIndex_found [OF this] db1(1) show ?thesis by (auto simp: loadAppliedIndex_def)
qed

end

lemma applyIndex_recorded:
  assumes "badger_laws (vB V) dview tview current" and "a < length (objs s)"
  shows "loadAppliedIndex (vB V) (self a (applyIndex V a i s)) (engine (applyIndex V a i s)) = Inr i \<and>
    replies (applyIndex V a i s) = replies s \<and> asyncRequestChan (applyIndex V a i s) = asyncRequestChan s"
proof -
  obtain db' where "setAppliedIndex (rocksdb (vB V)) i (self a s, engine s)
      = (Inr (), ((self a s)\<lparr>raftAppliedIndex := i\<rparr>, db'))"
    "loadAppliedIndex (vB V) ((self a s)\<lparr>raftAppliedIndex := i\<rparr>) db' = Inr i"
    using badger_laws.applied_index_roundtrip [OF assms(1)] by blast
  with assms(2) show ?thesis
    by (simp add: applyIndex_def onSelf_def onStore_def Let_def setSelf_def self_def)
qed

text \<open>
  C3. A committed write is executed, answered and recorded. The entry of a batch of writes runs the
  batch; if a client of this node waits for it, that client and no other gets the result, and the
  applied index the node recovers after a restart is the index of the entry.
\<close>

theorem committed_write_answered:
  fixes s :: "('db, 'txn, 'g, 'w) store"
  assumes "badger_laws (vB V) dview tview current"
    and "breq = CmdRequest (RDCmd data)" and "Flags breq = Inr IsWriteFlag"
    and "s1 = setSelf a ((self a s)\<lparr>pendingCmds := (pendingCmds (self a s))(RDId data := None)\<rparr>) s"
    and "Execute (executeWrite V fuel sched a breq) breq s1 = ((resps, err), s2)"
    and "\<And>p. err \<noteq> Some (Panic p)" and "a < length (objs s2)"
  shows "\<exists>s'. processRaftCommand V fuel sched a data index s = (Inr (), s') \<and>
    replies s' = replies s2 @ (case pendingCmds (self a s) (RDId data) of
      None \<Rightarrow> [] | Some c \<Rightarrow> [(waiter c, (zero_bresp\<lparr>Resp := resps\<rparr>, err))]) \<and>
    loadAppliedIndex (vB V) (self a s') (engine s') = Inr index"
proof -
  let ?t = "reply (pendingCmds (self a s) (RDId data)) (zero_bresp\<lparr>Resp := resps\<rparr>, err) s2"
  have "a < length (objs ?t)" using assms(7) by (simp add: reply_def split: option.split)
  note rec = applyIndex_recorded [OF assms(1) this, of index]
  have "processRaftCommand V fuel sched a data index s = (Inr (), applyIndex V a index ?t)"
    unfolding processRaftCommand_def Let_def assms(2) [symmetric] assms(3) assms(4) [symmetric] assms(5)
    using assms(6) by (auto split: option.splits error.splits)
  moreover have "replies ?t = replies s2 @ (case pendingCmds (self a s) (RDId data) of
      None \<Rightarrow> [] | Some c \<Rightarrow> [(waiter c, (zero_bresp\<lparr>Resp := resps\<rparr>, err))])"
    by (simp add: reply_def split: option.split)
  ultimately show ?thesis using rec by simp
qed

definition sample_waiting :: "Request \<Rightarrow> (pairs, pairs, uint64, unit) store" where
  "sample_waiting req = setSelf 0 (sample_object\<lparr>pendingCmds := [[1] \<mapsto>
     \<lparr>raftCmd = \<lparr>CmdRangeID = 1, CmdRequest = \<lparr>BHeader = zero_header, Req = [Some req], PusheeTxn = []\<rparr>\<rparr>, waiter = 42\<rparr>]\<rparr>)
     sample_store"

theorem committed_write_answered_witness:
  "\<exists>s'. processRaftCommand sample_env 9 (\<lambda>s. s) 0
       \<lparr>RDId = [1], RDCmd = \<lparr>CmdRangeID = 1, CmdRequest = \<lparr>BHeader = zero_header,
          Req = [Some (UpdateRangeRequest (zero_header\<lparr>HRangeID := 1, HKey := [3], HFlag := 4\<rparr>) sample_desc)],
          PusheeTxn = []\<rparr>\<rparr>\<rparr> 6
       (sample_waiting (UpdateRangeRequest (zero_header\<lparr>HRangeID := 1, HKey := [3], HFlag := 4\<rparr>) sample_desc))
     = (Inr (), s') \<and>
     replies s' = [(42, (zero_bresp\<lparr>Resp := [UpdateRangeResponse zero_resp]\<rparr>, None))] \<and>
     loadAppliedIndex ref_badger (self 0 s') (engine s') = Inr 6"
proof -
  let ?req = "UpdateRangeRequest (zero_header\<lparr>HRangeID := 1, HKey := [3], HFlag := 4\<rparr>) sample_desc"
  let ?breq = "\<lparr>BHeader = zero_header, Req = [Some ?req], PusheeTxn = []\<rparr>"
  let ?data = "\<lparr>RDId = [1], RDCmd = \<lparr>CmdRangeID = 1, CmdRequest = ?breq\<rparr>\<rparr>"
  let ?s = "sample_waiting ?req"
  let ?t = "setSelf 0 ((self 0 ?s)\<lparr>pendingCmds := (pendingCmds (self 0 ?s))(RDId ?data := None)\<rparr>) ?s"
  have "Execute (executeWrite sample_env 9 (\<lambda>s. s) 0 ?breq) ?breq ?t
      = (([UpdateRangeResponse zero_resp], None), ?t)"
    by (simp add: Execute_def executeWrite_def executeCmd_def updateRange_def validateKeyRange_def self_def
        setSelf_def sample_waiting_def)
  from committed_write_answered [of sample_env, OF _ _ _ refl this, where index = 6]
  show ?thesis
    using ref.badger_laws_axioms
    by (simp add: Flags_def sample_waiting_def setSelf_def self_def)
qed


text \<open>
  C4. A read sees the data as of its place in the log. When the entry of a read is applied, the worker
  gets a snapshot of the data at that moment; whatever the node does until the worker takes the
  request, as long as the key stays in the replica's range, the waiting client gets the value that
  snapshot holds, and answering the read changes nothing but the replies and the queue.
\<close>

theorem read_at_commit:
  fixes s s2 :: "('db, 'txn, 'g, 'w) store"
  assumes "badger_laws (vB V) dview tview current" and "a < length (objs s)"
    and "CmdRequest (RDCmd data) = \<lparr>BHeader = bh, Req = [Some (GetRequest h)], PusheeTxn = ps\<rparr>"
    and "HFlag h = IsReadFlag" and "pendingCmds (self a s) (RDId data) = Some c" and "raftCmd c = RDCmd data"
    and "asyncRequestChan s = []" and "processRaftCommand V fuel sched a data index s = (x, s1)"
    and "asyncRequestChan s2 = asyncRequestChan s1" and "validateKeyRange (self a s2) (HKey h)"
    and "replica_get (rocksDBSnapshot (vB V)) h (NewSnapshot (vB V) (engine s)) = Inr resp"
  shows "x = Inr () \<and> replies s1 = replies s \<and>
    asyncStep V fuel sched s2 = (Inr (), s2\<lparr>asyncRequestChan := [],
      replies := replies s2 @ [(waiter c, (zero_bresp\<lparr>Resp := [resp]\<rparr>, None))]\<rparr>)"
proof -
  let ?s = "setSelf a ((self a s)\<lparr>pendingCmds := (pendingCmds (self a s))(RDId data := None)\<rparr>) s"
  let ?q = "[\<lparr>arSnapshot = NewSnapshot (vB V) (engine s), arCmd = c, arReplica = a\<rparr>]"
  have "a < length (objs (?s\<lparr>asyncRequestChan := ?q\<rparr>))" using assms(2) by (simp add: setSelf_def)
  note rec = applyIndex_recorded [OF assms(1) this, of index]
  have "Flags (CmdRequest (RDCmd data)) = Inr IsReadFlag" using assms(3,4) by (simp add: Flags_def)
  then have "(x, s1) = (Inr (), applyIndex V a index (?s\<lparr>asyncRequestChan := ?q\<rparr>))"
    using assms(5,7,8) by (simp add: processRaftCommand_def Let_def setSelf_def)
  with rec have 1: "x = Inr ()" "replies s1 = replies s" "asyncRequestChan s1 = ?q" by (simp_all add: setSelf_def)
  have "executeCmd V fuel sched a (Some (NewSnapshot (vB V) (engine s))) (GetRequest h) t = (Inr resp, t)"
    if "self a t = self a s2" for t
    using assms(10,11) that by (simp add: executeCmd_def Let_def pureOp_def)
  then have "Execute (executeCmd V fuel sched a (Some (NewSnapshot (vB V) (engine s)))) (CmdRequest (RDCmd data))
      (s2\<lparr>asyncRequestChan := []\<rparr>) = (([resp], None), s2\<lparr>asyncRequestChan := []\<rparr>)"
    by (simp add: Execute_def assms(3) self_def)
  with 1 assms(6,9) show ?thesis by (simp add: asyncStep_def reply_def)
qed


theorem read_at_commit_witness:
  "\<exists>s1 resp. processRaftCommand sample_env 9 (\<lambda>s. s) 0
       \<lparr>RDId = [1], RDCmd = \<lparr>CmdRangeID = 1, CmdRequest = \<lparr>BHeader = zero_header,
          Req = [Some (GetRequest (zero_header\<lparr>HKey := [3], HFlag := 2, HTxn := Some zero_txn\<rparr>))], PusheeTxn = []\<rparr>\<rparr>\<rparr> 6
       (sample_waiting (GetRequest (zero_header\<lparr>HKey := [3], HFlag := 2, HTxn := Some zero_txn\<rparr>))) = (Inr (), s1) \<and>
     asyncStep sample_env 9 (\<lambda>s. s)
         (sample_store\<lparr>engine := [([3], [1])], asyncRequestChan := asyncRequestChan s1\<rparr>)
       = (Inr (), sample_store\<lparr>engine := [([3], [1])], asyncRequestChan := [],
           replies := [(42, (zero_bresp\<lparr>Resp := [resp]\<rparr>, None))]\<rparr>)"
proof -
  let ?h = "zero_header\<lparr>HKey := [3], HFlag := 2, HTxn := Some zero_txn\<rparr>"
  let ?data = "\<lparr>RDId = [1], RDCmd = \<lparr>CmdRangeID = 1, CmdRequest = \<lparr>BHeader = zero_header,
      Req = [Some (GetRequest ?h)], PusheeTxn = []\<rparr>\<rparr>\<rparr>"
  let ?s = "sample_waiting (GetRequest ?h)"
  have "NewMVCCKey [3] \<noteq> []" by code_simp
  then obtain resp where r: "replica_get (rocksDBSnapshot ref_badger) ?h (NewSnapshot ref_badger []) = Inr resp"
    by (simp add: replica_get_def replica_getInternal_def getMetaData_def MVCCGetMeta_def Let_def
        rocksDBSnapshot_def NewSnapshot_def getInternal_def ref_badger_def ref_view_def)
  obtain x s1 where p: "processRaftCommand sample_env 9 (\<lambda>s. s) 0 ?data 6 ?s = (x, s1)"
    by (metis surj_pair)
  let ?t = "sample_store\<lparr>engine := [([3], [1])], asyncRequestChan := asyncRequestChan s1\<rparr>"
  have "x = Inr () \<and> asyncStep sample_env 9 (\<lambda>s. s) ?t = (Inr (), ?t\<lparr>asyncRequestChan := [],
      replies := replies ?t @ [(42, (zero_bresp\<lparr>Resp := [resp]\<rparr>, None))]\<rparr>)"
    using read_at_commit [where s = ?s and ?s2.0 = ?t, OF _ _ _ _ _ _ _ p] ref.badger_laws_axioms r
    by (simp add: sample_waiting_def setSelf_def self_def validateKeyRange_def)
  with p show ?thesis by auto
qed

end
