(* ===== verification/Cache.thy ===== *)
theory Cache
  imports Retry Meta "HOL-Library.AList"
begin

text \<open>
  The caches of \<^verbatim>\<open>src/util/cache/cache.go\<close>: a base with an eviction policy over an exchangeable store,
  and the stores behind it, a hash map, a search tree and an interval tree. Entries are shared between
  the store and the eviction list, so they are kept in a heap and named by their position.
  The search tree (\<^verbatim>\<open>llrb\<close>) and the interval tree are third-party code and parameters.
  Proved: the store and the list stay in step, what is added is found, and a bounded cache
  evicts down to its bound without losing the entry just added.
\<close>

section \<open>Definitions\<close>

subsection \<open>The base\<close>

datatype EvictionPolicy = CacheLRU | CacheFIFO | CacheNone

record ('k, 'v) Config =
  Policy :: EvictionPolicy
  ShouldEvict :: "(nat \<Rightarrow> 'k \<Rightarrow> 'v \<Rightarrow> bool) option"

record ('k, 'v) entry =
  entryKey :: 'k
  entryValue :: 'v

text \<open>The interface \<^verbatim>\<open>cacheStore\<close>, on stores that refer to entries by address.\<close>

record ('k, 's) cacheStore =
  csGet :: "'k \<Rightarrow> 's \<Rightarrow> nat option"
  csAdd :: "'k \<Rightarrow> nat \<Rightarrow> 's \<Rightarrow> 's"
  csDel :: "'k \<Rightarrow> 's \<Rightarrow> 's"
  csLen :: "'s \<Rightarrow> nat"

text \<open>\<open>ll\<close> is the linked list from its front; \<open>evicted\<close> are the calls of \<^verbatim>\<open>OnEvicted\<close>, in order.\<close>

record ('k, 'v, 's) baseCache =
  config :: "('k, 'v) Config"
  entries :: "('k, 'v) entry list"
  bstore :: 's
  ll :: "nat list"
  evicted :: "('k \<times> 'v) list"

definition newBaseCache :: "('k, 'v) Config \<Rightarrow> 's \<Rightarrow> ('k, 'v, 's) baseCache" where
  "newBaseCache c s = \<lparr>config = c, entries = [], bstore = s, ll = [], evicted = []\<rparr>"

definition access :: "nat \<Rightarrow> ('k, 'v, 's) baseCache \<Rightarrow> ('k, 'v, 's) baseCache" where
  "access a c = (if Policy (config c) = CacheLRU then c\<lparr>ll := a # remove1 a (ll c)\<rparr> else c)"

definition removeElement :: "('k, 's) cacheStore \<Rightarrow> nat \<Rightarrow> ('k, 'v, 's) baseCache \<Rightarrow> ('k, 'v, 's) baseCache" where
  "removeElement S a c =
     (let e = entries c ! a;
          c = (if Policy (config c) \<noteq> CacheNone then c\<lparr>ll := remove1 a (ll c)\<rparr> else c)
      in c\<lparr>bstore := csDel S (entryKey e) (bstore c), evicted := evicted c @ [(entryKey e, entryValue e)]\<rparr>)"

text \<open>An empty list with a non-empty store would dereference nil.\<close>

definition evict :: "('k, 's) cacheStore \<Rightarrow> (('k, 'v, 's) baseCache, error, bool) op" where
  "evict S c =
     (case ShouldEvict (config c) of
        None \<Rightarrow> (Inr False, c)
      | Some should \<Rightarrow>
          if Policy (config c) = CacheNone then (Inr False, c)
          else if csLen S (bstore c) > 0 then
            (if ll c = [] then (Inl (Panic ''nil pointer dereference''), c)
             else let a = last (ll c); e = entries c ! a
                  in if should (csLen S (bstore c)) (entryKey e) (entryValue e) then (Inr True, removeElement S a c)
                     else (Inr False, c))
          else (Inr False, c))"

fun evictLoop :: "nat \<Rightarrow> ('k, 's) cacheStore \<Rightarrow> (('k, 'v, 's) baseCache, error, unit) op" where
  "evictLoop 0 S = fail (Panic ''does not return'')"
| "evictLoop (Suc n) S = bindM (evict S) (\<lambda>more. if more then evictLoop n S else ret ())"

definition insertEntry :: "('k, 's) cacheStore \<Rightarrow> 'k \<Rightarrow> 'v \<Rightarrow> ('k, 'v, 's) baseCache \<Rightarrow> ('k, 'v, 's) baseCache" where
  "insertEntry S key val c =
     c\<lparr>entries := entries c @ [\<lparr>entryKey = key, entryValue = val\<rparr>],
       ll := (if Policy (config c) \<noteq> CacheNone then length (entries c) # ll c else ll c),
       bstore := csAdd S key (length (entries c)) (bstore c)\<rparr>"

definition baseCache_Add :: "('k, 's) cacheStore \<Rightarrow> 'k \<Rightarrow> 'v \<Rightarrow> (('k, 'v, 's) baseCache, error, unit) op" where
  "baseCache_Add S key val c =
     (case csGet S key (bstore c) of
        Some a \<Rightarrow>
          (let c = access a c
           in (Inr (), c\<lparr>entries := (entries c)[a := (entries c ! a)\<lparr>entryValue := val\<rparr>]\<rparr>))
      | None \<Rightarrow>
          (let c = insertEntry S key val c in evictLoop (Suc (csLen S (bstore c))) S c))"

definition baseCache_Get :: "('k, 's) cacheStore \<Rightarrow> 'k \<Rightarrow> ('k, 'v, 's) baseCache \<Rightarrow> 'v option \<times> ('k, 'v, 's) baseCache" where
  "baseCache_Get S key c =
     (case csGet S key (bstore c) of
        Some a \<Rightarrow> (Some (entryValue (entries c ! a)), access a c)
      | None \<Rightarrow> (None, c))"

definition baseCache_Del :: "('k, 's) cacheStore \<Rightarrow> 'k \<Rightarrow> ('k, 'v, 's) baseCache \<Rightarrow> ('k, 'v, 's) baseCache" where
  "baseCache_Del S key c =
     (case csGet S key (bstore c) of Some a \<Rightarrow> removeElement S a c | None \<Rightarrow> c)"

definition baseCache_Len :: "('k, 's) cacheStore \<Rightarrow> ('k, 'v, 's) baseCache \<Rightarrow> nat" where
  "baseCache_Len S c = csLen S (bstore c)"

text \<open>\<^verbatim>\<open>clear\<close> of each store: \<^verbatim>\<open>Del\<close> of the keys its traversal visits.\<close>

definition baseCache_Clear :: "('k, 's) cacheStore \<Rightarrow> 'k list \<Rightarrow> ('k, 'v, 's) baseCache \<Rightarrow> ('k, 'v, 's) baseCache" where
  "baseCache_Clear S visited c = fold (baseCache_Del S) visited c"

subsection \<open>Stores\<close>

text \<open>\<^verbatim>\<open>UnorderedCache\<close>: a Go map, as an association list with distinct keys.\<close>

definition UnorderedCache :: "('k, ('k \<times> nat) list) cacheStore" where
  "UnorderedCache = \<lparr>csGet = (\<lambda>k m. map_of m k), csAdd = AList.update, csDel = AList.delete, csLen = length\<rparr>"

text \<open>\<^verbatim>\<open>OrderedCache\<close>: the tree of the \<^verbatim>\<open>llrb\<close> package, holding keys with the address of their entry.\<close>

record ('k, 't) llrb =
  tGet :: "'k \<Rightarrow> 't \<Rightarrow> nat option"
  tInsert :: "'k \<Rightarrow> nat \<Rightarrow> 't \<Rightarrow> 't"
  tDelete :: "'k \<Rightarrow> 't \<Rightarrow> 't"
  tLen :: "'t \<Rightarrow> nat"
  tFloor :: "'k \<Rightarrow> 't \<Rightarrow> nat option"
  tCeil :: "'k \<Rightarrow> 't \<Rightarrow> nat option"
  tDo :: "'t \<Rightarrow> nat list"
  tEmpty :: 't

definition OrderedCache :: "('k, 't) llrb \<Rightarrow> ('k, 't) cacheStore" where
  "OrderedCache T = \<lparr>csGet = tGet T, csAdd = tInsert T, csDel = tDelete T, csLen = tLen T\<rparr>"

definition NewOrderedCache :: "('k, 't) llrb \<Rightarrow> ('k, 'v) Config \<Rightarrow> ('k, 'v, 't) baseCache" where
  "NewOrderedCache T c = newBaseCache c (tEmpty T)"

definition entryAt :: "('k, 'v, 's) baseCache \<Rightarrow> nat option \<Rightarrow> ('k \<times> 'v) option" where
  "entryAt c a = map_option (\<lambda>a. (entryKey (entries c ! a), entryValue (entries c ! a))) a"

definition Floor :: "('k, 't) llrb \<Rightarrow> 'k \<Rightarrow> ('k, 'v, 't) baseCache \<Rightarrow> ('k \<times> 'v) option" where
  "Floor T key c = entryAt c (tFloor T key (bstore c))"

definition Ceil :: "('k, 't) llrb \<Rightarrow> 'k \<Rightarrow> ('k, 'v, 't) baseCache \<Rightarrow> ('k \<times> 'v) option" where
  "Ceil T key c = entryAt c (tCeil T key (bstore c))"

text \<open>\<^verbatim>\<open>Do\<close>, as the pairs it calls its function on; \<^verbatim>\<open>Walk\<close> stops at the first \<^verbatim>\<open>true\<close>.\<close>

definition Do :: "('k, 't) llrb \<Rightarrow> ('k, 'v, 't) baseCache \<Rightarrow> ('k \<times> 'v) list" where
  "Do T c = map (\<lambda>a. (entryKey (entries c ! a), entryValue (entries c ! a))) (tDo T (bstore c))"

fun walkLoop :: "('k \<Rightarrow> 'v \<Rightarrow> 's \<Rightarrow> bool \<times> 's) \<Rightarrow> ('k \<times> 'v) list \<Rightarrow> 's \<Rightarrow> 's" where
  "walkLoop f [] s = s"
| "walkLoop f ((k, v) # kvs) s = (case f k v s of (stop, s') \<Rightarrow> if stop then s' else walkLoop f kvs s')"

definition Walk :: "('k, 't) llrb \<Rightarrow> ('k \<Rightarrow> 'v \<Rightarrow> 's \<Rightarrow> bool \<times> 's) \<Rightarrow> ('k, 'v, 't) baseCache \<Rightarrow> 's \<Rightarrow> 's" where
  "Walk T f c s = walkLoop f (Do T c) s"

text \<open>
  \<^verbatim>\<open>IntervalCache\<close>: the interval tree, holding interval keys with the address of their entry. \<open>cmp\<close> is the
  \<^verbatim>\<open>Compare\<close> of the bounds. Keys are told apart by an id from a global counter.
\<close>

record 'c IntervalKey =
  ikId :: nat
  ikStart :: 'c
  ikEnd :: 'c

definition Overlaps :: "('c \<Rightarrow> 'c \<Rightarrow> int) \<Rightarrow> 'c IntervalKey \<Rightarrow> 'c IntervalKey \<Rightarrow> bool" where
  "Overlaps cmp ik r \<longleftrightarrow> cmp (ikEnd ik) (ikStart r) > 0 \<and> cmp (ikStart ik) (ikEnd r) < 0"

definition Contains :: "('c \<Rightarrow> 'c \<Rightarrow> int) \<Rightarrow> 'c IntervalKey \<Rightarrow> 'c IntervalKey \<Rightarrow> bool" where
  "Contains cmp ik lk \<longleftrightarrow> cmp (ikStart lk) (ikStart ik) \<ge> 0 \<and> cmp (ikEnd ik) (ikEnd lk) \<ge> 0"

definition NewIntervalKey :: "('c \<Rightarrow> 'c \<Rightarrow> int) \<Rightarrow> 'c \<Rightarrow> 'c \<Rightarrow> (nat, error, 'c IntervalKey) op" where
  "NewIntervalKey cmp start stop alloc =
     (if cmp start stop \<ge> 0 then (Inl (Panic ''start key greater than or equal to end key''), alloc)
      else (Inr \<lparr>ikId = alloc + 1, ikStart = start, ikEnd = stop\<rparr>, alloc + 1))"

record ('c, 't) intervalTree =
  iGet :: "'c IntervalKey \<Rightarrow> 't \<Rightarrow> ('c IntervalKey \<times> nat) list"
  iInsert :: "'c IntervalKey \<Rightarrow> nat \<Rightarrow> 't \<Rightarrow> 't"
  iDelete :: "'c IntervalKey \<Rightarrow> 't \<Rightarrow> 't"
  iLen :: "'t \<Rightarrow> nat"
  iDo :: "'t \<Rightarrow> 'c IntervalKey list"
  iEmpty :: 't

definition IntervalCache :: "('c, 't) intervalTree \<Rightarrow> ('c IntervalKey, 't) cacheStore" where
  "IntervalCache I = \<lparr>
     csGet = (\<lambda>ik t. map_option snd (find (\<lambda>(e, a). ikId e = ikId ik) (iGet I ik t))),
     csAdd = iInsert I, csDel = iDelete I, csLen = iLen I\<rparr>"

definition GetOverlaps ::
    "('c \<Rightarrow> 'c \<Rightarrow> int) \<Rightarrow> ('c, 't) intervalTree \<Rightarrow> 'c \<Rightarrow> 'c
       \<Rightarrow> (nat \<times> ('c IntervalKey, 'v, 't) baseCache, error, ('c IntervalKey \<times> 'v) list) op" where
  "GetOverlaps cmp I start stop s =
     (case s of (alloc, c) \<Rightarrow>
        (case NewIntervalKey cmp start stop alloc of
           (Inl err, alloc') \<Rightarrow> (Inl err, (alloc', c))
         | (Inr ik, alloc') \<Rightarrow>
             (let as = map snd (iGet I ik (bstore c))
              in (Inr (map (\<lambda>a. (entryKey (entries c ! a), entryValue (entries c ! a))) as), (alloc', fold access as c)))))"

section \<open>The base over any store\<close>

text \<open>
  The store holds each entry under its key, and the list, if the policy keeps one, holds exactly the
  entries of the store. Then the cache is a map from keys to values.
\<close>

definition cache_wf :: "('s \<Rightarrow> 'k \<rightharpoonup> nat) \<Rightarrow> ('s \<Rightarrow> bool) \<Rightarrow> ('k, 'v, 's) baseCache \<Rightarrow> bool" where
  "cache_wf view ok c \<longleftrightarrow> ok (bstore c) \<and>
     (\<forall>k a. view (bstore c) k = Some a \<longrightarrow> a < length (entries c) \<and> entryKey (entries c ! a) = k) \<and>
     (Policy (config c) \<noteq> CacheNone \<longrightarrow> distinct (ll c) \<and> set (ll c) = ran (view (bstore c)))"

definition contents :: "('s \<Rightarrow> 'k \<rightharpoonup> nat) \<Rightarrow> ('k, 'v, 's) baseCache \<Rightarrow> 'k \<rightharpoonup> 'v" where
  "contents view c k = map_option (\<lambda>a. entryValue (entries c ! a)) (view (bstore c) k)"

text \<open>Eviction takes the entry at the back of the list.\<close>

definition victim :: "('k, 'v, 's) baseCache \<Rightarrow> 'k" where
  "victim c = entryKey (entries c ! last (ll c))"

definition evicting :: "('k, 's) cacheStore \<Rightarrow> ('k, 'v, 's) baseCache \<Rightarrow> bool" where
  "evicting S c \<longleftrightarrow> Policy (config c) \<noteq> CacheNone \<and> 0 < csLen S (bstore c) \<and>
     (\<exists>should. ShouldEvict (config c) = Some should \<and>
        should (csLen S (bstore c)) (victim c) (entryValue (entries c ! last (ll c))))"

text \<open>What the base relies on of a store: it is a map from keys to entries.\<close>

lemma Get_config: "baseCache_Get S k c = (r, c') \<Longrightarrow> config c' = config c"
  by (auto simp: baseCache_Get_def access_def split: option.splits if_splits)

lemma Del_config: "config (baseCache_Del S k c) = config c"
  by (simp add: baseCache_Del_def removeElement_def Let_def split: option.splits)

lemma remove1_last: "distinct (xs @ [x]) \<Longrightarrow> remove1 x (xs @ [x]) = xs"
  by (simp add: remove1_append)

locale cache_store =
  fixes S :: "('k, 's) cacheStore" and view :: "'s \<Rightarrow> 'k \<rightharpoonup> nat" and ok :: "'s \<Rightarrow> bool"
  assumes get_view: "ok s \<Longrightarrow> csGet S k s = view s k"
    and add_view: "ok s \<Longrightarrow> view s k = None \<Longrightarrow> ok (csAdd S k a s) \<and> view (csAdd S k a s) = (view s)(k \<mapsto> a)"
    and del_view: "ok s \<Longrightarrow> ok (csDel S k s) \<and> view (csDel S k s) = (view s)(k := None)"
    and len_view: "ok s \<Longrightarrow> finite (dom (view s)) \<and> csLen S s = card (dom (view s))"
begin

lemma wf_ok: "cache_wf view ok c \<Longrightarrow> ok (bstore c)"
  by (simp add: cache_wf_def)

lemma wf_entry: "cache_wf view ok c \<Longrightarrow> view (bstore c) k = Some a \<Longrightarrow> a < length (entries c) \<and> entryKey (entries c ! a) = k"
  by (simp add: cache_wf_def)

lemma wf_inj: "cache_wf view ok c \<Longrightarrow> view (bstore c) k = Some a \<Longrightarrow> view (bstore c) k' = Some a \<Longrightarrow> k' = k"
  using wf_entry by metis

lemma wf_ll: "cache_wf view ok c \<Longrightarrow> Policy (config c) \<noteq> CacheNone \<Longrightarrow> distinct (ll c) \<and> set (ll c) = ran (view (bstore c))"
  by (simp add: cache_wf_def)

lemma dom_contents: "dom (contents view c) = dom (view (bstore c))"
  by (auto simp: contents_def dom_def)

lemma Len_contents: "cache_wf view ok c \<Longrightarrow> baseCache_Len S c = card (dom (contents view c)) \<and> finite (dom (contents view c))"
  using len_view [OF wf_ok, of c] by (simp add: baseCache_Len_def dom_contents)

lemma wf_new: "ok s \<Longrightarrow> view s = Map.empty \<Longrightarrow> cache_wf view ok (newBaseCache cfg s) \<and> contents view (newBaseCache cfg s) = Map.empty"
  by (auto simp: cache_wf_def newBaseCache_def contents_def)

lemma access_simps [simp]:
  "config (access a c) = config c" "entries (access a c) = entries c" "bstore (access a c) = bstore c"
  by (simp_all add: access_def)

lemma wf_access:
  assumes "cache_wf view ok c" "a \<in> ran (view (bstore c))"
  shows "cache_wf view ok (access a c) \<and> contents view (access a c) = contents view c"
proof -
  have "distinct (a # remove1 a (ll c)) \<and> set (a # remove1 a (ll c)) = ran (view (bstore c))"
    if "Policy (config c) = CacheLRU"
    using wf_ll [OF assms(1)] that assms(2) by auto
  with assms(1) show ?thesis by (auto simp: cache_wf_def contents_def access_def)
qed

lemma Get_contents:
  assumes "cache_wf view ok c" "baseCache_Get S k c = (r, c')"
  shows "r = contents view c k \<and> cache_wf view ok c' \<and> contents view c' = contents view c"
  using assms wf_access [OF assms(1)] get_view [OF wf_ok [OF assms(1)], of k]
  by (fastforce simp: baseCache_Get_def contents_def ran_def split: option.splits)

lemma wf_remove:
  assumes "cache_wf view ok c" "view (bstore c) k = Some a"
  shows "cache_wf view ok (removeElement S a c) \<and> contents view (removeElement S a c) = (contents view c)(k := None) \<and>
    config (removeElement S a c) = config c"
proof -
  note e = wf_entry [OF assms] and d = del_view [OF wf_ok [OF assms(1)], of k]
  have "a \<notin> ran ((view (bstore c))(k := None))"
    using wf_inj [OF assms] by (auto simp: ran_def)
  moreover have "ran (view (bstore c)) = insert a (ran ((view (bstore c))(k := None)))"
    using assms(2) ran_map_upd [of "(view (bstore c))(k := None)" k a] by (simp add: fun_upd_idem)
  ultimately have r: "set (ll c) - {a} = ran ((view (bstore c))(k := None))" if "Policy (config c) \<noteq> CacheNone"
    using wf_ll [OF assms(1) that] by auto
  then show ?thesis
    using assms(1) e d by (auto simp: cache_wf_def removeElement_def contents_def Let_def distinct_remove1)
qed

lemma Del_contents:
  assumes "cache_wf view ok c"
  shows "cache_wf view ok (baseCache_Del S k c) \<and> contents view (baseCache_Del S k c) = (contents view c)(k := None)"
proof (cases "view (bstore c) k")
  case None
  then show ?thesis using assms get_view [OF wf_ok [OF assms], of k]
    by (auto simp: baseCache_Del_def contents_def)
next
  case (Some a)
  then show ?thesis using wf_remove [OF assms Some] get_view [OF wf_ok [OF assms], of k]
    by (simp add: baseCache_Del_def)
qed

lemma Clear_contents:
  "cache_wf view ok c \<Longrightarrow> cache_wf view ok (baseCache_Clear S ks c) \<and> contents view (baseCache_Clear S ks c) = contents view c |` (- set ks)"
proof (induction ks arbitrary: c)
  case (Cons k ks)
  then show ?case using Del_contents [OF Cons.prems, of k]
    by (auto simp: baseCache_Clear_def restrict_map_def fun_eq_iff)
qed (simp add: baseCache_Clear_def restrict_map_def fun_eq_iff)

lemma wf_back:
  assumes "cache_wf view ok c" "Policy (config c) \<noteq> CacheNone" "0 < csLen S (bstore c)"
  shows "ll c \<noteq> [] \<and> (\<exists>k. view (bstore c) k = Some (last (ll c)))"
proof -
  have "dom (view (bstore c)) \<noteq> {}" using assms(3) len_view [OF wf_ok [OF assms(1)]] by auto
  then obtain k a where "view (bstore c) k = Some a" by blast
  then have "ll c \<noteq> []" using wf_ll [OF assms(1,2)] ranI by fastforce
  moreover from this have "last (ll c) \<in> ran (view (bstore c))" using wf_ll [OF assms(1,2)] last_in_set by blast
  ultimately show ?thesis by (auto simp: ran_def)
qed

lemma evict_step:
  assumes "cache_wf view ok c"
  shows "if evicting S c
    then \<exists>c'. evict S c = (Inr True, c') \<and> cache_wf view ok c' \<and> config c' = config c \<and> entries c' = entries c \<and>
      ll c' = butlast (ll c) \<and> contents view c' = (contents view c)(victim c := None) \<and> victim c \<in> dom (contents view c)
    else evict S c = (Inr False, c)"
proof (cases "Policy (config c) \<noteq> CacheNone \<and> 0 < csLen S (bstore c)")
  case True
  then have l: "distinct (ll c)" using wf_ll [OF assms] by auto
  obtain k where ne: "ll c \<noteq> []" and k: "view (bstore c) k = Some (last (ll c))" using wf_back [OF assms] True by auto
  have v: "victim c = k" using wf_entry [OF assms k] by (simp add: victim_def)
  have "remove1 (last (ll c)) (ll c) = butlast (ll c)"
    using remove1_last [of "butlast (ll c)" "last (ll c)"] ne l by simp
  then have "ll (removeElement S (last (ll c)) c) = butlast (ll c)" "entries (removeElement S (last (ll c)) c) = entries c"
    using True by (simp_all add: removeElement_def Let_def)
  moreover have "victim c \<in> dom (contents view c)" using k v by (auto simp: contents_def)
  ultimately show ?thesis using wf_remove [OF assms k] True ne v
    by (auto simp: evict_def evicting_def victim_def Let_def split: option.splits)
next
  case False
  then show ?thesis by (auto simp: evict_def evicting_def split: option.splits)
qed

text \<open>The eviction loop ends, whatever the callback says.\<close>

lemma evictLoop_ends:
  assumes "cache_wf view ok c" "csLen S (bstore c) < n"
  shows "\<exists>c'. evictLoop n S c = (Inr (), c') \<and> cache_wf view ok c' \<and> config c' = config c \<and> entries c' = entries c \<and>
    contents view c' \<subseteq>\<^sub>m contents view c \<and> \<not> evicting S c'"
  using assms
proof (induction n arbitrary: c)
  case (Suc n)
  show ?case
  proof (cases "evicting S c")
    case True
    then obtain c1 where c1: "evict S c = (Inr True, c1)" "cache_wf view ok c1" "config c1 = config c" "entries c1 = entries c"
      "contents view c1 = (contents view c)(victim c := None)" "victim c \<in> dom (contents view c)"
      using evict_step [OF Suc.prems(1)] by auto
    have "card (dom (contents view c) - {victim c}) < card (dom (contents view c))"
      using Len_contents [OF Suc.prems(1)] c1(6) by (meson card_Diff1_less)
    then have "csLen S (bstore c1) < n"
      using Len_contents [OF Suc.prems(1)] Len_contents [OF c1(2)] c1(5) Suc.prems(2) by (simp add: baseCache_Len_def)
    with Suc.IH [OF c1(2)] c1 show ?thesis by (fastforce simp: map_le_def split: if_splits)
  next
    case False
    then show ?thesis using evict_step [OF Suc.prems(1)] Suc.prems by auto
  qed
qed simp

lemma wf_insert:
  assumes "cache_wf view ok c" "view (bstore c) k = None"
  shows "cache_wf view ok (insertEntry S k v c)" "contents view (insertEntry S k v c) = (contents view c)(k \<mapsto> v)"
proof -
  let ?n = "length (entries c)" and ?es = "entries c @ [\<lparr>entryKey = k, entryValue = v\<rparr>]"
  note a = add_view [OF wf_ok [OF assms(1)] assms(2), of ?n]
  have e: "b < ?n \<and> ?es ! b = entries c ! b \<and> entryKey (entries c ! b) = k'"
    if "view (bstore c) k' = Some b" for k' b
    using wf_entry [OF assms(1) that] by (simp add: nth_append)
  have "?n \<notin> ran (view (bstore c))" using e by (fastforce simp: ran_def)
  moreover have "ran ((view (bstore c))(k \<mapsto> ?n)) = insert ?n (ran (view (bstore c)))"
    using assms(2) by (rule ran_map_upd)
  ultimately show "cache_wf view ok (insertEntry S k v c)"
    unfolding cache_wf_def insertEntry_def using a e wf_ll [OF assms(1)]
    by (auto simp: less_Suc_eq)
  show "contents view (insertEntry S k v c) = (contents view c)(k \<mapsto> v)"
  proof
    fix x
    show "contents view (insertEntry S k v c) x = ((contents view c)(k \<mapsto> v)) x"
      using a e by (cases "view (bstore c) x") (auto simp: contents_def insertEntry_def)
  qed
qed

lemma wf_overwrite:
  assumes "cache_wf view ok c" "view (bstore c) k = Some a"
    and "c1 = (access a c)\<lparr>entries := (entries c)[a := (entries c ! a)\<lparr>entryValue := v\<rparr>]\<rparr>"
  shows "cache_wf view ok c1 \<and> contents view c1 = (contents view c)(k \<mapsto> v)"
proof
  let ?es = "(entries c)[a := (entries c ! a)\<lparr>entryValue := v\<rparr>]"
  have w: "cache_wf view ok (access a c)" using wf_access [OF assms(1)] assms(2) by (blast intro: ranI)
  have a: "a < length (entries c)" using wf_entry [OF assms(1,2)] by simp
  have "entryKey (?es ! b) = entryKey (entries c ! b)" for b using a by (cases "b = a") simp_all
  then show "cache_wf view ok c1" using w by (simp add: cache_wf_def assms(3))
  have "contents view c1 x = ((contents view c)(k \<mapsto> v)) x" for x
  proof (cases "x = k")
    case True
    then show ?thesis using a assms(2) by (simp add: contents_def assms(3))
  next
    case False
    then have "view (bstore c) x \<noteq> Some a" using wf_inj [OF assms(1,2)] by blast
    with False show ?thesis by (cases "view (bstore c) x") (auto simp: contents_def assms(3))
  qed
  then show "contents view c1 = (contents view c)(k \<mapsto> v)" by blast
qed

text \<open>\<^verbatim>\<open>Add\<close> always returns.\<close>

lemma Add_returns:
  assumes "cache_wf view ok c"
  shows "\<exists>c'. baseCache_Add S k v c = (Inr (), c') \<and> cache_wf view ok c' \<and> config c' = config c \<and>
    contents view c' \<subseteq>\<^sub>m (contents view c)(k \<mapsto> v)"
proof (cases "view (bstore c) k")
  case None
  note i = wf_insert [OF assms None, of v]
  have "config (insertEntry S k v c) = config c" by (simp add: insertEntry_def)
  with evictLoop_ends [OF i(1) lessI] i(2) None get_view [OF wf_ok [OF assms], of k] show ?thesis
    by (auto simp: baseCache_Add_def Let_def)
next
  case (Some a)
  then show ?thesis using wf_overwrite [OF assms Some refl, of v] get_view [OF wf_ok [OF assms], of k]
    by (auto simp: baseCache_Add_def Let_def)
qed

text \<open>Without a policy nothing is evicted.\<close>

lemma Add_none:
  assumes "cache_wf view ok c" "Policy (config c) = CacheNone"
  shows "\<exists>c'. baseCache_Add S k v c = (Inr (), c') \<and> cache_wf view ok c' \<and> config c' = config c \<and>
    contents view c' = (contents view c)(k \<mapsto> v)"
proof (cases "view (bstore c) k")
  case None
  note i = wf_insert [OF assms(1) None, of v]
  have "config (insertEntry S k v c) = config c" by (simp add: insertEntry_def)
  moreover from this assms(2) have "\<not> evicting S (insertEntry S k v c)" by (simp add: evicting_def)
  ultimately show ?thesis using evict_step [OF i(1)] i None get_view [OF wf_ok [OF assms(1)], of k]
    by (auto simp: baseCache_Add_def Let_def)
next
  case (Some a)
  then show ?thesis using wf_overwrite [OF assms(1) Some refl, of v] get_view [OF wf_ok [OF assms(1)], of k]
    by (auto simp: baseCache_Add_def Let_def)
qed

text \<open>A cache bounded by its number of entries evicts one entry when it is full.\<close>

lemma Add_bounded:
  assumes "cache_wf view ok c" "Policy (config c) \<noteq> CacheNone" "ShouldEvict (config c) = Some (\<lambda>n _ _. bound < n)"
    and "0 < bound" "csLen S (bstore c) \<le> bound"
  shows "\<exists>c'. baseCache_Add S k v c = (Inr (), c') \<and> cache_wf view ok c' \<and> config c' = config c \<and>
    csLen S (bstore c') \<le> bound \<and>
    contents view c' = (if k \<notin> dom (contents view c) \<and> csLen S (bstore c) = bound
      then (contents view c)(victim c := None) else contents view c)(k \<mapsto> v)"
proof (cases "view (bstore c) k")
  case None
  let ?c = "insertEntry S k v c"
  note i = wf_insert [OF assms(1) None, of v]
  have cfg: "config ?c = config c" by (simp add: insertEntry_def)
  have add: "baseCache_Add S k v c = evictLoop (Suc (csLen S (bstore ?c))) S ?c"
    using None get_view [OF wf_ok [OF assms(1)], of k] by (simp add: baseCache_Add_def Let_def)
  have fresh: "k \<notin> dom (contents view c)" using None by (simp add: contents_def domIff)
  then have len: "csLen S (bstore ?c) = Suc (csLen S (bstore c))"
    using Len_contents [OF assms(1)] Len_contents [OF i(1)] i(2) by (simp add: baseCache_Len_def)
  show ?thesis
  proof (cases "csLen S (bstore c) = bound")
    case False
    then have "\<not> evicting S ?c" using len assms(3,5) cfg by (simp add: evicting_def)
    with evict_step [OF i(1)] add i cfg len False assms(5) fresh show ?thesis by auto
  next
    case True
    then have e: "evicting S ?c" using len assms(2,3) cfg by (simp add: evicting_def)
    obtain k' where ne: "ll c \<noteq> []" and k': "view (bstore c) k' = Some (last (ll c))"
      using wf_back [OF assms(1,2)] True assms(4) by auto
    have vc: "victim c = k'" using wf_entry [OF assms(1) k'] by (simp add: victim_def)
    have vic: "victim ?c = victim c" "victim c \<noteq> k"
      using wf_entry [OF assms(1) k'] ne assms(2) vc k' None by (auto simp: victim_def insertEntry_def nth_append)
    from evict_step [OF i(1)] e obtain c1 where c1: "evict S ?c = (Inr True, c1)" "cache_wf view ok c1"
      "config c1 = config c" "contents view c1 = (contents view ?c)(victim ?c := None)" "victim ?c \<in> dom (contents view ?c)"
      using cfg by auto
    have "card (dom (contents view ?c)) = Suc bound"
      using Len_contents [OF i(1)] len True unfolding baseCache_Len_def by linarith
    then have "card (dom (contents view ?c) - {victim ?c}) = bound" using c1(5) by (simp add: card_Diff_singleton)
    then have len1: "csLen S (bstore c1) = bound"
      using Len_contents [OF c1(2)] c1(4) by (simp add: baseCache_Len_def)
    then have "\<not> evicting S c1" using c1(3) assms(3) by (simp add: evicting_def)
    with evict_step [OF c1(2)] c1(1) have "evictLoop (Suc (csLen S (bstore ?c))) S ?c = (Inr (), c1)"
      using len by simp
    with add c1 len1 i(2) vic fresh True show ?thesis by (auto simp: fun_upd_twist)
  qed
next
  case (Some a)
  let ?c = "(access a c)\<lparr>entries := (entries c)[a := (entries c ! a)\<lparr>entryValue := v\<rparr>]\<rparr>"
  have "baseCache_Add S k v c = (Inr (), ?c)"
    using Some get_view [OF wf_ok [OF assms(1)], of k] by (simp add: baseCache_Add_def Let_def)
  moreover have "k \<in> dom (contents view c)" using Some by (simp add: contents_def domIff)
  ultimately show ?thesis using wf_overwrite [OF assms(1) Some refl, of v] assms(5) by auto
qed

end

section \<open>The stores\<close>

interpretation unordered: cache_store UnorderedCache map_of "\<lambda>m. distinct (map fst m)"
proof
  fix m :: "('a \<times> nat) list"
  assume "distinct (map fst m)"
  then show "finite (dom (map_of m)) \<and> csLen UnorderedCache m = card (dom (map_of m))"
    using distinct_card [of "map fst m"] by (simp add: UnorderedCache_def dom_map_of_conv_image_fst finite_dom_map_of)
qed (auto simp: UnorderedCache_def update_conv' delete_conv' distinct_update distinct_delete)

text \<open>What \<^verbatim>\<open>llrb\<close> documents of its tree.\<close>

locale llrb_laws =
  fixes T :: "('k :: linorder, 't) llrb" and view :: "'t \<Rightarrow> 'k \<rightharpoonup> nat" and ok :: "'t \<Rightarrow> bool"
  assumes empty: "ok (tEmpty T) \<and> view (tEmpty T) = Map.empty"
    and get: "ok t \<Longrightarrow> tGet T k t = view t k"
    and insert: "ok t \<Longrightarrow> view t k = None \<Longrightarrow> ok (tInsert T k a t) \<and> view (tInsert T k a t) = (view t)(k \<mapsto> a)"
    and delete: "ok t \<Longrightarrow> ok (tDelete T k t) \<and> view (tDelete T k t) = (view t)(k := None)"
    and len: "ok t \<Longrightarrow> finite (dom (view t)) \<and> tLen T t = card (dom (view t))"
    and floor: "ok t \<Longrightarrow> tFloor T k t =
      (if \<exists>x \<in> dom (view t). x \<le> k then view t (Max {x \<in> dom (view t). x \<le> k}) else None)"
    and ceil: "ok t \<Longrightarrow> tCeil T k t =
      (if \<exists>x \<in> dom (view t). k \<le> x then view t (Min {x \<in> dom (view t). k \<le> x}) else None)"
    and visits: "ok t \<Longrightarrow> map Some (tDo T t) = map (view t) (sorted_list_of_set (dom (view t)))"

sublocale llrb_laws \<subseteq> ordered: cache_store "OrderedCache T" view ok
  by unfold_locales (simp_all add: OrderedCache_def get insert delete len)

context llrb_laws
begin

lemma wf_NewOrderedCache:
  "cache_wf view ok (NewOrderedCache T cfg) \<and> contents view (NewOrderedCache T cfg) = Map.empty"
  unfolding NewOrderedCache_def using ordered.wf_new empty by blast

lemma Floor_contents:
  assumes "cache_wf view ok c"
  shows "Floor T k c = (if \<exists>x \<in> dom (contents view c). x \<le> k
    then let x = Max {x \<in> dom (contents view c). x \<le> k} in map_option (Pair x) (contents view c x) else None)"
proof (cases "\<exists>x \<in> dom (contents view c). x \<le> k")
  case True
  let ?x = "Max {x \<in> dom (contents view c). x \<le> k}"
  have "finite {x \<in> dom (contents view c). x \<le> k}" using ordered.Len_contents [OF assms] by simp
  with True have "?x \<in> dom (contents view c)" using Max_in [of "{x \<in> dom (contents view c). x \<le> k}"] by auto
  then obtain a where a: "view (bstore c) ?x = Some a" by (auto simp: ordered.dom_contents)
  have "tFloor T k (bstore c) = Some a"
    using floor [OF ordered.wf_ok [OF assms], of k] True a by (simp add: ordered.dom_contents)
  with True a ordered.wf_entry [OF assms a] show ?thesis by (simp add: Floor_def entryAt_def contents_def Let_def)
next
  case False
  then have "\<not> (\<exists>x \<in> dom (view (bstore c)). x \<le> k)" by (simp add: ordered.dom_contents)
  then have "tFloor T k (bstore c) = None" using floor [OF ordered.wf_ok [OF assms], of k] by simp
  with False show ?thesis by (simp add: Floor_def entryAt_def)
qed

lemma Do_contents:
  assumes "cache_wf view ok c"
  shows "Do T c = map (\<lambda>k. (k, the (contents view c k))) (sorted_list_of_set (dom (contents view c)))"
proof -
  let ?ks = "sorted_list_of_set (dom (view (bstore c)))"
  have fin: "finite (dom (view (bstore c)))" using ordered.Len_contents [OF assms] by (simp add: ordered.dom_contents)
  have v: "map Some (tDo T (bstore c)) = map (view (bstore c)) ?ks" by (rule visits [OF ordered.wf_ok [OF assms]])
  have "tDo T (bstore c) = map the (map Some (tDo T (bstore c)))" by (simp add: comp_def)
  also have "\<dots> = map (\<lambda>k. the (view (bstore c) k)) ?ks" unfolding v by (simp add: comp_def)
  finally have "tDo T (bstore c) = map (\<lambda>k. the (view (bstore c) k)) ?ks" .
  moreover have "(entryKey (entries c ! the (view (bstore c) k)), entryValue (entries c ! the (view (bstore c) k)))
      = (k, the (contents view c k))" if "k \<in> set ?ks" for k
    using that fin ordered.wf_entry [OF assms, of k] by (auto simp: contents_def)
  ultimately show ?thesis by (simp add: Do_def ordered.dom_contents)
qed

end

text \<open>A tree, as a list of keys with addresses.\<close>

definition ref_tree :: "('k :: linorder, ('k \<times> nat) list) llrb" where
  "ref_tree = \<lparr>tGet = (\<lambda>k t. map_of t k), tInsert = AList.update, tDelete = AList.delete, tLen = length,
     tFloor = (\<lambda>k t. case filter (\<lambda>x. x \<le> k) (sort (map fst t)) of [] \<Rightarrow> None | xs \<Rightarrow> map_of t (last xs)),
     tCeil = (\<lambda>k t. case filter (\<lambda>x. k \<le> x) (sort (map fst t)) of [] \<Rightarrow> None | x # xs \<Rightarrow> map_of t x),
     tDo = (\<lambda>t. map (\<lambda>k. the (map_of t k)) (sort (map fst t))), tEmpty = []\<rparr>"

lemma sorted_last_Max: "sorted xs \<Longrightarrow> xs \<noteq> [] \<Longrightarrow> last xs = Max (set xs)"
  by (cases xs rule: rev_cases) (auto simp: sorted_append intro!: Max_eqI [symmetric])

interpretation ref_tree: llrb_laws "ref_tree :: ('k :: linorder, ('k \<times> nat) list) llrb" map_of "\<lambda>t. distinct (map fst t)"
proof
  fix t :: "('k \<times> nat) list" and k
  assume d: "distinct (map fst t)"
  let ?s = "sort (map fst t)"
  have set: "set (filter P ?s) = {x \<in> dom (map_of t). P x}" for P by (auto simp: dom_map_of_conv_image_fst)
  have sorted_f: "sorted (filter P ?s)" for P by (metis sorted_sort filter_sort)
  have sl: "sorted_list_of_set (dom (map_of t)) = ?s"
    using d by (metis dom_map_of_conv_image_fst list.set_map sorted_list_of_set_sort_remdups distinct_remdups_id)
  show "finite (dom (map_of t)) \<and> tLen ref_tree t = card (dom (map_of t))"
    using d distinct_card [of "map fst t"] by (simp add: ref_tree_def dom_map_of_conv_image_fst finite_dom_map_of)
  show "tFloor ref_tree k t = (if \<exists>x \<in> dom (map_of t). x \<le> k
      then map_of t (Max {x \<in> dom (map_of t). x \<le> k}) else None)"
  proof (cases "filter (\<lambda>x. x \<le> k) ?s = []")
    case True
    with set [of "\<lambda>x. x \<le> k"] show ?thesis by (auto simp: ref_tree_def)
  next
    case False
    then have "\<exists>x \<in> dom (map_of t). x \<le> k" using set [of "\<lambda>x. x \<le> k"] by (metis (mono_tags, lifting) empty_Collect_eq set_empty)
    with False sorted_last_Max [OF sorted_f False] set [of "\<lambda>x. x \<le> k"] show ?thesis
      by (cases "filter (\<lambda>x. x \<le> k) ?s") (simp_all add: ref_tree_def)
  qed
  show "tCeil ref_tree k t = (if \<exists>x \<in> dom (map_of t). k \<le> x
      then map_of t (Min {x \<in> dom (map_of t). k \<le> x}) else None)"
  proof (cases "filter (\<lambda>x. k \<le> x) ?s")
    case Nil
    with set [of "\<lambda>x. k \<le> x"] show ?thesis by (auto simp: ref_tree_def)
  next
    case (Cons y ys)
    have "sorted (y # ys)" using Cons [symmetric] by (simp add: sorted_f)
    then have "Min (set (y # ys)) = y" by (intro Min_eqI) auto
    moreover have "\<exists>x \<in> dom (map_of t). k \<le> x" using set [of "\<lambda>x. k \<le> x"] Cons by (metis (mono_tags, lifting) list.set_intros(1) mem_Collect_eq)
    ultimately show ?thesis using Cons set [of "\<lambda>x. k \<le> x"] by (simp add: ref_tree_def)
  qed
  have "map_of t x = Some (the (map_of t x))" if "x \<in> set (map fst t)" for x
    using that by (metis domIff dom_map_of_conv_image_fst image_set option.collapse)
  then show "map Some (tDo ref_tree t) = map (map_of t) (sorted_list_of_set (dom (map_of t)))"
    by (simp add: sl ref_tree_def comp_def)
qed (auto simp: ref_tree_def update_conv' delete_conv' distinct_update distinct_delete)

section \<open>Properties\<close>

text \<open>
  C25. A cache with a bound on its size, as its configuration suggests one, keeps to it. Adding a key
  always returns; the key has its new value; if it is new and the cache was full, exactly the entry at
  the back of the eviction list goes, and otherwise nothing does; the store and the list stay in step.
\<close>

theorem bounded_cache:
  assumes "cache_wf map_of (\<lambda>m. distinct (map fst m)) c"
    and "Policy (config c) \<noteq> CacheNone" and "ShouldEvict (config c) = Some (\<lambda>n _ _. bound < n)"
    and "0 < bound" and "baseCache_Len UnorderedCache c \<le> bound"
  shows "\<exists>c'. baseCache_Add UnorderedCache k v c = (Inr (), c') \<and>
    cache_wf map_of (\<lambda>m. distinct (map fst m)) c' \<and> config c' = config c \<and>
    baseCache_Len UnorderedCache c' \<le> bound \<and>
    contents map_of c' =
      (if k \<notin> dom (contents map_of c) \<and> baseCache_Len UnorderedCache c = bound
       then (contents map_of c)(victim c := None) else contents map_of c)(k \<mapsto> v)"
  using unordered.Add_bounded [OF assms(1-4)] assms(5) by (simp add: baseCache_Len_def)

definition sample_cache :: "(nat, nat, (nat \<times> nat) list) baseCache" where
  "sample_cache = \<lparr>config = \<lparr>Policy = CacheLRU, ShouldEvict = Some (\<lambda>n _ _. 2 < n)\<rparr>,
     entries = [\<lparr>entryKey = 1, entryValue = 10\<rparr>, \<lparr>entryKey = 2, entryValue = 20\<rparr>],
     bstore = [(1, 0), (2, 1)], ll = [0, 1], evicted = []\<rparr>"

theorem bounded_cache_witness:
  "\<exists>c'. baseCache_Add UnorderedCache 3 30 sample_cache = (Inr (), c') \<and>
    contents map_of c' 3 = Some 30 \<and> contents map_of c' 1 = Some 10 \<and> contents map_of c' 2 = None"
proof -
  have wf: "cache_wf map_of (\<lambda>m. distinct (map fst m)) sample_cache"
    by (simp add: cache_wf_def sample_cache_def ran_distinct)
  have "contents map_of sample_cache 1 = Some 10" "contents map_of sample_cache 3 = None" "victim sample_cache = 2"
    "baseCache_Len UnorderedCache sample_cache = 2"
    by (simp_all add: contents_def sample_cache_def victim_def baseCache_Len_def UnorderedCache_def)
  with bounded_cache [OF wf, of 2 3 30] show ?thesis by (auto simp: sample_cache_def domIff)
qed

end
