(* ===== verification/RangeCache.thy ===== *)
theory RangeCache
  imports Cache Transport
begin

text \<open>
  The range descriptors known to the placement driver, \<^verbatim>\<open>src/util/cache/range_cache.go\<close>: an ordered cache
  by start key and two maps by range id. All three hold pointers to the same descriptors, which are
  changed in place, so the descriptors are kept in a heap. A Go map is an association list with
  distinct keys; \<open>ord\<close> is the order in which a loop over it runs.
  Proved: the three tables agree, a key is looked up in the one range that contains it, and after a
  split every key of the old range is found in the right half.
\<close>

section \<open>Definitions\<close>

record 't rangeDescriptorCache =
  minReplica :: nat
  rdHeap :: "RangeDescriptor list"
  unstable :: "(int64 \<times> nat) list"
  ranges :: "(int64 \<times> nat) list"
  rcache :: "(bytes, nat, 't) baseCache"

definition NewRangeDescriptorCache :: "(bytes, 't) llrb \<Rightarrow> nat \<Rightarrow> 't rangeDescriptorCache" where
  "NewRangeDescriptorCache T n = \<lparr>minReplica = n, rdHeap = [], unstable = [], ranges = [],
     rcache = NewOrderedCache T \<lparr>Policy = CacheNone, ShouldEvict = None\<rparr>\<rparr>"

text \<open>Pointers to descriptors.\<close>

definition rdc_Get :: "int64 \<Rightarrow> 't rangeDescriptorCache \<Rightarrow> error + nat" where
  "rdc_Get rid c = (case map_of (ranges c) rid of Some a \<Rightarrow> Inr a | None \<Rightarrow> Inl cacheErrNotFound)"

definition rdc_Unstable :: "(int64 list \<Rightarrow> int64 list) \<Rightarrow> 't rangeDescriptorCache \<Rightarrow> nat list" where
  "rdc_Unstable ord c = map (\<lambda>rid. the (map_of (unstable c) rid)) (ord (map fst (unstable c)))"

definition rdc_Add1 :: "(bytes, 't) llrb \<Rightarrow> RangeDescriptor \<Rightarrow> ('t rangeDescriptorCache, error, unit) op" where
  "rdc_Add1 T rd c =
     (let a = length (rdHeap c);
          c = c\<lparr>rdHeap := rdHeap c @ [rd]\<rparr>;
          (found, rc) = baseCache_Get (OrderedCache T) (StartKey rd) (rcache c);
          c = c\<lparr>rcache := rc\<rparr>;
          c = (if found \<noteq> None
               then c\<lparr>rcache := baseCache_Del (OrderedCache T) (StartKey rd) rc,
                      ranges := AList.delete (RangeID rd) (ranges c), unstable := AList.delete (RangeID rd) (unstable c)\<rparr>
               else c)
      in case baseCache_Add (OrderedCache T) (StartKey rd) a (rcache c) of
           (Inl err, rc) \<Rightarrow> (Inl err, c\<lparr>rcache := rc\<rparr>)
         | (Inr _, rc) \<Rightarrow>
             (Inr (), c\<lparr>rcache := rc, ranges := AList.update (RangeID rd) a (ranges c),
                unstable := (if length (Replicas rd) < minReplica c
                             then AList.update (RangeID rd) a (unstable c) else unstable c)\<rparr>))"

fun rdc_Add :: "(bytes, 't) llrb \<Rightarrow> RangeDescriptor list \<Rightarrow> ('t rangeDescriptorCache, error, unit) op" where
  "rdc_Add T [] = ret ()"
| "rdc_Add T (rd # rds) = bindM (rdc_Add1 T rd) (\<lambda>_. rdc_Add T rds)"

definition rdc_Lookup :: "(bytes, 't) llrb \<Rightarrow> bytes \<Rightarrow> 't rangeDescriptorCache \<Rightarrow> error + nat" where
  "rdc_Lookup T key c =
     (case Floor T key (rcache c) of
        None \<Rightarrow> Inl cacheErrNotFound
      | Some (_, a) \<Rightarrow>
          (let rd = rdHeap c ! a
           in if \<not> (StartKey rd \<le> key \<and> key < EndKey rd) then Inl cacheErrNotFound else Inr a))"

definition rdc_Iterate :: "(bytes, 't) llrb \<Rightarrow> 't rangeDescriptorCache \<Rightarrow> nat list" where
  "rdc_Iterate T c = map snd (Do T (rcache c))"

text \<open>
  The replica of a node is swapped to the front. Without the range the code releases the write lock of a
  mutex it holds for reading, which ends the process.
\<close>

fun replicaIndex :: "int32 \<Rightarrow> nat \<Rightarrow> ReplicaDescriptor list \<Rightarrow> nat option" where
  "replicaIndex nid i [] = None"
| "replicaIndex nid i (rp # rps) = (if RepNodeID rp = nid then Some i else replicaIndex nid (i + 1) rps)"

definition swapFront :: "int32 \<Rightarrow> ReplicaDescriptor list \<Rightarrow> ReplicaDescriptor list" where
  "swapFront nid rps =
     (case replicaIndex nid 0 rps of
        None \<Rightarrow> rps
      | Some i \<Rightarrow> if i \<noteq> 0 then rps[0 := rps ! i, i := rps ! 0] else rps)"

definition setReplicas :: "nat \<Rightarrow> ReplicaDescriptor list \<Rightarrow> 't rangeDescriptorCache \<Rightarrow> 't rangeDescriptorCache" where
  "setReplicas a rps c = c\<lparr>rdHeap := (rdHeap c)[a := (rdHeap c ! a)\<lparr>Replicas := rps\<rparr>]\<rparr>"

definition AdjustLeader :: "int64 \<Rightarrow> int32 \<Rightarrow> ('t rangeDescriptorCache, error, unit) op" where
  "AdjustLeader rid nid c =
     (case map_of (ranges c) rid of
        None \<Rightarrow> (Inl (Panic ''sync: Unlock of unlocked RWMutex''), c)
      | Some a \<Rightarrow> (Inr (), setReplicas a (swapFront nid (Replicas (rdHeap c ! a))) c))"

section \<open>The tables\<close>

text \<open>The descriptors by start key and by range id.\<close>

definition byStart :: "('t \<Rightarrow> bytes \<rightharpoonup> nat) \<Rightarrow> 't rangeDescriptorCache \<Rightarrow> bytes \<rightharpoonup> RangeDescriptor" where
  "byStart view c k = map_option ((!) (rdHeap c)) (contents view (rcache c) k)"

definition byId :: "'t rangeDescriptorCache \<Rightarrow> int64 \<rightharpoonup> RangeDescriptor" where
  "byId c i = map_option ((!) (rdHeap c)) (map_of (ranges c) i)"

definition rdc_wf :: "('t \<Rightarrow> bytes \<rightharpoonup> nat) \<Rightarrow> ('t \<Rightarrow> bool) \<Rightarrow> 't rangeDescriptorCache \<Rightarrow> bool" where
  "rdc_wf view ok c \<longleftrightarrow>
     cache_wf view ok (rcache c) \<and> Policy (config (rcache c)) = CacheNone \<and>
     distinct (map fst (ranges c)) \<and> distinct (map fst (unstable c)) \<and>
     RangeID ` set (rdHeap c) \<subseteq> dom (map_of (ranges c)) \<and>
     (\<forall>k a. contents view (rcache c) k = Some a \<longrightarrow> a < length (rdHeap c) \<and> StartKey (rdHeap c ! a) = k) \<and>
     (\<forall>i a. map_of (ranges c) i = Some a \<longrightarrow> a < length (rdHeap c) \<and> RangeID (rdHeap c ! a) = i) \<and>
     (\<forall>i a. map_of (unstable c) i = Some a \<longrightarrow> a < length (rdHeap c) \<and> RangeID (rdHeap c ! a) = i) \<and>
     StartKey ` set (rdHeap c) \<subseteq> dom (contents view (rcache c)) \<and>
     (\<forall>i a. map_of (ranges c) i = Some a \<and> length (Replicas (rdHeap c ! a)) < minReplica c \<longrightarrow> map_of (unstable c) i = Some a)"

text \<open>Descriptors are added and may get other replicas, but keep their range, and ranges are never forgotten.\<close>

definition rdc_grows :: "'t rangeDescriptorCache \<Rightarrow> 't rangeDescriptorCache \<Rightarrow> bool" where
  "rdc_grows c c' \<longleftrightarrow> minReplica c' = minReplica c \<and> dom (map_of (ranges c)) \<subseteq> dom (map_of (ranges c')) \<and>
     length (rdHeap c) \<le> length (rdHeap c') \<and>
     (\<forall>a < length (rdHeap c). RangeID (rdHeap c' ! a) = RangeID (rdHeap c ! a) \<and>
        StartKey (rdHeap c' ! a) = StartKey (rdHeap c ! a) \<and> EndKey (rdHeap c' ! a) = EndKey (rdHeap c ! a))"

lemma rdc_grows_refl: "rdc_grows c c"
  by (simp add: rdc_grows_def)

lemma rdc_grows_trans: "rdc_grows c d \<Longrightarrow> rdc_grows d e \<Longrightarrow> rdc_grows c e"
  by (auto simp: rdc_grows_def)

text \<open>Ranges that do not overlap.\<close>

definition tiling :: "(bytes \<rightharpoonup> RangeDescriptor) \<Rightarrow> bool" where
  "tiling m \<longleftrightarrow>
     (\<forall>k rd. m k = Some rd \<longrightarrow> StartKey rd = k \<and> k < EndKey rd) \<and>
     (\<forall>k l rd rd'. m k = Some rd \<and> m l = Some rd' \<and> k < l \<longrightarrow> EndKey rd \<le> l)"

definition found :: "(bytes, 't) llrb \<Rightarrow> bytes \<Rightarrow> 't rangeDescriptorCache \<Rightarrow> RangeDescriptor option" where
  "found T key c = (case rdc_Lookup T key c of Inl _ \<Rightarrow> None | Inr a \<Rightarrow> Some (rdHeap c ! a))"

definition within :: "bytes \<Rightarrow> RangeDescriptor \<Rightarrow> bool" where
  "within k rd \<longleftrightarrow> StartKey rd \<le> k \<and> k < EndKey rd"

lemma rdc_wfD:
  assumes "rdc_wf view ok c"
  shows "cache_wf view ok (rcache c)" "Policy (config (rcache c)) = CacheNone"
    "distinct (map fst (ranges c))" "distinct (map fst (unstable c))"
    "RangeID ` set (rdHeap c) \<subseteq> dom (map_of (ranges c))"
    "contents view (rcache c) k = Some a \<Longrightarrow> a < length (rdHeap c) \<and> StartKey (rdHeap c ! a) = k"
    "map_of (ranges c) i = Some a \<Longrightarrow> a < length (rdHeap c) \<and> RangeID (rdHeap c ! a) = i"
    "map_of (unstable c) i = Some a \<Longrightarrow> a < length (rdHeap c) \<and> RangeID (rdHeap c ! a) = i"
    "StartKey ` set (rdHeap c) \<subseteq> dom (contents view (rcache c))"
    "map_of (ranges c) i = Some a \<Longrightarrow> length (Replicas (rdHeap c ! a)) < minReplica c \<Longrightarrow> map_of (unstable c) i = Some a"
  using assms by (simp_all add: rdc_wf_def)

locale range_tree = llrb_laws T view ok
  for T :: "(bytes, 't) llrb" and view :: "'t \<Rightarrow> bytes \<rightharpoonup> nat" and ok :: "'t \<Rightarrow> bool"
begin

lemma rdc_wf_new:
  "rdc_wf view ok (NewRangeDescriptorCache T n) \<and> byStart view (NewRangeDescriptorCache T n) = Map.empty \<and>
   byId (NewRangeDescriptorCache T n) = Map.empty"
  using wf_NewOrderedCache [of "\<lparr>Policy = CacheNone, ShouldEvict = None\<rparr>"]
  by (auto simp: rdc_wf_def NewRangeDescriptorCache_def byStart_def byId_def NewOrderedCache_def newBaseCache_def)

text \<open>Adding a descriptor replaces what the tables have at its start key and at its id.\<close>

lemma rdc_Add1_tables:
  assumes "rdc_wf view ok c"
  shows "\<exists>c'. rdc_Add1 T rd c = (Inr (), c') \<and> rdc_wf view ok c' \<and> minReplica c' = minReplica c \<and>
    byStart view c' = (byStart view c)(StartKey rd \<mapsto> rd) \<and> byId c' = (byId c)(RangeID rd \<mapsto> rd) \<and> rdc_grows c c'"
proof -
  note w = rdc_wfD [OF assms]
  let ?n = "length (rdHeap c)" and ?S = "OrderedCache T"
  obtain found rc where g: "baseCache_Get ?S (StartKey rd) (rcache c) = (found, rc)"
    by (cases "baseCache_Get ?S (StartKey rd) (rcache c)")
  have rc: "cache_wf view ok rc" "contents view rc = contents view (rcache c)" "config rc = config (rcache c)"
    using ordered.Get_contents [OF w(1) g] Get_config [OF g] by simp_all
  define rc1 where "rc1 = (if found \<noteq> None then baseCache_Del ?S (StartKey rd) rc else rc)"
  have rc1: "cache_wf view ok rc1" "config rc1 = config rc"
    "contents view rc1 = contents view (rcache c) \<or> contents view rc1 = (contents view (rcache c))(StartKey rd := None)"
    using ordered.Del_contents [OF rc(1), of "StartKey rd"] rc Del_config [of ?S "StartKey rd" rc]
    by (simp_all add: rc1_def)
  obtain rc2 where rc2: "baseCache_Add ?S (StartKey rd) ?n rc1 = (Inr (), rc2)" "cache_wf view ok rc2"
    "config rc2 = config rc1" "contents view rc2 = (contents view rc1)(StartKey rd \<mapsto> ?n)"
    using ordered.Add_none [OF rc1(1), of "StartKey rd" ?n] rc1(2) rc(3) w(2) by auto
  define del :: "(int64 \<times> nat) list \<Rightarrow> (int64 \<times> nat) list" where
    "del m = (if found \<noteq> None then AList.delete (RangeID rd) m else m)" for m
  let ?c' = "c\<lparr>rdHeap := rdHeap c @ [rd], rcache := rc2, ranges := AList.update (RangeID rd) ?n (del (ranges c)),
    unstable := (if length (Replicas rd) < minReplica c then AList.update (RangeID rd) ?n (del (unstable c)) else del (unstable c))\<rparr>"
  have eq: "rdc_Add1 T rd c = (Inr (), ?c')"
    using g rc2(1) [unfolded rc1_def] by (cases found) (simp_all add: rdc_Add1_def Let_def del_def)
  have con: "contents view rc2 = (contents view (rcache c))(StartKey rd \<mapsto> ?n)" using rc1(3) rc2(4) by auto
  have ran: "map_of (AList.update (RangeID rd) ?n (del (ranges c))) = (map_of (ranges c))(RangeID rd \<mapsto> ?n)"
    by (simp add: del_def update_conv' delete_conv')
  have un: "map_of (unstable ?c') i = Some a \<Longrightarrow> i = RangeID rd \<and> a = ?n \<or> map_of (unstable c) i = Some a" for i a
    by (auto simp: del_def update_conv' delete_conv' split: if_splits)
  have old: "a < ?n \<Longrightarrow> (rdHeap c @ [rd]) ! a = rdHeap c ! a" for a by (simp add: nth_append)
  have "rdc_wf view ok ?c'"
    unfolding rdc_wf_def
  proof (intro conjI allI impI)
    show "distinct (map fst (ranges ?c'))" "distinct (map fst (unstable ?c'))"
      using w(3,4) by (simp_all add: del_def distinct_update distinct_delete)
    show "RangeID ` set (rdHeap ?c') \<subseteq> dom (map_of (ranges ?c'))" using w(5) ran by auto
    show "cache_wf view ok (rcache ?c')" "Policy (config (rcache ?c')) = CacheNone" using rc2 rc1 rc w(2) by simp_all
    show "a < length (rdHeap ?c')" "StartKey (rdHeap ?c' ! a) = k" if "contents view (rcache ?c') k = Some a" for k a
      using that con w(6) [of k a] old [of a] by (auto split: if_splits)
    show "a < length (rdHeap ?c')" "RangeID (rdHeap ?c' ! a) = i" if "map_of (ranges ?c') i = Some a" for i a
      using that ran w(7) [of i a] old [of a] by (auto split: if_splits)
    show "a < length (rdHeap ?c')" "RangeID (rdHeap ?c' ! a) = i" if "map_of (unstable ?c') i = Some a" for i a
      using un [OF that] w(8) [of i a] old [of a] by auto
    show "StartKey ` set (rdHeap ?c') \<subseteq> dom (contents view (rcache ?c'))" using w(9) con by auto
    show "map_of (unstable ?c') i = Some a"
      if "map_of (ranges ?c') i = Some a \<and> length (Replicas (rdHeap ?c' ! a)) < minReplica ?c'" for i a
      using that ran w(7) [of i a] w(10) [of i a] old [of a]
      by (cases "i = RangeID rd") (auto simp: del_def update_conv' delete_conv')
  qed
  moreover have "byStart view ?c' = (byStart view c)(StartKey rd \<mapsto> rd)"
  proof
    fix k
    show "byStart view ?c' k = ((byStart view c)(StartKey rd \<mapsto> rd)) k"
      using con w(6) [of k] old by (cases "contents view (rcache c) k") (auto simp: byStart_def)
  qed
  moreover have "byId ?c' = (byId c)(RangeID rd \<mapsto> rd)"
  proof
    fix i
    show "byId ?c' i = ((byId c)(RangeID rd \<mapsto> rd)) i"
      using ran w(7) [of i] old by (cases "map_of (ranges c) i") (auto simp: byId_def)
  qed
  moreover have "rdc_grows c ?c'" using ran old by (auto simp: rdc_grows_def)
  ultimately show ?thesis using eq by auto
qed

text \<open>A descriptor with enough replicas takes its range off the list of unstable ones.\<close>

lemma rdc_Add1_stable:
  assumes "rdc_wf view ok c" "minReplica c \<le> length (Replicas rd)" "StartKey rd \<in> dom (contents view (rcache c))"
    and "rdc_Add1 T rd c = (r, c')"
  shows "map_of (unstable c') = (map_of (unstable c))(RangeID rd := None) \<and> rdHeap c' = rdHeap c @ [rd]"
proof -
  obtain found rc where g: "baseCache_Get (OrderedCache T) (StartKey rd) (rcache c) = (found, rc)"
    by (cases "baseCache_Get (OrderedCache T) (StartKey rd) (rcache c)")
  have "found \<noteq> None" using ordered.Get_contents [OF rdc_wfD(1) [OF assms(1)] g] assms(3) by auto
  with assms(2,4) g show ?thesis
    by (auto simp: rdc_Add1_def Let_def delete_conv' split: sum.splits prod.splits)
qed

lemma rdc_Add_tables:
  assumes "rdc_wf view ok c"
  shows "\<exists>c'. rdc_Add T rds c = (Inr (), c') \<and> rdc_wf view ok c' \<and> minReplica c' = minReplica c \<and>
    byStart view c' = fold (\<lambda>rd m. m(StartKey rd \<mapsto> rd)) rds (byStart view c) \<and>
    byId c' = fold (\<lambda>rd m. m(RangeID rd \<mapsto> rd)) rds (byId c) \<and> rdc_grows c c'"
  using assms
proof (induction rds arbitrary: c)
  case (Cons rd rds)
  from rdc_Add1_tables [OF Cons.prems, of rd] obtain c1 where c1: "rdc_Add1 T rd c = (Inr (), c1)" "rdc_wf view ok c1"
    "minReplica c1 = minReplica c" "byStart view c1 = (byStart view c)(StartKey rd \<mapsto> rd)" "byId c1 = (byId c)(RangeID rd \<mapsto> rd)" "rdc_grows c c1"
    by blast
  with Cons.IH [OF c1(2)] show ?case by (auto intro: rdc_grows_trans)
qed (simp add: rdc_grows_refl)

text \<open>A key is looked up in the range with the largest start key not above it.\<close>

lemma rdc_Lookup_cases:
  assumes "rdc_wf view ok c"
  shows "rdc_Lookup T key c = Inr a \<Longrightarrow> a < length (rdHeap c) \<and> within key (rdHeap c ! a) \<and>
      byStart view c (StartKey (rdHeap c ! a)) = Some (rdHeap c ! a)"
    and "tiling (byStart view c) \<Longrightarrow> byStart view c s = Some rd \<Longrightarrow> within key rd \<Longrightarrow>
      \<exists>a. rdc_Lookup T key c = Inr a \<and> rdHeap c ! a = rd"
proof -
  note w = rdc_wfD [OF assms]
  let ?D = "dom (contents view (rcache c))" and ?x = "Max {x \<in> dom (contents view (rcache c)). x \<le> key}"
  note f = Floor_contents [OF w(1), of key, unfolded Let_def]
  have fin: "finite {x \<in> ?D. x \<le> key}" using ordered.Len_contents [OF w(1)] by simp
  have ex: "?x \<in> ?D \<and> ?x \<le> key" if "\<exists>x \<in> ?D. x \<le> key"
    using Max_in [OF fin] that by auto
  show "a < length (rdHeap c) \<and> within key (rdHeap c ! a) \<and>
      byStart view c (StartKey (rdHeap c ! a)) = Some (rdHeap c ! a)" if "rdc_Lookup T key c = Inr a"
  proof -
    from that have "\<exists>x \<in> ?D. x \<le> key" using f by (auto simp: rdc_Lookup_def split: if_splits)
    with that f have "contents view (rcache c) ?x = Some a" "within key (rdHeap c ! a)"
      by (auto simp: rdc_Lookup_def within_def Let_def split: option.splits if_splits)
    then show ?thesis using w(6) [of ?x a] by (auto simp: byStart_def)
  qed
  show "\<exists>a. rdc_Lookup T key c = Inr a \<and> rdHeap c ! a = rd"
    if t: "tiling (byStart view c)" and s: "byStart view c s = Some rd" and i: "within key rd"
  proof -
    obtain b where b: "contents view (rcache c) s = Some b" "rdHeap c ! b = rd" using s by (auto simp: byStart_def)
    have start: "StartKey rd = s" using w(6) [OF b(1)] b(2) by simp
    have mem: "s \<in> {x \<in> ?D. x \<le> key}" using b(1) i start by (auto simp: within_def)
    then have le: "s \<le> ?x" by (rule Max_ge [OF fin])
    have x: "?x \<in> ?D" "?x \<le> key" using ex mem by auto
    then obtain d where d: "contents view (rcache c) ?x = Some d" by blast
    have "?x = s"
    proof (rule ccontr)
      assume "?x \<noteq> s"
      with le have "s < ?x" by simp
      moreover have "byStart view c ?x = Some (rdHeap c ! d)" using d by (simp add: byStart_def)
      ultimately have "EndKey rd \<le> ?x" using t s unfolding tiling_def by blast
      then have "EndKey rd \<le> key" using x(2) by (rule order.trans)
      with i show False by (simp add: within_def leD)
    qed
    with f mem b i show ?thesis by (auto simp: rdc_Lookup_def within_def Let_def)
  qed
qed

lemma map_update_same: "f y = f (xs ! a) \<Longrightarrow> map f (xs[a := y]) = map f xs"
  by (cases "a < length xs") (auto intro!: nth_equalityI simp: nth_list_update)

text \<open>Changing the replicas of a descriptor in place changes no table.\<close>

lemma setReplicas_kept:
  assumes "rdc_wf view ok c" "length (Replicas (rdHeap c ! a)) \<le> length rps"
  shows "rdc_wf view ok (setReplicas a rps c) \<and> rdc_grows c (setReplicas a rps c)"
proof -
  let ?h = "rdHeap (setReplicas a rps c)"
  have h: "map RangeID ?h = map RangeID (rdHeap c)" "map StartKey ?h = map StartKey (rdHeap c)"
    "map EndKey ?h = map EndKey (rdHeap c)"
    by (simp_all add: setReplicas_def map_update_same)
  have len: "length ?h = length (rdHeap c)" using map_eq_imp_length_eq [OF h(1)] .
  have at: "RangeID (?h ! b) = RangeID (rdHeap c ! b)" "StartKey (?h ! b) = StartKey (rdHeap c ! b)"
    "EndKey (?h ! b) = EndKey (rdHeap c ! b)" if "b < length (rdHeap c)" for b
    using that len h by (metis nth_map)+
  have "RangeID ` set ?h = RangeID ` set (rdHeap c)" "StartKey ` set ?h = StartKey ` set (rdHeap c)"
    using h(1,2) by (metis list.set_map)+
  moreover have d: "rcache (setReplicas a rps c) = rcache c" "ranges (setReplicas a rps c) = ranges c"
    "unstable (setReplicas a rps c) = unstable c" "minReplica (setReplicas a rps c) = minReplica c"
    by (simp_all add: setReplicas_def)
  moreover note w = rdc_wfD [OF assms(1)]
  moreover have "length (Replicas (rdHeap c ! b)) \<le> length (Replicas (?h ! b))" if "b < length (rdHeap c)" for b
    using that assms(2) by (cases "b = a") (auto simp: setReplicas_def)
  then have "map_of (unstable c) i = Some b" if "map_of (ranges c) i = Some b" "length (Replicas (?h ! b)) < minReplica c" for i b
    using w(7) [OF that(1)] w(10) [OF that(1)] that(2) by (meson order.strict_trans1)
  ultimately have "rdc_wf view ok (setReplicas a rps c)"
    unfolding rdc_wf_def d len using w(1-5,9) w(6-8) [THEN conjunct1] w(6-8) [THEN conjunct2] at by simp
  moreover have "rdc_grows c (setReplicas a rps c)" unfolding rdc_grows_def d len using at by simp
  ultimately show ?thesis ..
qed

lemma swapFront_length [simp]: "length (swapFront nid rps) = length rps"
  by (simp add: swapFront_def split: option.splits)

lemma AdjustLeader_kept:
  assumes "rdc_wf view ok c" "AdjustLeader rid nid c = (r, c')"
  shows "rdc_wf view ok c' \<and> rdc_grows c c' \<and> (rid \<in> dom (map_of (ranges c)) \<longrightarrow> r = Inr ())"
  using assms setReplicas_kept [OF assms(1)]
  by (auto simp: AdjustLeader_def rdc_grows_refl split: option.splits)

lemma found_iff:
  assumes "rdc_wf view ok c" "tiling (byStart view c)"
  shows "found T key c = Some rd \<longleftrightarrow> byStart view c (StartKey rd) = Some rd \<and> within key rd"
  using rdc_Lookup_cases(1) [OF assms(1), of key] rdc_Lookup_cases(2) [OF assms, of "StartKey rd" rd key]
  by (auto simp: found_def split: sum.splits)

end

interpretation ref_ranges: range_tree ref_tree map_of "\<lambda>t. distinct (map fst t)"
  by (rule range_tree.intro, rule ref_tree.llrb_laws_axioms)

text \<open>A range is cut in two.\<close>

lemma tiling_split:
  assumes "tiling m" "m s = Some old" "s < x" "x < EndKey old"
    and "StartKey prev = s" "EndKey prev = x" "StartKey post = x" "EndKey post = EndKey old"
  shows "tiling (m(x \<mapsto> post, s \<mapsto> prev))"
    "(m(x \<mapsto> post, s \<mapsto> prev)) (StartKey rd) = Some rd \<and> within k rd \<longleftrightarrow>
      (if within k old then rd = (if k < x then prev else post) else m (StartKey rd) = Some rd \<and> within k rd)"
proof -
  have one: "StartKey r = l \<and> l < EndKey r" if "m l = Some r" for l r using assms(1) that by (simp add: tiling_def)
  have sep: "EndKey r \<le> l'" if "m l = Some r" "m l' = Some r'" "l < l'" for l l' r r'
    using assms(1) that unfolding tiling_def by blast
  have above: "EndKey old \<le> l" if "m l = Some r" "s < l" for l r using sep [OF assms(2) that] .
  have none: "m x = None" using above [of x] assms(3,4) by (cases "m x") (auto dest: leD)
  have below: "EndKey r \<le> s" if "m l = Some r" "l < s" for l r using sep [OF that(1) assms(2) that(2)] .
  have apart: "EndKey r \<le> s \<or> EndKey old \<le> l" if "m l = Some r" "l \<noteq> s" for l r
    using above [of l r] below [of l r] that by fastforce
  let ?m = "m(x \<mapsto> post, s \<mapsto> prev)"
  have m: "l = s \<and> r = prev \<or> l = x \<and> r = post \<or> l \<noteq> s \<and> l \<noteq> x \<and> m l = Some r" if "?m l = Some r" for l r
    using that by (auto split: if_splits)
  show "tiling ?m" unfolding tiling_def
  proof (intro conjI allI impI)
    show "StartKey r = l" "l < EndKey r" if "?m l = Some r" for l r
      using m [OF that] one [of l r] assms(3-8) by auto
    show "EndKey r \<le> l'" if l: "?m l = Some r \<and> ?m l' = Some r' \<and> l < l'" for l l' r r'
    proof -
      consider "l = s" "r = prev" | "l = x" "r = post" | "l \<noteq> s" "l \<noteq> x" "m l = Some r" using m [of l r] l by auto
      then show ?thesis
      proof cases
        case 1
        then show ?thesis using m [of l' r'] l above [of l' r'] assms(4-6) by auto
      next
        case 2
        then have "s < l'" using l assms(3) by auto
        then show ?thesis using m [of l' r'] l above [of l' r'] 2 assms(8) by auto
      next
        case 3
        then show ?thesis using m [of l' r'] l sep [OF 3(3), of l' r'] apart [OF 3(3,1)] assms(3,4) by auto
      qed
    qed
  qed
  show "?m (StartKey rd) = Some rd \<and> within k rd \<longleftrightarrow>
      (if within k old then rd = (if k < x then prev else post) else m (StartKey rd) = Some rd \<and> within k rd)"
  proof -
    consider "StartKey rd = s" | "StartKey rd = x" | "StartKey rd \<noteq> s" "StartKey rd \<noteq> x" by blast
    then show ?thesis
    proof cases
      case 1
      then show ?thesis using assms(2-8) one [OF assms(2)] by (auto simp: within_def)
    next
      case 2
      then show ?thesis using assms(2-8) one [OF assms(2)] none by (auto simp: within_def)
    next
      case 3
      then show ?thesis using apart [of "StartKey rd" rd] assms(5,7) one [OF assms(2)] by (auto simp: within_def)
    qed
  qed
qed

end
