(* ===== verification/Etcd.thy ===== *)
theory Etcd
  imports RaftKey Retry
begin

text \<open>
  The state the placement drivers share: etcd as \<^verbatim>\<open>src/pd/util.go\<close> uses it, and the id allocator of
  \<^verbatim>\<open>src/pd/id.go\<close> on top of it. Etcd is a service, hence a parameter: the record \<open>etcd\<close> has the two
  operations the code calls, the locale \<open>etcd_laws\<close> what its documentation promises of them (reads
  are linearizable, a transaction is atomic, and one that times out may or may not have happened).
  Also Go's \<^verbatim>\<open>strconv.ParseInt\<close> for base 10, and the conversions of \<^verbatim>\<open>src/pd/util.go\<close>.
  Proved: the ids of any number of allocators that share etcd strictly increase.
\<close>

section \<open>Definitions\<close>

subsection \<open>Etcd\<close>

text \<open>
  The comparisons the code makes: of a key's value, which fails when there is none, and of its create
  revision with 0, which holds when there is none. The lease of a put only says when etcd removes it.
\<close>

datatype cmp =
    CmpValue bytes bytes
  | CmpCreateRevision0 bytes

datatype eop = OpPut bytes bytes

text \<open>\<open>eGet\<close> is given whether the option \<^verbatim>\<open>WithPrefix\<close> is set; an error is its message.\<close>

record 'k etcd =
  eGet :: "bytes \<Rightarrow> bool \<Rightarrow> ('k, string, (bytes \<times> bytes) list) op"
  eTxn :: "cmp \<Rightarrow> eop list \<Rightarrow> ('k, string, bool) op"

definition etcdError :: "string \<Rightarrow> error" where
  "etcdError msg = Errorf (''etcd: '' @ msg)"

definition errLostMaster :: error where
  "errLostMaster = Errorf ''maybe we lost master''"

text \<open>\<^verbatim>\<open>getValues\<close>; \<^const>\<open>None\<close> is the nil slice.\<close>

definition getValues :: "'k etcd \<Rightarrow> bytes \<Rightarrow> bool \<Rightarrow> ('k, error, (bytes \<times> bytes) list option) op" where
  "getValues E key pre =
     bindM (mapErr etcdError (eGet E key pre)) (\<lambda>kvs. ret (if length kvs = 0 then None else Some kvs))"

definition putValues :: "'k etcd \<Rightarrow> cmp \<Rightarrow> eop list \<Rightarrow> ('k, error, unit) op" where
  "putValues E c ops =
     bindM (mapErr etcdError (eTxn E c ops)) (\<lambda>succeeded. if \<not> succeeded then fail errLostMaster else ret ())"

definition bytesToUint64 :: "bytes \<Rightarrow> error + uint64" where
  "bytesToUint64 b =
     (if length b \<noteq> 8 then Inl (Errorf ''invalid data, must 8 bytes'')
      else case DecodeUint64 b of Inl _ \<Rightarrow> Inl (Panic ''index out of range'') | Inr (_, v) \<Rightarrow> Inr v)"

definition uint64ToBytes :: "uint64 \<Rightarrow> bytes" where
  "uint64ToBytes v = EncodeUint64 [] v"

subsection \<open>Decimal numbers\<close>

text \<open>
  \<^verbatim>\<open>strconv.ParseInt(s, 10, 64)\<close>: an optional sign and at least one digit, in the range of \<^verbatim>\<open>int64\<close>;
  \<^verbatim>\<open>strconv.FormatInt(i, 10)\<close> is the verb \<^verbatim>\<open>%d\<close>.
\<close>

fun parseDigits :: "nat \<Rightarrow> bytes \<Rightarrow> nat option" where
  "parseDigits n [] = Some n"
| "parseDigits n (c # cs) =
     (if 0x30 \<le> c \<and> c \<le> 0x39 then parseDigits (n * 10 + (unat c - 48)) cs else None)"

definition ParseInt :: "bytes \<Rightarrow> error + int64" where
  "ParseInt s =
     (let neg = (s \<noteq> [] \<and> hd s = 0x2d);
          ds = (if s \<noteq> [] \<and> (hd s = 0x2d \<or> hd s = 0x2b) then tl s else s)
      in if ds = [] then Inl (Errorf ''invalid syntax'')
         else case parseDigits 0 ds of
                None \<Rightarrow> Inl (Errorf ''invalid syntax'')
              | Some n \<Rightarrow>
                  (let i = (if neg then - int n else int n)
                   in if i < - (2 ^ 63) \<or> 2 ^ 63 \<le> i then Inl (Errorf ''value out of range'')
                      else Inr (word_of_int i)))"

definition FormatInt :: "int64 \<Rightarrow> bytes" where
  "FormatInt i = fmt_d (sint i)"

subsection \<open>Allocating ids\<close>

definition ETCDRootPath :: bytes where "ETCDRootPath = ascii ''ancestor''"

definition newIDPath :: bytes where "newIDPath = ETCDRootPath @ ascii ''/NewID''"

text \<open>
  A round of \<^verbatim>\<open>newID\<close> in two halves, between which other servers may run: reading the last id, and
  writing the next one. \<open>i\<close> is the variable \<^verbatim>\<open>id\<close> the rounds share.
\<close>

definition newIDRead :: "'k etcd \<Rightarrow> int64 \<Rightarrow> ('k, error, cmp \<times> int64) op" where
  "newIDRead E i =
     bindM (getValues E newIDPath False) (\<lambda>kvs.
       case kvs of
         None \<Rightarrow> ret (CmpCreateRevision0 newIDPath, i + 1)
       | Some kvs \<Rightarrow>
           (case ParseInt (snd (kvs ! 0)) of
              Inl err \<Rightarrow> fail err
            | Inr i \<Rightarrow> ret (CmpValue newIDPath (snd (kvs ! 0)), i + 1)))"

definition newIDWrite :: "'k etcd \<Rightarrow> cmp \<Rightarrow> int64 \<Rightarrow> ('k, error, unit) op" where
  "newIDWrite E c i = putValues E c [OpPut newIDPath (FormatInt i)]"

text \<open>\<open>n\<close> bounds the rounds of the loop, which has no bound of its own; \<open>sched\<close> is what others do.\<close>

fun newIDLoop :: "nat \<Rightarrow> 'k etcd \<Rightarrow> ('k \<Rightarrow> 'k) \<Rightarrow> int64 \<Rightarrow> ('k, error, int64) op" where
  "newIDLoop 0 E sched i = fail Diverges"
| "newIDLoop (Suc n) E sched i =
     bindM (newIDRead E i) (\<lambda>(c, i) k.
       case newIDWrite E c i (sched k) of
         (Inr _, k) \<Rightarrow> (Inr i, k)
       | (Inl err, k) \<Rightarrow> if err = errLostMaster then newIDLoop n E sched i k else (Inl err, k))"

definition newID :: "nat \<Rightarrow> 'k etcd \<Rightarrow> ('k \<Rightarrow> 'k) \<Rightarrow> ('k, error, int64) op" where
  "newID n E sched = newIDLoop n E sched 0"

section \<open>Decimal round trip\<close>

lemma digit_range: "d < 10 \<Longrightarrow> 0x30 \<le> digit d \<and> digit d \<le> 0x39 \<and> unat (digit d) - 48 = d"
proof -
  assume d: "d < 10"
  then have "unat (digit d) = 48 + d"
    by (simp add: digit_def unat_word_ariths unat_of_nat)
  with d show ?thesis by (simp add: word_le_nat_alt)
qed

lemma parseDigits_append:
  "parseDigits n (xs @ ys) = (case parseDigits n xs of None \<Rightarrow> None | Some m \<Rightarrow> parseDigits m ys)"
  by (induction xs arbitrary: n) auto

lemma parseDigits_dec: "parseDigits 0 (dec n) = Some n"
proof (induction n rule: less_induct)
  case (less n)
  show ?case
  proof (cases "n < 10")
    case True
    then show ?thesis using digit_range [of n] by (simp add: dec.simps [of n])
  next
    case False
    then have "parseDigits 0 (dec (n div 10)) = Some (n div 10)" by (intro less) simp
    moreover have "dec n = dec (n div 10) @ [digit (n mod 10)]" using False by (simp add: dec.simps [of n])
    ultimately show ?thesis using digit_range [of "n mod 10"]
      by (simp add: parseDigits_append)
  qed
qed

lemma hd_dec: "hd (dec n) \<noteq> 0x2d \<and> hd (dec n) \<noteq> 0x2b"
proof (induction n rule: less_induct)
  case (less n)
  show ?case
  proof (cases "n < 10")
    case True
    then show ?thesis using digit_range [of n] by (auto simp: dec.simps [of n] word_le_nat_alt)
  next
    case False
    then have "dec n = dec (n div 10) @ [digit (n mod 10)]" by (simp add: dec.simps [of n])
    with less [of "n div 10"] False show ?thesis by (simp)
  qed
qed

lemma ParseInt_FormatInt [simp]: "ParseInt (FormatInt i) = Inr i"
proof -
  have r: "- (2 ^ 63) \<le> sint i" "sint i < 2 ^ 63" using sint_ge [of i] sint_lt [of i] by simp_all
  show ?thesis
  proof (cases "sint i < 0")
    case True
    then show ?thesis using r parseDigits_dec [of "nat (- sint i)"]
      by (simp add: ParseInt_def FormatInt_def fmt_d_def sign_def Let_def abs_if)
  next
    case False
    then show ?thesis using r parseDigits_dec [of "nat (sint i)"] hd_dec [of "nat (sint i)"]
      by (simp add: ParseInt_def FormatInt_def fmt_d_def sign_def Let_def abs_if)
  qed
qed


lemma bytesToUint64_uint64ToBytes [simp]: "bytesToUint64 (uint64ToBytes v) = Inr v"
proof -
  have "length (EncodeUint64 [] v) = 8" by (simp add: EncodeUint64_def)
  then show ?thesis using DecodeUint64_Encode [of v "[]"] by (simp add: bytesToUint64_def uint64ToBytes_def)
qed

lemma FormatInt_inject [simp]: "FormatInt i = FormatInt j \<longleftrightarrow> i = j"
  by (metis ParseInt_FormatInt sum.inject(2))

section \<open>What etcd promises\<close>

definition holds :: "cmp \<Rightarrow> (bytes \<rightharpoonup> bytes) \<Rightarrow> bool" where
  "holds c m = (case c of CmpValue k v \<Rightarrow> m k = Some v | CmpCreateRevision0 k \<Rightarrow> m k = None)"

fun applyOps :: "eop list \<Rightarrow> (bytes \<rightharpoonup> bytes) \<Rightarrow> (bytes \<rightharpoonup> bytes)" where
  "applyOps [] m = m"
| "applyOps (OpPut k v # ops) m = applyOps ops (m(k \<mapsto> v))"

locale etcd_laws =
  fixes E :: "'k etcd" and view :: "'k \<Rightarrow> bytes \<rightharpoonup> bytes"
  assumes get_keeps: "view (snd (eGet E key pre k)) = view k"
    and get_value: "eGet E key False k = (Inr kvs, k') \<Longrightarrow>
      kvs = (case view k key of None \<Rightarrow> [] | Some v \<Rightarrow> [(key, v)])"
    and get_prefix: "eGet E key True k = (Inr kvs, k') \<Longrightarrow>
      distinct (map fst kvs) \<and> (\<forall>x v. (x, v) \<in> set kvs \<longleftrightarrow> prefix key x \<and> view k x = Some v)"
    and txn_done: "eTxn E c ops k = (Inr True, k') \<Longrightarrow> holds c (view k) \<and> view k' = applyOps ops (view k)"
    and txn_not: "eTxn E c ops k = (Inr False, k') \<Longrightarrow> \<not> holds c (view k) \<and> view k' = view k"
    and txn_error: "eTxn E c ops k = (Inl e, k') \<Longrightarrow>
      view k' = view k \<or> holds c (view k) \<and> view k' = applyOps ops (view k)"
begin

lemma getValues_keeps: "view (snd (getValues E key pre k)) = view k"
  using get_keeps [of key pre k] by (cases "eGet E key pre k"; cases "fst (eGet E key pre k)") (auto simp: getValues_def)

lemma getValues_value:
  assumes "getValues E key False k = (Inr kvs, k')"
  shows "view k' = view k \<and> kvs = map_option (\<lambda>v. [(key, v)]) (view k key)"
proof -
  obtain r k1 where g: "eGet E key False k = (r, k1)" by (cases "eGet E key False k")
  with assms get_keeps [of key False k] get_value [of key k] show ?thesis
    by (cases r; cases "view k key") (auto simp: getValues_def)
qed

lemma putValues_cases:
  assumes "putValues E c ops k = (r, k')"
  shows "case r of
      Inr _ \<Rightarrow> holds c (view k) \<and> view k' = applyOps ops (view k)
    | Inl e \<Rightarrow> if e = errLostMaster then \<not> holds c (view k) \<and> view k' = view k
               else view k' = view k \<or> holds c (view k) \<and> view k' = applyOps ops (view k)"
proof -
  obtain x k1 where t: "eTxn E c ops k = (x, k1)" by (cases "eTxn E c ops k")
  have "etcdError msg \<noteq> errLostMaster" for msg by (simp add: etcdError_def errLostMaster_def)
  with assms t show ?thesis
    using txn_done [of c ops k k1] txn_not [of c ops k k1] txn_error [of c ops k]
    by (cases x) (auto simp: putValues_def split: if_splits)
qed

end

section \<open>Runs of several allocators\<close>

text \<open>
  Any number of calls of \<^verbatim>\<open>newID\<close>, on any servers, interleave. \<open>idReads\<close> are the calls between the two
  halves of a round, \<open>idVar\<close> their variable \<^verbatim>\<open>id\<close>, \<open>issued\<close> the ids returned so far. Everything else may
  change other keys.
\<close>

record 'k idrun =
  idKv :: 'k
  idReads :: "nat \<rightharpoonup> cmp \<times> int64"
  idVar :: "nat \<Rightarrow> int64"
  issued :: "int64 list"

inductive idStep :: "'k etcd \<Rightarrow> ('k \<Rightarrow> bytes \<rightharpoonup> bytes) \<Rightarrow> 'k idrun \<Rightarrow> 'k idrun \<Rightarrow> bool"
  for E view where
  read: "idReads x a = None \<Longrightarrow> newIDRead E (idVar x a) (idKv x) = (Inr (c, i), k) \<Longrightarrow>
    idStep E view x (x\<lparr>idKv := k, idReads := (idReads x)(a \<mapsto> (c, i)), idVar := (idVar x)(a := i)\<rparr>)"
| read_fails: "idReads x a = None \<Longrightarrow> newIDRead E (idVar x a) (idKv x) = (Inl e, k) \<Longrightarrow>
    idStep E view x (x\<lparr>idKv := k, idVar := (idVar x)(a := 0)\<rparr>)"
| returns: "idReads x a = Some (c, i) \<Longrightarrow> newIDWrite E c i (idKv x) = (Inr (), k) \<Longrightarrow>
    idStep E view x (x\<lparr>idKv := k, idReads := (idReads x)(a := None), idVar := (idVar x)(a := 0),
      issued := issued x @ [i]\<rparr>)"
| retries: "idReads x a = Some (c, i) \<Longrightarrow> newIDWrite E c i (idKv x) = (Inl e, k) \<Longrightarrow>
    idStep E view x (x\<lparr>idKv := k, idReads := (idReads x)(a := None),
      idVar := (idVar x)(a := if e = errLostMaster then i else 0)\<rparr>)"
| others: "view k newIDPath = view (idKv x) newIDPath \<Longrightarrow> idStep E view x (x\<lparr>idKv := k\<rparr>)"

text \<open>The counter stands at \<open>N\<close>; every call in flight wants the successor of a value it has had.\<close>

definition counter :: "(bytes \<rightharpoonup> bytes) \<Rightarrow> int \<Rightarrow> bool" where
  "counter m N \<longleftrightarrow> m newIDPath = (if N = 0 then None else Some (FormatInt (word_of_int N)))"

definition wants :: "int \<Rightarrow> cmp \<Rightarrow> int64 \<Rightarrow> bool" where
  "wants n c i \<longleftrightarrow> (\<exists>M. 0 \<le> M \<and> M \<le> n \<and> i = word_of_int (M + 1) \<and>
     c = (if M = 0 then CmpCreateRevision0 newIDPath else CmpValue newIDPath (FormatInt (word_of_int M))))"

definition call_ok :: "int \<Rightarrow> (cmp \<times> int64) option \<Rightarrow> int64 \<Rightarrow> bool" where
  "call_ok N r v = (case r of None \<Rightarrow> N = 0 \<longrightarrow> v = 0 | Some (c, i) \<Rightarrow> wants N c i)"

definition id_inv :: "('k \<Rightarrow> bytes \<rightharpoonup> bytes) \<Rightarrow> int \<Rightarrow> 'k idrun \<Rightarrow> bool" where
  "id_inv view n x \<longleftrightarrow> (\<exists>N. 0 \<le> N \<and> N \<le> n \<and> counter (view (idKv x)) N \<and>
     sorted_wrt (\<lambda>i j. sint i < sint j) (issued x) \<and> (\<forall>i \<in> set (issued x). sint i \<le> N) \<and>
     (\<forall>a. call_ok N (idReads x a) (idVar x a)))"

lemma sint_of_int_small: "0 \<le> M \<Longrightarrow> M < 2 ^ 63 \<Longrightarrow> sint (word_of_int M :: int64) = M"
  by (simp add: sint_word_ariths signed_take_bit_int_eq_self signed_of_int)

lemma wants_mono: "wants N c i \<Longrightarrow> N \<le> N' \<Longrightarrow> wants N' c i"
proof -
  assume "wants N c i" "N \<le> N'"
  then obtain M where "0 \<le> M" "M \<le> N'" "i = word_of_int (M + 1)"
    "c = (if M = 0 then CmpCreateRevision0 newIDPath else CmpValue newIDPath (FormatInt (word_of_int M)))"
    by (auto simp: wants_def)
  then show ?thesis unfolding wants_def by blast
qed

lemma call_ok_mono: "0 \<le> N \<Longrightarrow> call_ok N r v \<Longrightarrow> call_ok (N + 1) r v"
  using wants_mono [of N _ _ "N + 1"] by (auto simp: call_ok_def split: option.splits)

lemma call_ok_simps [simp]: "call_ok N None v \<longleftrightarrow> (N = 0 \<longrightarrow> v = 0)" "call_ok N (Some (c, i)) v \<longleftrightarrow> wants N c i"
  by (simp_all add: call_ok_def)

lemma holds_wants:
  assumes "wants N c i" "counter m N" "0 \<le> N" "N < 2 ^ 63 - 1"
  shows "(holds c m \<longrightarrow> sint i = N + 1 \<and> counter (applyOps [OpPut newIDPath (FormatInt i)] m) (N + 1)) \<and>
    (\<not> holds c m \<longrightarrow> N \<noteq> 0)"
proof -
  obtain M where M: "0 \<le> M" "M \<le> N" "i = word_of_int (M + 1)"
    "c = (if M = 0 then CmpCreateRevision0 newIDPath else CmpValue newIDPath (FormatInt (word_of_int M)))"
    using assms(1) by (auto simp: wants_def)
  have inj: "(word_of_int M :: int64) = word_of_int N \<longleftrightarrow> M = N"
  proof
    assume "(word_of_int M :: int64) = word_of_int N"
    then have "sint (word_of_int M :: int64) = sint (word_of_int N :: int64)" by simp
    with sint_of_int_small [of M] sint_of_int_small [of N] M assms(3,4) show "M = N" by simp
  qed simp
  show ?thesis
  proof (cases "M = N")
    case True
    then have "sint i = N + 1" using sint_of_int_small [of "N + 1"] M assms(3,4) by simp
    with True M assms(2,3) show ?thesis by (auto simp: counter_def holds_def)
  next
    case False
    with M assms(2,3) inj show ?thesis by (auto simp: counter_def holds_def)
  qed
qed

context etcd_laws
begin

lemma newIDRead_wants:
  assumes "newIDRead E v k = (r, k')" "counter (view k) N" "0 \<le> N" "N < 2 ^ 63 - 1" "N = 0 \<Longrightarrow> v = 0"
  shows "view k' = view k \<and> (\<forall>c i. r = Inr (c, i) \<longrightarrow> wants N c i)"
proof -
  obtain x k1 where g: "getValues E newIDPath False k = (x, k1)" by (cases "getValues E newIDPath False k")
  have v: "view k1 = view k" using getValues_keeps [of newIDPath False k] g by simp
  show ?thesis
  proof (cases x)
    case (Inl e)
    then show ?thesis using assms(1) g v by (auto simp: newIDRead_def)
  next
    case (Inr kvs)
    with getValues_value [of newIDPath k kvs k1] g
    have kvs: "kvs = map_option (\<lambda>v. [(newIDPath, v)]) (view k newIDPath)" by simp
    show ?thesis
    proof (cases "N = 0")
      case True
      with assms g Inr kvs v show ?thesis by (auto simp: newIDRead_def counter_def wants_def)
    next
      case False
      with assms g Inr kvs v show ?thesis
        by (auto simp: newIDRead_def counter_def wants_def intro!: exI [of _ N])
    qed
  qed
qed

lemma newIDWrite_counter:
  assumes "newIDWrite E c i k = (r, k')" "wants N c i" "counter (view k) N" "0 \<le> N" "N < 2 ^ 63 - 1"
  shows "case r of
      Inr _ \<Rightarrow> sint i = N + 1 \<and> counter (view k') (N + 1)
    | Inl e \<Rightarrow> counter (view k') N \<and> (e = errLostMaster \<longrightarrow> N \<noteq> 0) \<or> e \<noteq> errLostMaster \<and> counter (view k') (N + 1)"
proof -
  from assms(1) have p: "putValues E c [OpPut newIDPath (FormatInt i)] k = (r, k')" by (simp add: newIDWrite_def)
  show ?thesis
    using putValues_cases [OF p] holds_wants [OF assms(2-5)] assms(3)
    by (cases r) (auto split: if_splits)
qed

lemma id_invI:
  assumes "0 \<le> N" "N \<le> n" "counter (view (idKv y)) N" "sorted_wrt (\<lambda>i j. sint i < sint j) (issued y)"
    "\<And>i. i \<in> set (issued y) \<Longrightarrow> sint i \<le> N" "\<And>a. call_ok N (idReads y a) (idVar y a)"
  shows "id_inv view n y"
  unfolding id_inv_def using assms by blast

lemma id_inv_step:
  assumes "idStep E view x y" "id_inv view n x" "n < 2 ^ 63 - 1"
  shows "id_inv view (n + 1) y"
proof -
  from assms(2) obtain N where N: "0 \<le> N" "N \<le> n" "counter (view (idKv x)) N"
    "sorted_wrt (\<lambda>i j. sint i < sint j) (issued x)" "\<And>i. i \<in> set (issued x) \<Longrightarrow> sint i \<le> N"
    "\<And>a. call_ok N (idReads x a) (idVar x a)"
    unfolding id_inv_def by blast
  have N63: "N < 2 ^ 63 - 1" using N(2) assms(3) by simp
  have later: "call_ok (N + 1) (idReads x a) (idVar x a)" for a by (rule call_ok_mono [OF N(1) N(6)])
  have same: "id_inv view (n + 1) y" if "idKv y = k" "issued y = issued x" "counter (view k) N"
    "\<And>b. call_ok N (idReads y b) (idVar y b)" for k
    by (rule id_invI [of N]) (use N that in auto)
  have up: "id_inv view (n + 1) y" if "idKv y = k" "issued y = issued x" "counter (view k) (N + 1)"
    "\<And>b. call_ok (N + 1) (idReads y b) (idVar y b)" for k
    by (rule id_invI [of "N + 1"]) (use N that in force)+
  show ?thesis using assms(1)
  proof cases
    case (read a c i k)
    have "view k = view (idKv x) \<and> wants N c i"
      using newIDRead_wants [OF read(3) N(3) N(1) N63] N(6) [of a] read(2) by auto
    then show ?thesis by (intro same [of k]) (use read(1) N in auto)
  next
    case (read_fails a e k)
    have "view k = view (idKv x)"
      using newIDRead_wants [OF read_fails(3) N(3) N(1) N63] N(6) [of a] read_fails(2) by auto
    then show ?thesis by (intro same [of k]) (use read_fails N in auto)
  next
    case (returns a c i k)
    have w: "wants N c i" using N(6) [of a] returns(2) by simp
    have i: "sint i = N + 1" "counter (view k) (N + 1)"
      using newIDWrite_counter [OF returns(3) w N(3) N(1) N63] by simp_all
    have "sint j < sint i" if "j \<in> set (issued x)" for j using N(5) [OF that] i(1) by simp
    with i N(1,2,4) show ?thesis unfolding returns(1)
      by (intro id_invI [of "N + 1"]) (use later N(5) in \<open>force simp: sorted_wrt_append\<close>)+
  next
    case (retries a c i e k)
    have w: "wants N c i" using N(6) [of a] retries(2) by simp
    from newIDWrite_counter [OF retries(3) w N(3) N(1) N63]
    consider "counter (view k) N" "e = errLostMaster \<longrightarrow> N \<noteq> 0" | "counter (view k) (N + 1)" by auto
    then show ?thesis
    proof cases
      case 1
      then show ?thesis by (intro same [of k]) (use retries(1) N in auto)
    next
      case 2
      then show ?thesis by (intro up [of k]) (use retries(1) later N(1) in auto)
    qed
  next
    case (others k)
    then show ?thesis by (intro same [of k]) (use N in \<open>auto simp: counter_def\<close>)
  qed
qed

lemma id_inv_run:
  assumes "(idStep E view ^^ n) x y" "id_inv view 0 x" "int n < 2 ^ 63 - 1"
  shows "id_inv view (int n) y"
  using assms(1,3)
proof (induction n arbitrary: y)
  case (Suc n)
  then obtain z where z: "(idStep E view ^^ n) x z" "idStep E view z y" by auto
  have "id_inv view (int n) z" using Suc.IH [OF z(1)] Suc.prems(2) by simp
  then have "id_inv view (int n + 1) y" using Suc.prems(2) by (intro id_inv_step [OF z(2)]) simp_all
  then show ?case by (simp add: add.commute)
qed (use assms(2) in simp)

end

section \<open>A reference etcd\<close>

text \<open>The promises have a model, for the concrete evaluations: association lists that never fail.\<close>

definition ref_etcd :: "(bytes \<times> bytes) list etcd" where
  "ref_etcd = \<lparr>
     eGet = (\<lambda>key pre k. (Inr (if pre then map (\<lambda>x. (x, the (map_of k x))) (filter (prefix key) (remdups (map fst k)))
        else case map_of k key of None \<Rightarrow> [] | Some v \<Rightarrow> [(key, v)]), k)),
     eTxn = (\<lambda>c ops k. if holds c (map_of k) then (Inr True, rev (map (\<lambda>op. case op of OpPut x v \<Rightarrow> (x, v)) ops) @ k)
        else (Inr False, k))\<rparr>"

lemma applyOps_map_of:
  "applyOps ops (map_of k) = map_of (rev (map (\<lambda>op. case op of OpPut x v \<Rightarrow> (x, v)) ops) @ k)"
proof (induction ops arbitrary: k)
  case (Cons op ops)
  obtain x v where op: "op = OpPut x v" by (cases op)
  with Cons [of "(x, v) # k"] show ?case by (simp add: fun_upd_def)
qed simp

interpretation ref_etcd: etcd_laws ref_etcd map_of
proof (unfold_locales, goal_cases)
  case (3 key k kvs k')
  have "map_of k x = Some v \<longleftrightarrow> x \<in> set (map fst k) \<and> v = the (map_of k x)" for x v
    by (metis domI dom_map_of_conv_image_fst domIff image_set option.collapse option.sel)
  with 3 show ?case by (auto simp: ref_etcd_def comp_def image_iff) force
qed (auto simp: ref_etcd_def applyOps_map_of split: if_splits)

section \<open>Properties\<close>

text \<open>
  C18. Ids are never given out twice. However the calls of the id allocator on any number of servers
  interleave, and whichever of their writes time out, the ids returned strictly increase; the calls
  start on an empty counter and number fewer than the positive 64-bit integers.
\<close>

theorem newID_increasing:
  assumes "etcd_laws E view" and "view k newIDPath = None" and "int n < 2 ^ 63 - 1"
    and "(idStep E view ^^ n) \<lparr>idKv = k, idReads = Map.empty, idVar = (\<lambda>_. 0), issued = []\<rparr> x"
  shows "sorted_wrt (\<lambda>i j. sint i < sint j) (issued x)"
proof -
  have "id_inv view 0 \<lparr>idKv = k, idReads = Map.empty, idVar = (\<lambda>_. 0), issued = []\<rparr>"
    using assms(2) by (simp add: id_inv_def counter_def)
  from etcd_laws.id_inv_run [OF assms(1,4) this assms(3)] show ?thesis by (auto simp: id_inv_def)
qed


theorem newID_increasing_witness:
  "\<exists>x. (idStep ref_etcd map_of ^^ 4) \<lparr>idKv = [], idReads = Map.empty, idVar = (\<lambda>_. 0), issued = []\<rparr> x \<and>
     issued x = [1, 2] \<and> sorted_wrt (\<lambda>i j. sint i < sint j) (issued x)"
proof -
  let ?x = "\<lparr>idKv = [] :: (bytes \<times> bytes) list, idReads = Map.empty, idVar = (\<lambda>_. 0), issued = []\<rparr>"
  let ?c = "CmpValue newIDPath (FormatInt 1)"
  let ?k1 = "[(newIDPath, FormatInt 1)]" and ?k2 = "[(newIDPath, FormatInt 2), (newIDPath, FormatInt 1)]"
  note defs = newIDRead_def newIDWrite_def getValues_def putValues_def ref_etcd_def holds_def
  have 1: "newIDRead ref_etcd 0 [] = (Inr (CmpCreateRevision0 newIDPath, 1), [])"
    "newIDWrite ref_etcd (CmpCreateRevision0 newIDPath) 1 [] = (Inr (), ?k1)"
    "newIDRead ref_etcd 0 ?k1 = (Inr (?c, 2), ?k1)" "newIDWrite ref_etcd ?c 2 ?k1 = (Inr (), ?k2)"
    by (simp_all add: defs)
  let ?x1 = "?x\<lparr>idReads := [0 \<mapsto> (CmpCreateRevision0 newIDPath, 1)], idVar := (\<lambda>_. 0)(0 := 1)\<rparr>"
  let ?x2 = "?x\<lparr>idKv := ?k1, idReads := Map.empty, idVar := (\<lambda>_. 0)(0 := 0), issued := [1]\<rparr>"
  let ?x3 = "?x2\<lparr>idReads := [0 \<mapsto> (?c, 2)], idVar := (\<lambda>_. 0)(0 := 2)\<rparr>"
  let ?x4 = "?x2\<lparr>idKv := ?k2, issued := [1, 2]\<rparr>"
  have s1: "idStep ref_etcd map_of ?x ?x1" using idStep.read [of ?x 0 ref_etcd _ _ _ map_of] 1(1) by simp
  have s2: "idStep ref_etcd map_of ?x1 ?x2" using idStep.returns [of ?x1 0 _ _ ref_etcd _ map_of] 1(2) by simp
  have s3: "idStep ref_etcd map_of ?x2 ?x3" using idStep.read [of ?x2 0 ref_etcd _ _ _ map_of] 1(3) by simp
  have s4: "idStep ref_etcd map_of ?x3 ?x4" using idStep.returns [of ?x3 0 _ _ ref_etcd _ map_of] 1(4) by simp
  have four: "4 = Suc (Suc (Suc (Suc 0)))" by simp
  have "(idStep ref_etcd map_of ^^ 4) ?x ?x4"
    unfolding four
    by (rule relpowp_Suc_I, rule relpowp_Suc_I, rule relpowp_Suc_I, rule relpowp_Suc_I, rule relpowp_0_I,
        rule s1, rule s2, rule s3, rule s4)
  with newID_increasing [OF ref_etcd.etcd_laws_axioms _ _ this] show ?thesis
    by (intro exI [of _ ?x4]) simp
qed

end
