(* ===== verification/Tso.thy ===== *)
theory Tso
  imports Etcd
begin

text \<open>
  The timestamp oracle of the placement driver, \<^verbatim>\<open>src/pd/ts.go\<close>, with the election of the master in
  \<^verbatim>\<open>src/pd/master.go\<close>. A \<^verbatim>\<open>time.Time\<close> is its number of nanoseconds; readings of the clock are arguments.
  The \<^verbatim>\<open>atomicObject\<close>s of a server are a heap, since a request may hold on to one that has been replaced.
  Proved: no timestamp is ever given out twice, by any of the servers.
\<close>

section \<open>Definitions\<close>

subsection \<open>State\<close>

record atomicObject =
  wallTime :: int
  logical :: int32

record tso =
  masterValue :: bytes
  isMaster :: bool
  isReady :: bool
  objects :: "atomicObject list"
  ts :: "nat option"
  lastSavedTime :: int

type_synonym 'k pd = "tso \<times> 'k"

definition onEtcd :: "('k, error, 'a) op \<Rightarrow> ('k pd, error, 'a) op" where
  "onEtcd m s = (case s of (p, k) \<Rightarrow> case m k of (x, k') \<Rightarrow> (x, (p, k')))"

definition masterPath :: bytes where "masterPath = ETCDRootPath @ ascii ''/MasterHost''"
definition timestampPath :: bytes where "timestampPath = ETCDRootPath @ ascii ''/Timestamp''"

definition maxRetryNum :: nat where "maxRetryNum = 100"
definition maxLogical :: int where "maxLogical = 2 ^ 18"

text \<open>Milliseconds of a duration in nanoseconds; Go's division truncates.\<close>

definition ms :: "int \<Rightarrow> int" where
  "ms d = (if d < 0 then - ((- d) div 1000000) else d div 1000000)"

subsection \<open>The master\<close>

definition setIsMaster :: "bool \<Rightarrow> tso \<Rightarrow> tso" where "setIsMaster b p = p\<lparr>isMaster := b\<rparr>"
definition checkIsMaster :: "tso \<Rightarrow> bool" where "checkIsMaster p = isMaster p"
definition setIsReady :: "bool \<Rightarrow> tso \<Rightarrow> tso" where "setIsReady b p = p\<lparr>isReady := b\<rparr>"
definition checkIsReady :: "tso \<Rightarrow> bool" where "checkIsReady p = isReady p"

definition getMaster :: "'k etcd \<Rightarrow> ('k pd, error, bytes) op" where
  "getMaster E =
     bindM (onEtcd (getValues E masterPath False)) (\<lambda>kvs.
       case kvs of None \<Rightarrow> ret [] | Some kvs \<Rightarrow> ret (snd (kvs ! 0)))"

definition newMasterCmp :: "tso \<Rightarrow> cmp" where
  "newMasterCmp p = CmpValue masterPath (masterValue p)"

text \<open>The first part of \<^verbatim>\<open>campaignAndRunMaster\<close>, once its lease is granted.\<close>

definition campaign :: "'k etcd \<Rightarrow> bytes \<Rightarrow> ('k pd, error, unit) op" where
  "campaign E master s =
     (let c = (if master = masterValue (fst s) then newMasterCmp (fst s) else CmpCreateRevision0 masterPath)
      in bindM (onEtcd (putValues E c [OpPut masterPath (masterValue (fst s))])) (\<lambda>_ (p, k).
           (Inr (), (setIsMaster True p, k))) s)"

text \<open>Its deferred calls, whichever way it ends.\<close>

definition resign :: "tso \<Rightarrow> tso" where
  "resign p = setIsMaster False (setIsReady False p)"

subsection \<open>Timestamps\<close>

definition loadTimestampFromDB :: "'k etcd \<Rightarrow> ('k pd, error, int) op" where
  "loadTimestampFromDB E =
     bindM (onEtcd (getValues E timestampPath False)) (\<lambda>kvs.
       case kvs of
         None \<Rightarrow> ret 0
       | Some kvs \<Rightarrow> (case bytesToUint64 (snd (kvs ! 0)) of Inl err \<Rightarrow> fail err | Inr t \<Rightarrow> ret (sint t)))"

definition saveTimestampToDB :: "'k etcd \<Rightarrow> int \<Rightarrow> ('k pd, error, unit) op" where
  "saveTimestampToDB E now s =
     bindM (onEtcd (putValues E (newMasterCmp (fst s)) [OpPut timestampPath (uint64ToBytes (word_of_int now))]))
       (\<lambda>_ (p, k). (Inr (), (p\<lparr>lastSavedTime := now\<rparr>, k))) s"

text \<open>\<^verbatim>\<open>s.ts.Store(\<dots>)\<close> of a new object.\<close>

definition storeObject :: "int \<Rightarrow> tso \<Rightarrow> tso" where
  "storeObject now p = p\<lparr>objects := objects p @ [\<lparr>wallTime = now, logical = 0\<rparr>], ts := Some (length (objects p))\<rparr>"

text \<open>
  The loop of \<^verbatim>\<open>loadTimestamp\<close>, from the \<open>j\<close>-th reading of the clock on; it sleeps until the last saved
  time is old enough, hence the fuel. Then the part after it.
\<close>

definition clockOk :: "int \<Rightarrow> int \<Rightarrow> int \<Rightarrow> bool" where
  "clockOk interval lastSaved now \<longleftrightarrow> \<not> ms (now - lastSaved) \<le> 0 \<and> \<not> 2 * interval - ms (now - lastSaved) > 0"

fun awaitClock :: "nat \<Rightarrow> int \<Rightarrow> int \<Rightarrow> (nat \<Rightarrow> int) \<Rightarrow> nat \<Rightarrow> error + int" where
  "awaitClock 0 interval lastSaved clock j = Inl Diverges"
| "awaitClock (Suc n) interval lastSaved clock j =
     (if ms (clock j - lastSaved) \<le> 0 then Inl (Errorf ''now <= last saved time'')
      else if 2 * interval - ms (clock j - lastSaved) > 0 then awaitClock n interval lastSaved clock (j + 1)
      else Inr (clock j))"

definition startClock :: "'k etcd \<Rightarrow> int \<Rightarrow> ('k pd, error, unit) op" where
  "startClock E now =
     bindM (saveTimestampToDB E now) (\<lambda>_ (p, k). (Inr (), (storeObject now p, k)))"

definition loadTimestamp ::
    "nat \<Rightarrow> 'k etcd \<Rightarrow> ('k pd \<Rightarrow> 'k pd) \<Rightarrow> int \<Rightarrow> (nat \<Rightarrow> int) \<Rightarrow> ('k pd, error, unit) op" where
  "loadTimestamp n E sched interval clock =
     bindM (loadTimestampFromDB E) (\<lambda>lastSaved s.
       case awaitClock n interval lastSaved clock 0 of
         Inl err \<Rightarrow> (Inl err, sched s)
       | Inr now \<Rightarrow> startClock E now (sched s))"

text \<open>What the ticker does; a server without an object fails the type assertion.\<close>

definition saveTimestamp :: "'k etcd \<Rightarrow> int \<Rightarrow> int \<Rightarrow> ('k pd, error, unit) op" where
  "saveTimestamp E interval now s =
     (case ts (fst s) of
        None \<Rightarrow> (Inl (Panic ''interface conversion''), s)
      | Some a \<Rightarrow>
          if ms (now - wallTime (objects (fst s) ! a)) \<le> 0 then (Inr (), s)
          else bindM (if ms (now - lastSavedTime (fst s)) > interval then saveTimestampToDB E now else ret ())
                 (\<lambda>_ (p, k). (Inr (), (storeObject now p, k))) s)"

text \<open>\<^verbatim>\<open>atomic.AddInt32\<close> on an object and the timestamp made from it.\<close>

definition nextLogical :: "nat \<Rightarrow> tso \<Rightarrow> Timestamp \<times> tso" where
  "nextLogical a p =
     (let ob = objects p ! a; l = logical ob + 1
      in (\<lparr>WallTime = word_of_int (ms (wallTime ob)), Logical = l\<rparr>, p\<lparr>objects := (objects p)[a := ob\<lparr>logical := l\<rparr>]\<rparr>))"

text \<open>
  \<^verbatim>\<open>getTimestamp\<close>; \<open>sched\<close> is what happens while it sleeps and between reading the pointer and the
  increment.
\<close>

fun getTimestampLoop :: "nat \<Rightarrow> (tso \<Rightarrow> tso) \<Rightarrow> (tso, error, Timestamp) op" where
  "getTimestampLoop 0 sched p = (Inl (Errorf ''get timestamp failed, please try again''), p)"
| "getTimestampLoop (Suc n) sched p =
     (case ts p of
        None \<Rightarrow> getTimestampLoop n sched (sched p)
      | Some a \<Rightarrow>
          (case nextLogical a (sched p) of (t, p') \<Rightarrow>
             if sint (Logical t) \<ge> maxLogical then getTimestampLoop n sched p'
             else (Inr t, p')))"

definition getTimestamp :: "(tso \<Rightarrow> tso) \<Rightarrow> (tso, error, Timestamp) op" where
  "getTimestamp sched = getTimestampLoop maxRetryNum sched"

section \<open>Runs of several servers\<close>

text \<open>
  Where a server stands in \<^verbatim>\<open>masterLoop\<close>: outside, after a successful campaign, after reading the last
  saved time, or in the loop that serves.
\<close>

datatype phase = Idle | Campaigned | Loaded int | Serving

text \<open>\<open>stamps\<close> are the timestamps given out so far, by any server.\<close>

record 'k run =
  kv :: 'k
  server :: "nat \<Rightarrow> tso"
  phase :: "nat \<Rightarrow> phase"
  stamps :: "Timestamp list"

text \<open>A clock reading that \<^verbatim>\<open>UnixNano\<close> can represent.\<close>

definition valid_clock :: "int \<Rightarrow> bool" where
  "valid_clock now \<longleftrightarrow> 0 \<le> now \<and> now < 2 ^ 63"

definition upd :: "nat \<Rightarrow> tso \<Rightarrow> 'k \<Rightarrow> phase \<Rightarrow> 'k run \<Rightarrow> 'k run" where
  "upd a p k ph x = x\<lparr>kv := k, server := (server x)(a := p), phase := (phase x)(a := ph)\<rparr>"

text \<open>
  Servers campaign, load the timestamp, serve and resign in any interleaving, with any readings of
  their clocks; etcd drops the master key when a lease ends; a server may crash and start again with an
  empty memory. A request increments any object of a server, also one that has been replaced, and also
  on a server that is no longer the master.
\<close>

inductive tsoStep :: "'k etcd \<Rightarrow> ('k \<Rightarrow> bytes \<rightharpoonup> bytes) \<Rightarrow> int \<Rightarrow> 'k run \<Rightarrow> 'k run \<Rightarrow> bool"
  for E view interval where
  campaign: "phase x a = Idle \<Longrightarrow> campaign E master (server x a, kv x) = (r, (p, k)) \<Longrightarrow>
    tsoStep E view interval x (upd a p k (case r of Inl _ \<Rightarrow> Idle | Inr _ \<Rightarrow> Campaigned) x)"
| load: "phase x a = Campaigned \<Longrightarrow> loadTimestampFromDB E (server x a, kv x) = (r, (p, k)) \<Longrightarrow>
    tsoStep E view interval x (upd a p k (case r of Inl _ \<Rightarrow> Idle | Inr lastSaved \<Rightarrow> Loaded lastSaved) x)"
| start: "phase x a = Loaded lastSaved \<Longrightarrow> valid_clock now \<Longrightarrow> clockOk interval lastSaved now \<Longrightarrow>
    startClock E now (server x a, kv x) = (r, (p, k)) \<Longrightarrow>
    tsoStep E view interval x (upd a p k (case r of Inl _ \<Rightarrow> Idle | Inr _ \<Rightarrow> Serving) x)"
| tick: "phase x a = Serving \<Longrightarrow> valid_clock now \<Longrightarrow>
    saveTimestamp E interval now (server x a, kv x) = (r, (p, k)) \<Longrightarrow>
    tsoStep E view interval x (upd a p k (case r of Inl _ \<Rightarrow> Idle | Inr _ \<Rightarrow> Serving) x)"
| resign: "tsoStep E view interval x (upd a (resign (server x a)) (kv x) Idle x)"
| crash: "masterValue p = masterValue (server x a) \<Longrightarrow> objects p = [] \<Longrightarrow> ts p = None \<Longrightarrow>
    tsoStep E view interval x (upd a p (kv x) Idle x)"
| issue: "b < length (objects (server x a)) \<Longrightarrow> nextLogical b (server x a) = (t, p) \<Longrightarrow>
    tsoStep E view interval x (x\<lparr>server := (server x)(a := p),
      stamps := (if sint (Logical t) \<ge> maxLogical then stamps x else stamps x @ [t])\<rparr>)"
| expire: "view k = (view (kv x))(masterPath := None) \<Longrightarrow> tsoStep E view interval x (x\<lparr>kv := k\<rparr>)"
| others: "view k masterPath = view (kv x) masterPath \<Longrightarrow> view k timestampPath = view (kv x) timestampPath \<Longrightarrow>
    tsoStep E view interval x (x\<lparr>kv := k\<rparr>)"

section \<open>The invariant\<close>

text \<open>The time saved in etcd, 0 without one.\<close>

definition saved :: "(bytes \<rightharpoonup> bytes) \<Rightarrow> int" where
  "saved m = (case m timestampPath of None \<Rightarrow> 0 | Some b \<Rightarrow> (case bytesToUint64 b of Inl _ \<Rightarrow> 0 | Inr t \<Rightarrow> sint t))"

definition well_saved :: "(bytes \<rightharpoonup> bytes) \<Rightarrow> bool" where
  "well_saved m \<longleftrightarrow> (case m timestampPath of None \<Rightarrow> True | Some b \<Rightarrow> \<exists>t. valid_clock t \<and> b = uint64ToBytes (word_of_int t))"

text \<open>The wall time a serving server hands out.\<close>

definition current :: "tso \<Rightarrow> int" where
  "current p = wallTime (objects p ! the (ts p))"

text \<open>
  \<open>W\<close> are the wall times of all objects ever made, distinct in milliseconds. They stay below the saved
  time plus the interval. A serving server has none between its own current one and twice the interval
  after its last save, where later masters begin; the server that holds the master key is ahead of all.
\<close>

definition holder :: "(bytes \<rightharpoonup> bytes) \<Rightarrow> tso \<Rightarrow> bool" where
  "holder m p \<longleftrightarrow> m masterPath = Some (masterValue p)"

definition serving_ok :: "int \<Rightarrow> int set \<Rightarrow> (bytes \<rightharpoonup> bytes) \<Rightarrow> tso \<Rightarrow> bool" where
  "serving_ok I W m p \<longleftrightarrow>
     (\<exists>a. ts p = Some a \<and> a < length (objects p)) \<and> current p \<in> W \<and>
     lastSavedTime p \<le> saved m \<and> current p < lastSavedTime p + (I + 1) * 1000000 \<and>
     (\<forall>w \<in> W. ms w \<le> ms (current p) \<or> lastSavedTime p + 2 * I * 1000000 \<le> w) \<and>
     (holder m p \<longrightarrow> lastSavedTime p = saved m \<and> (\<forall>w \<in> W. ms w \<le> ms (current p)))"

definition stamped :: "int set \<Rightarrow> (nat \<Rightarrow> atomicObject list) \<Rightarrow> Timestamp list \<Rightarrow> bool" where
  "stamped W obs st \<longleftrightarrow>
     distinct st \<and> (\<forall>t \<in> set st. \<exists>w \<in> W. WallTime t = word_of_int (ms w)) \<and>
     (\<forall>a i. i < length (obs a) \<longrightarrow> wallTime (obs a ! i) \<in> W \<and>
        (\<forall>t \<in> set st. WallTime t = word_of_int (ms (wallTime (obs a ! i))) \<longrightarrow>
           sint (Logical t) \<le> sint (logical (obs a ! i)))) \<and>
     (\<forall>a i b j. i < length (obs a) \<and> j < length (obs b) \<and> (a, i) \<noteq> (b, j) \<longrightarrow>
        ms (wallTime (obs a ! i)) \<noteq> ms (wallTime (obs b ! j)))"

definition core :: "int \<Rightarrow> int \<Rightarrow> int set \<Rightarrow> (bytes \<rightharpoonup> bytes) \<Rightarrow> (nat \<Rightarrow> tso) \<Rightarrow> (nat \<Rightarrow> phase) \<Rightarrow> Timestamp list \<Rightarrow> bool" where
  "core I n W m srv ph st \<longleftrightarrow>
     (\<forall>w \<in> W. valid_clock w \<and> w < saved m + (I + 1) * 1000000) \<and> well_saved m \<and>
     stamped W (objects \<circ> srv) st \<and>
     (\<forall>a. \<forall>ob \<in> set (objects (srv a)). 0 \<le> sint (logical ob) \<and> sint (logical ob) \<le> n) \<and>
     (\<forall>a. ph a = Serving \<longrightarrow> serving_ok I W m (srv a)) \<and>
     (\<forall>a L. ph a = Loaded L \<and> holder m (srv a) \<longrightarrow> L = saved m) \<and>
     (\<forall>a b. a \<noteq> b \<longrightarrow> masterValue (srv a) \<noteq> masterValue (srv b))"

definition tso_inv :: "('k \<Rightarrow> bytes \<rightharpoonup> bytes) \<Rightarrow> int \<Rightarrow> int \<Rightarrow> 'k run \<Rightarrow> bool" where
  "tso_inv view I n x \<longleftrightarrow> (\<exists>W. core I n W (view (kv x)) (server x) (phase x) (stamps x))"

lemma ms_mono: "v + 1000000 \<le> w \<Longrightarrow> 0 \<le> v \<Longrightarrow> ms v < ms w"
  by (simp add: ms_def)

lemma ms_le: "v \<le> w \<Longrightarrow> 0 \<le> v \<Longrightarrow> ms v \<le> ms w"
  by (simp add: ms_def zdiv_mono1)

lemma ms_pos: "0 < ms d \<Longrightarrow> 1000000 \<le> d"
  by (auto simp: ms_def split: if_splits)

lemma ms_above: "c \<le> ms d \<Longrightarrow> 0 < c \<Longrightarrow> c * 1000000 \<le> d"
  by (auto simp: ms_def split: if_splits)

lemma ms_below: "ms d \<le> c \<Longrightarrow> 0 \<le> c \<Longrightarrow> d < (c + 1) * 1000000"
  by (auto simp: ms_def split: if_splits)

lemma ms_word_inject:
  assumes "valid_clock v" "valid_clock w" "(word_of_int (ms v) :: int64) = word_of_int (ms w)"
  shows "ms v = ms w"
proof -
  have "0 \<le> ms u \<and> ms u < 2 ^ 63" if "valid_clock u" for u
    using that by (auto simp: valid_clock_def ms_def)
  with assms sint_of_int_small [of "ms v"] sint_of_int_small [of "ms w"] show ?thesis by metis
qed

lemma saved_put: "valid_clock now \<Longrightarrow> saved (m(timestampPath \<mapsto> uint64ToBytes (word_of_int now))) = now"
  by (simp add: saved_def valid_clock_def sint_of_int_small)

lemma well_saved_put: "valid_clock now \<Longrightarrow> well_saved (m(timestampPath \<mapsto> uint64ToBytes (word_of_int now)))"
  by (auto simp: well_saved_def)

lemma path_distinct [simp]: "masterPath \<noteq> timestampPath" "timestampPath \<noteq> masterPath"
  by (simp_all add: masterPath_def timestampPath_def ascii_def)

lemma stamped_empty: "stamped W obs st \<Longrightarrow> stamped W (obs(a := [])) st"
  unfolding stamped_def by (elim conjE, intro conjI) (simp_all split: if_splits)

lemma stamped_new:
  assumes "stamped W obs st" "\<forall>w \<in> W. ms w \<noteq> ms now \<and> valid_clock w" "valid_clock now"
  shows "stamped (insert now W) (obs(a := obs a @ [\<lparr>wallTime = now, logical = 0\<rparr>])) st"
proof -
  let ?o = "obs(a := obs a @ [\<lparr>wallTime = now, logical = 0\<rparr>])"
  have old: "?o b ! i = obs b ! i \<and> i < length (obs b) \<or>
      b = a \<and> i = length (obs a) \<and> ?o b ! i = \<lparr>wallTime = now, logical = 0\<rparr>"
    if "i < length (?o b)" for b i
    using that by (auto simp: nth_append less_Suc_eq split: if_splits)
  have inW: "wallTime (obs b ! i) \<in> W" if "i < length (obs b)" for b i
    using assms(1) that by (simp add: stamped_def)
  have new: "\<not> WallTime t = word_of_int (ms now)" if t: "t \<in> set st" for t
  proof
    assume "WallTime t = word_of_int (ms now)"
    moreover obtain w where "w \<in> W" "WallTime t = word_of_int (ms w)"
      using assms(1) t by (auto simp: stamped_def)
    ultimately show False using ms_word_inject [of w now] assms(2,3) by auto
  qed
  show ?thesis unfolding stamped_def
  proof (intro conjI allI impI ballI)
    show "distinct st" using assms(1) by (simp add: stamped_def)
    show "\<exists>w \<in> insert now W. WallTime t = word_of_int (ms w)" if "t \<in> set st" for t
      using assms(1) that by (auto simp: stamped_def)
    show "wallTime (?o b ! i) \<in> insert now W" if "i < length (?o b)" for b i
      using old [OF that] inW by auto
    show "sint (Logical t) \<le> sint (logical (?o b ! i))"
      if "i < length (?o b)" "t \<in> set st" "WallTime t = word_of_int (ms (wallTime (?o b ! i)))" for b i t
      using old [OF that(1)] new [OF that(2)] that(2,3) assms(1) by (auto simp: stamped_def)
    show "ms (wallTime (?o b ! i)) \<noteq> ms (wallTime (?o c ! j))"
      if "i < length (?o b) \<and> j < length (?o c) \<and> (b, i) \<noteq> (c, j)" for b i c j
    proof -
      from that old [of i b] old [of j c]
      consider "?o b ! i = obs b ! i" "i < length (obs b)" "?o c ! j = obs c ! j" "j < length (obs c)"
        | "?o b ! i = obs b ! i" "i < length (obs b)" "wallTime (?o c ! j) = now"
        | "wallTime (?o b ! i) = now" "?o c ! j = obs c ! j" "j < length (obs c)" by force
      then show ?thesis
      proof cases
        case 1
        then show ?thesis using that assms(1) by (simp add: stamped_def)
      qed (use assms(2) inW in metis)+
    qed
  qed
qed

lemma stamped_issue:
  assumes "stamped W obs st" "i < length (obs a)" "\<forall>w \<in> W. valid_clock w"
    "sint (logical (obs a ! i) + 1) = sint (logical (obs a ! i)) + 1"
    "t = \<lparr>WallTime = word_of_int (ms (wallTime (obs a ! i))), Logical = logical (obs a ! i) + 1\<rparr>"
    "st' = st \<or> st' = st @ [t]"
  shows "stamped W (obs(a := (obs a)[i := (obs a ! i)\<lparr>logical := logical (obs a ! i) + 1\<rparr>])) st'"
proof -
  let ?o = "obs(a := (obs a)[i := (obs a ! i)\<lparr>logical := logical (obs a ! i) + 1\<rparr>])"
  have len: "length (?o b) = length (obs b)" for b by simp
  have wall: "wallTime (?o b ! j) = wallTime (obs b ! j)" if "j < length (obs b)" for b j
    using that by (cases "b = a"; cases "j = i") auto
  have log: "sint (logical (obs b ! j)) \<le> sint (logical (?o b ! j))" if "j < length (obs b)" for b j
    using that assms(4) by (cases "b = a"; cases "j = i") auto
  have inW: "wallTime (obs b ! j) \<in> W" if "j < length (obs b)" for b j
    using assms(1) that by (simp add: stamped_def)
  have bound: "sint (Logical u) \<le> sint (logical (obs b ! j))"
    if "j < length (obs b)" "u \<in> set st" "WallTime u = word_of_int (ms (wallTime (obs b ! j)))" for b j u
    using assms(1) that by (auto simp: stamped_def)
  have fresh: "t \<notin> set st" using bound [OF assms(2), of t] assms(4,5) by auto
  show ?thesis unfolding stamped_def len
  proof (intro conjI allI impI ballI)
    show "distinct st'" using assms(1,6) fresh by (auto simp: stamped_def)
    show "\<exists>w \<in> W. WallTime u = word_of_int (ms w)" if "u \<in> set st'" for u
    proof (cases "u \<in> set st")
      case True
      then show ?thesis using assms(1) by (simp add: stamped_def)
    next
      case False
      then show ?thesis using that assms(5,6) inW [OF assms(2)] by auto
    qed
    show "wallTime (?o b ! j) \<in> W" if "j < length (obs b)" for b j using wall [OF that] inW [OF that] by simp
    show "sint (Logical u) \<le> sint (logical (?o b ! j))"
      if j: "j < length (obs b)" and u: "u \<in> set st'" and w: "WallTime u = word_of_int (ms (wallTime (?o b ! j)))" for b j u
    proof (cases "u \<in> set st")
      case True
      then show ?thesis using bound [OF j True] w wall [OF j] log [OF j] by simp
    next
      case False
      then have "u = t" using u assms(6) by auto
      then have "ms (wallTime (obs a ! i)) = ms (wallTime (obs b ! j))"
        using w wall [OF j] assms(5) ms_word_inject inW assms(2,3) j by auto
      then have "(a, i) = (b, j)" using assms(1,2) j unfolding stamped_def by blast
      then show ?thesis using \<open>u = t\<close> assms(2,5) by auto
    qed
    show "ms (wallTime (?o b ! j)) \<noteq> ms (wallTime (?o c ! l))"
      if "j < length (obs b) \<and> l < length (obs c) \<and> (b, j) \<noteq> (c, l)" for b j c l
      using that wall [of j b] wall [of l c] assms(1) by (auto simp: stamped_def)
  qed
qed

lemma serving_ok_frame:
  assumes "serving_ok I W m p" "saved m \<le> saved m'" "holder m' p \<Longrightarrow> holder m p \<and> saved m' = saved m"
    and "W' = W \<or> W' = insert now W \<and> (ms now \<le> ms (current p) \<or> lastSavedTime p + 2 * I * 1000000 \<le> now) \<and>
      (holder m' p \<longrightarrow> ms now \<le> ms (current p))"
  shows "serving_ok I W' m' p"
  using assms unfolding serving_ok_def by auto

lemma core_quiet:
  assumes "core I n W m srv ph st" "objects p = objects (srv a) \<or> objects p = []"
    "masterValue p = masterValue (srv a)" "q \<noteq> Serving" "saved m \<le> saved m'" "well_saved m'"
    "\<And>b. b \<noteq> a \<Longrightarrow> holder m' (srv b) \<Longrightarrow> holder m (srv b) \<and> saved m' = saved m"
    "\<And>L. q = Loaded L \<Longrightarrow> holder m' p \<Longrightarrow> L = saved m'"
  shows "core I n W m' (srv(a := p)) (ph(a := q)) st"
  unfolding core_def
proof (intro conjI)
  note c = assms(1) [unfolded core_def]
  show "\<forall>w \<in> W. valid_clock w \<and> w < saved m' + (I + 1) * 1000000" using c assms(5) by force
  show "well_saved m'" by (rule assms(6))
  have "objects \<circ> (srv(a := p)) = (objects \<circ> srv)(a := objects p)" by (simp add: fun_upd_comp)
  moreover have "(objects \<circ> srv)(a := objects (srv a)) = objects \<circ> srv" by (metis comp_apply fun_upd_triv)
  ultimately show "stamped W (objects \<circ> (srv(a := p))) st"
    using c assms(2) stamped_empty [of W "objects \<circ> srv" st a] by auto
  show "\<forall>b. \<forall>ob \<in> set (objects ((srv(a := p)) b)). 0 \<le> sint (logical ob) \<and> sint (logical ob) \<le> n"
    using c assms(2) by auto
  have "serving_ok I W m' (srv b)" if "b \<noteq> a" "ph b = Serving" for b
    by (rule serving_ok_frame [OF _ assms(5)]) (use c that assms(7) in auto)
  then show "\<forall>b. (ph(a := q)) b = Serving \<longrightarrow> serving_ok I W m' ((srv(a := p)) b)" using assms(4) by simp
  show "\<forall>b L. (ph(a := q)) b = Loaded L \<and> holder m' ((srv(a := p)) b) \<longrightarrow> L = saved m'"
    using c assms(7,8) by (metis fun_upd_apply)
  show "\<forall>b d. b \<noteq> d \<longrightarrow> masterValue ((srv(a := p)) b) \<noteq> masterValue ((srv(a := p)) d)"
    using c assms(3) by (metis fun_upd_apply)
qed

lemma core_store:
  assumes "core I n W m srv ph st" "objects p = objects (srv a)" "masterValue p = masterValue (srv a)"
    "valid_clock now" "\<And>w. w \<in> W \<Longrightarrow> ms w \<noteq> ms now" "saved m \<le> saved m'" "well_saved m'" "0 \<le> n"
    "now < saved m' + (I + 1) * 1000000" "serving_ok I (insert now W) m' (storeObject now p)"
    "\<And>b. b \<noteq> a \<Longrightarrow> holder m' (srv b) \<Longrightarrow> holder m (srv b) \<and> saved m' = saved m"
    "\<And>b. b \<noteq> a \<Longrightarrow> ph b = Serving \<Longrightarrow>
       (ms now \<le> ms (current (srv b)) \<or> lastSavedTime (srv b) + 2 * I * 1000000 \<le> now) \<and>
       (holder m' (srv b) \<longrightarrow> ms now \<le> ms (current (srv b)))"
  shows "core I n (insert now W) m' (srv(a := storeObject now p)) (ph(a := Serving)) st"
  unfolding core_def
proof (intro conjI)
  note c = assms(1) [unfolded core_def]
  show "\<forall>w \<in> insert now W. valid_clock w \<and> w < saved m' + (I + 1) * 1000000" using c assms(4,6,9) by force
  show "well_saved m'" by (rule assms(7))
  have "objects \<circ> (srv(a := storeObject now p))
      = (objects \<circ> srv)(a := (objects \<circ> srv) a @ [\<lparr>wallTime = now, logical = 0\<rparr>])"
    by (simp add: fun_upd_comp storeObject_def assms(2))
  then show "stamped (insert now W) (objects \<circ> (srv(a := storeObject now p))) st"
    using stamped_new [of W "objects \<circ> srv" st now a] c assms(4,5) by auto
  show "\<forall>b. \<forall>ob \<in> set (objects ((srv(a := storeObject now p)) b)). 0 \<le> sint (logical ob) \<and> sint (logical ob) \<le> n"
    using c assms(2,8) by (auto simp: storeObject_def)
  have "serving_ok I (insert now W) m' (srv b)" if "b \<noteq> a" "ph b = Serving" for b
    by (rule serving_ok_frame [where now = now, OF _ assms(6)]) (use c that assms(11,12) in auto)
  then show "\<forall>b. (ph(a := Serving)) b = Serving \<longrightarrow> serving_ok I (insert now W) m' ((srv(a := storeObject now p)) b)"
    using assms(10) by simp
  show "\<forall>b L. (ph(a := Serving)) b = Loaded L \<and> holder m' ((srv(a := storeObject now p)) b) \<longrightarrow> L = saved m'"
    using c assms(11) by (metis fun_upd_apply phase.distinct(11))
  show "\<forall>b d. b \<noteq> d \<longrightarrow> masterValue ((srv(a := storeObject now p)) b) \<noteq> masterValue ((srv(a := storeObject now p)) d)"
    using c assms(3) by (simp add: storeObject_def)
qed

text \<open>A save by the holder of the master key, with the object stored after it or without.\<close>

abbreviation putTs :: "int \<Rightarrow> (bytes \<rightharpoonup> bytes) \<Rightarrow> bytes \<rightharpoonup> bytes" where
  "putTs now m \<equiv> m(timestampPath \<mapsto> uint64ToBytes (word_of_int now))"

lemma holder_putTs [simp]: "holder (putTs now m) p \<longleftrightarrow> holder m p"
  by (simp add: holder_def)

lemma core_holder_unique: "core I n W m srv ph st \<Longrightarrow> holder m (srv a) \<Longrightarrow> b \<noteq> a \<Longrightarrow> \<not> holder m (srv b)"
  unfolding core_def holder_def by (metis option.inject)

lemma core_lost_save:
  assumes "core I n W m srv ph st" "holder m (srv a)" "saved m \<le> now" "valid_clock now"
  shows "core I n W (putTs now m) (srv(a := srv a)) (ph(a := Idle)) st"
  by (rule core_quiet [OF assms(1)])
    (use assms core_holder_unique [OF assms(1,2)] in \<open>simp_all add: saved_put well_saved_put\<close>)

lemma core_save:
  assumes "core I n W m srv ph st" "holder m (srv a)" "saved m \<le> now" "valid_clock now" "0 \<le> n" "0 \<le> I"
    "\<And>w. w \<in> W \<Longrightarrow> ms w < ms now"
    "\<And>b. b \<noteq> a \<Longrightarrow> ph b = Serving \<Longrightarrow> lastSavedTime (srv b) + 2 * I * 1000000 \<le> now"
  shows "core I n (insert now W) (putTs now m)
    (srv(a := storeObject now ((srv a)\<lparr>lastSavedTime := now\<rparr>))) (ph(a := Serving)) st"
proof (rule core_store [OF assms(1)])
  note unique = core_holder_unique [OF assms(1,2)]
  have "current (storeObject now ((srv a)\<lparr>lastSavedTime := now\<rparr>)) = now"
    by (simp add: current_def storeObject_def)
  then show "serving_ok I (insert now W) (putTs now m) (storeObject now ((srv a)\<lparr>lastSavedTime := now\<rparr>))"
    using assms(4,6,7) unfolding serving_ok_def
    by (simp add: saved_put storeObject_def less_imp_le)
  show "ms w \<noteq> ms now" if "w \<in> W" for w using assms(7) [OF that] by simp
  show "(ms now \<le> ms (current (srv b)) \<or> lastSavedTime (srv b) + 2 * I * 1000000 \<le> now) \<and>
      (holder (putTs now m) (srv b) \<longrightarrow> ms now \<le> ms (current (srv b)))" if "b \<noteq> a" "ph b = Serving" for b
    using that assms(8) unique by simp
  show "holder m (srv b) \<and> saved (putTs now m) = saved m" if "b \<noteq> a" "holder (putTs now m) (srv b)" for b
    using that unique by simp
qed (use assms in \<open>simp_all add: saved_put well_saved_put\<close>)

text \<open>Two serving servers have different current times, in milliseconds.\<close>

lemma core_serving: "core I n W m srv ph st \<Longrightarrow> ph a = Serving \<Longrightarrow> serving_ok I W m (srv a)"
  by (simp add: core_def)

lemma serving_ok_current: "serving_ok I W m p \<Longrightarrow> current p \<in> W"
  by (simp add: serving_ok_def)

lemma serving_okD:
  assumes "serving_ok I W m p" "w \<in> W"
  shows "holder m p \<Longrightarrow> ms w \<le> ms (current p)" "\<not> ms w \<le> ms (current p) \<Longrightarrow> lastSavedTime p + 2 * I * 1000000 \<le> w"
  using assms unfolding serving_ok_def by blast+

lemma core_nonneg: "core I n W m srv ph st \<Longrightarrow> w \<in> W \<Longrightarrow> 0 \<le> w"
  by (auto simp: core_def valid_clock_def)

lemma core_distinct:
  assumes "core I n W m srv ph st" "ph a = Serving" "ph b = Serving" "b \<noteq> a"
  shows "ms (current (srv a)) \<noteq> ms (current (srv b))"
proof -
  obtain i where "ts (srv a) = Some i" "i < length (objects (srv a))"
    using core_serving [OF assms(1,2)] unfolding serving_ok_def by blast
  moreover obtain j where "ts (srv b) = Some j" "j < length (objects (srv b))"
    using core_serving [OF assms(1,3)] unfolding serving_ok_def by blast
  moreover have "stamped W (objects \<circ> srv) st" using assms(1) by (simp add: core_def)
  ultimately show ?thesis using assms(4) unfolding stamped_def current_def comp_def by (metis option.sel prod.inject)
qed

text \<open>
  The server \<open>a\<close> serves and its clock has advanced. Another serving server has stopped far enough below, or
  is already above what \<open>a\<close> can reach without a save.
\<close>

lemma core_tick_other:
  assumes "core I n W m srv ph st" "ph a = Serving" "ph b = Serving" "b \<noteq> a" "2 \<le> I"
    "current (srv a) + 1000000 \<le> now"
  shows "lastSavedTime (srv b) + 2 * I * 1000000 \<le> now \<and> \<not> holder m (srv b) \<or>
    \<not> holder m (srv a) \<and> lastSavedTime (srv a) + 2 * I * 1000000 \<le> current (srv b)"
proof -
  note sa = serving_okD [OF core_serving [OF assms(1,2)] serving_ok_current [OF core_serving [OF assms(1,3)]]]
    and sb = serving_okD [OF core_serving [OF assms(1,3)] serving_ok_current [OF core_serving [OF assms(1,2)]]]
  from core_distinct [OF assms(1-4)] consider
    "ms (current (srv a)) < ms (current (srv b))" | "ms (current (srv b)) < ms (current (srv a))" by linarith
  then show ?thesis
  proof cases
    case 1
    then show ?thesis using sa by linarith
  next
    case 2
    then have "\<not> holder m (srv b) \<and> lastSavedTime (srv b) + 2 * I * 1000000 \<le> current (srv a)"
      using sb by linarith
    with assms(6) show ?thesis by linarith
  qed
qed

lemma core_tick:
  assumes "core I n W m srv ph st" "ph a = Serving" "2 \<le> I" "0 \<le> n" "valid_clock now"
    "current (srv a) + 1000000 \<le> now" "now < lastSavedTime (srv a) + (I + 1) * 1000000"
  shows "core I n (insert now W) m (srv(a := storeObject now (srv a))) (ph(a := Serving)) st"
proof (rule core_store [OF assms(1)])
  note sa = core_serving [OF assms(1,2)]
  let ?c = "current (srv a)"
  have c: "0 \<le> ?c" "ms ?c < ms now"
    using core_nonneg [OF assms(1) serving_ok_current [OF sa]] ms_mono [OF assms(6)] by simp_all
  have above: "ms now < ms w" if "lastSavedTime (srv a) + 2 * I * 1000000 \<le> w" for w
    using that assms(3,5,7) by (intro ms_mono) (auto simp: valid_clock_def)
  show "ms w \<noteq> ms now" if "w \<in> W" for w
    using serving_okD [OF sa that] c above [of w] by linarith
  have new: "current (storeObject now (srv a)) = now" by (simp add: current_def storeObject_def)
  have "ms w \<le> ms now \<or> lastSavedTime (srv a) + 2 * I * 1000000 \<le> w" if "w \<in> W" for w
    using serving_okD [OF sa that] c by linarith
  moreover have "ms w \<le> ms now" if "holder m (srv a)" "w \<in> W" for w
    using serving_okD(1) [OF sa that(2,1)] c by linarith
  moreover have "lastSavedTime (srv a) \<le> saved m" "holder m (srv a) \<longrightarrow> lastSavedTime (srv a) = saved m"
    using sa unfolding serving_ok_def by blast+
  ultimately show "serving_ok I (insert now W) m (storeObject now (srv a))"
    using assms(7) unfolding serving_ok_def new by (simp add: storeObject_def holder_def)
  show "(ms now \<le> ms (current (srv b)) \<or> lastSavedTime (srv b) + 2 * I * 1000000 \<le> now) \<and>
      (holder m (srv b) \<longrightarrow> ms now \<le> ms (current (srv b)))" if "b \<noteq> a" "ph b = Serving" for b
    using core_tick_other [OF assms(1,2) that(2,1) assms(3,6)] above [of "current (srv b)"] by force
  show "well_saved m" using assms(1) by (simp add: core_def)
  show "now < saved m + (I + 1) * 1000000"
    using assms(7) \<open>lastSavedTime (srv a) \<le> saved m\<close> by linarith
qed (use assms in simp_all)

lemma core_tick_save:
  assumes "core I n W m srv ph st" "ph a = Serving" "2 \<le> I" "0 \<le> n" "valid_clock now" "holder m (srv a)"
    "current (srv a) + 1000000 \<le> now" "lastSavedTime (srv a) \<le> now"
  shows "core I n (insert now W) (putTs now m)
      (srv(a := storeObject now ((srv a)\<lparr>lastSavedTime := now\<rparr>))) (ph(a := Serving)) st"
    "core I n W (putTs now m) (srv(a := srv a)) (ph(a := Idle)) st"
proof -
  note sa = core_serving [OF assms(1,2)]
  have saved: "saved m \<le> now" using sa assms(6,8) unfolding serving_ok_def by simp
  have "ms (current (srv a)) < ms now"
    using core_nonneg [OF assms(1) serving_ok_current [OF sa]] ms_mono [OF assms(7)] by simp
  then have "ms w < ms now" if "w \<in> W" for w
    using serving_okD(1) [OF sa that assms(6)] by linarith
  moreover have "lastSavedTime (srv b) + 2 * I * 1000000 \<le> now" if "b \<noteq> a" "ph b = Serving" for b
    using core_tick_other [OF assms(1,2) that(2,1) assms(3,7)] assms(6) by blast
  ultimately show "core I n (insert now W) (putTs now m)
      (srv(a := storeObject now ((srv a)\<lparr>lastSavedTime := now\<rparr>))) (ph(a := Serving)) st"
    using assms(3) by (intro core_save [OF assms(1,6) saved assms(5,4)]) auto
  show "core I n W (putTs now m) (srv(a := srv a)) (ph(a := Idle)) st"
    by (rule core_lost_save [OF assms(1,6) saved assms(5)])
qed

lemma core_start:
  assumes "core I n W m srv ph st" "ph a = Loaded L" "2 \<le> I" "0 \<le> n" "valid_clock now" "holder m (srv a)"
    "L + 2 * I * 1000000 \<le> now"
  shows "core I n (insert now W) (putTs now m)
      (srv(a := storeObject now ((srv a)\<lparr>lastSavedTime := now\<rparr>))) (ph(a := Serving)) st"
    "core I n W (putTs now m) (srv(a := srv a)) (ph(a := Idle)) st"
proof -
  have L: "saved m + 2 * I * 1000000 \<le> now" using assms(1,2,6,7) by (auto simp: core_def)
  then have saved: "saved m \<le> now" using assms(3) by linarith
  have "ms w < ms now" if "w \<in> W" for w
  proof (rule ms_mono)
    have "w < saved m + (I + 1) * 1000000" using assms(1) that by (auto simp: core_def)
    then show "w + 1000000 \<le> now" using L assms(3) by auto
  qed (rule core_nonneg [OF assms(1) that])
  moreover have "lastSavedTime (srv b) + 2 * I * 1000000 \<le> now" if "ph b = Serving" for b
    using core_serving [OF assms(1) that] L unfolding serving_ok_def by linarith
  ultimately show "core I n (insert now W) (putTs now m)
      (srv(a := storeObject now ((srv a)\<lparr>lastSavedTime := now\<rparr>))) (ph(a := Serving)) st"
    using assms(3) by (intro core_save [OF assms(1,6) saved assms(5,4)]) auto
  show "core I n W (putTs now m) (srv(a := srv a)) (ph(a := Idle)) st"
    by (rule core_lost_save [OF assms(1,6) saved assms(5)])
qed

lemma core_mono: "core I n W m srv ph st \<Longrightarrow> n \<le> n' \<Longrightarrow> core I n' W m srv ph st"
  unfolding core_def by force

lemma sint_next:
  fixes l :: int32
  assumes "0 \<le> sint l" "sint l < 2 ^ 31 - 1"
  shows "sint (l + 1) = sint l + 1"
  using assms by (simp add: sint_word_ariths signed_take_bit_int_eq_self)

lemma core_other:
  assumes "core I n W m srv ph st" "m' timestampPath = m timestampPath" "\<And>p. holder m' p \<Longrightarrow> holder m p"
  shows "core I n W m' srv ph st"
proof -
  have "saved m' = saved m" "well_saved m' = well_saved m" by (simp_all add: saved_def well_saved_def assms(2))
  moreover have "serving_ok I W m' (srv b)" if "ph b = Serving" for b
    by (rule serving_ok_frame [OF core_serving [OF assms(1) that]]) (use calculation assms(3) in auto)
  moreover have "\<forall>b L. ph b = Loaded L \<and> holder m' (srv b) \<longrightarrow> L = saved m"
    using assms(1,3) unfolding core_def by blast
  ultimately show ?thesis using assms(1) unfolding core_def by simp
qed

lemma core_issue:
  assumes "core I n W m srv ph st" "i < length (objects (srv a))" "nextLogical i (srv a) = (t, p)" "n < 2 ^ 31 - 1"
    "st' = st \<or> st' = st @ [t]"
  shows "core I (n + 1) W m (srv(a := p)) ph st'"
proof -
  note c = assms(1) [unfolded core_def]
  let ?ob = "objects (srv a) ! i"
  let ?os = "(objects (srv a))[i := ?ob\<lparr>logical := logical ?ob + 1\<rparr>]"
  have p: "p = (srv a)\<lparr>objects := ?os\<rparr>" and t: "t = \<lparr>WallTime = word_of_int (ms (wallTime ?ob)), Logical = logical ?ob + 1\<rparr>"
    using assms(3) by (auto simp: nextLogical_def Let_def)
  have ob: "0 \<le> sint (logical ?ob)" "sint (logical ?ob) \<le> n" using c assms(2) nth_mem by blast+
  have l: "sint (logical ?ob + 1) = sint (logical ?ob) + 1"
    using ob assms(4) by (intro sint_next) auto
  have "current p = current (srv a)" if serves: "ph a = Serving"
  proof -
    obtain j where "ts (srv a) = Some j" "j < length (objects (srv a))"
      using core_serving [OF assms(1) serves] unfolding serving_ok_def by blast
    then show ?thesis by (cases "j = i") (simp_all add: current_def p)
  qed
  then have serving: "serving_ok I W m p" if "ph a = Serving"
    using core_serving [OF assms(1) that] that by (simp add: serving_ok_def holder_def p)
  have "objects \<circ> (srv(a := p)) = (objects \<circ> srv)(a := ?os)" by (simp add: fun_upd_comp p)
  then have stamped: "stamped W (objects \<circ> (srv(a := p))) st'"
    using stamped_issue [of W "objects \<circ> srv" st i a t st'] c assms(2,5) l t by simp
  have "0 \<le> sint (logical o') \<and> sint (logical o') \<le> n + 1" if "o' \<in> set ?os" for o'
  proof -
    from that have "o' = ?ob\<lparr>logical := logical ?ob + 1\<rparr> \<or> o' \<in> set (objects (srv a))"
      using set_update_subset_insert by fastforce
    then show ?thesis
    proof
      assume "o' \<in> set (objects (srv a))"
      then have "0 \<le> sint (logical o') \<and> sint (logical o') \<le> n" using c by blast
      then show ?thesis by linarith
    qed (use ob l in simp)
  qed
  moreover have "0 \<le> sint (logical o') \<and> sint (logical o') \<le> n + 1" if "o' \<in> set (objects (srv b))" for b o'
    using c that by fastforce
  ultimately have logs: "\<forall>b. \<forall>o' \<in> set (objects ((srv(a := p)) b)). 0 \<le> sint (logical o') \<and> sint (logical o') \<le> n + 1"
    by (simp add: p)
  have mv: "masterValue ((srv(a := p)) b) = masterValue (srv b)" for b by (simp add: p)
  show ?thesis unfolding core_def
  proof (intro conjI)
    show "\<forall>b. ph b = Serving \<longrightarrow> serving_ok I W m ((srv(a := p)) b)" using c serving by simp
    show "\<forall>b L. ph b = Loaded L \<and> holder m ((srv(a := p)) b) \<longrightarrow> L = saved m"
      using c unfolding holder_def mv by blast
    show "\<forall>b d. b \<noteq> d \<longrightarrow> masterValue ((srv(a := p)) b) \<noteq> masterValue ((srv(a := p)) d)"
      using c unfolding mv by blast
  qed (use c stamped logs in blast)+
qed

text \<open>The steps of the code, through the laws of etcd.\<close>

context etcd_laws
begin

lemma campaign_cases:
  assumes "campaign E master (p, k) = (r, (p', k'))"
  shows "objects p' = objects p \<and> masterValue p' = masterValue p \<and>
    (view k' = view k \<or> view k' = (view k)(masterPath \<mapsto> masterValue p))"
proof -
  let ?c = "if master = masterValue p then newMasterCmp p else CmpCreateRevision0 masterPath"
  obtain x k1 where t: "putValues E ?c [OpPut masterPath (masterValue p)] k = (x, k1)" by force
  with putValues_cases [OF t] assms show ?thesis
    by (cases x) (auto simp: campaign_def onEtcd_def setIsMaster_def bindM_def Let_def split: if_splits)
qed

lemma saveTimestampToDB_cases:
  assumes "saveTimestampToDB E now (p, k) = (r, (p', k'))"
  shows "r = Inr () \<and> holder (view k) p \<and> view k' = putTs now (view k) \<and> p' = p\<lparr>lastSavedTime := now\<rparr> \<or>
    (\<exists>e. r = Inl e) \<and> p' = p \<and> (view k' = view k \<or> holder (view k) p \<and> view k' = putTs now (view k))"
proof -
  obtain x k1 where t: "putValues E (newMasterCmp p) [OpPut timestampPath (uint64ToBytes (word_of_int now))] k = (x, k1)"
    by force
  with putValues_cases [OF t] assms show ?thesis
    by (cases x) (auto simp: saveTimestampToDB_def onEtcd_def bindM_def newMasterCmp_def holds_def holder_def split: if_splits)
qed

lemma loadTimestampFromDB_cases:
  assumes "loadTimestampFromDB E (p, k) = (r, (p', k'))"
  shows "p' = p \<and> view k' = view k \<and> (\<forall>t. r = Inr t \<longrightarrow> t = saved (view k))"
proof -
  obtain x k1 where t: "getValues E timestampPath False k = (x, k1)" by force
  have k: "view k1 = view k" using getValues_keeps [of timestampPath False k] t by simp
  show ?thesis
  proof (cases x)
    case (Inl e)
    with assms t k show ?thesis by (auto simp: loadTimestampFromDB_def onEtcd_def bindM_def)
  next
    case (Inr kvs)
    with getValues_value [of timestampPath k kvs k1] assms t k show ?thesis
      by (auto simp: loadTimestampFromDB_def onEtcd_def bindM_def saved_def split: option.splits sum.splits)
  qed
qed

lemma inv_campaign:
  assumes "core I n W (view (kv x)) (server x) (phase x) (stamps x)"
    "campaign E master (server x a, kv x) = (r, (p, k))"
  shows "core I n W (view k) ((server x)(a := p)) ((phase x)(a := case r of Inl _ \<Rightarrow> Idle | Inr _ \<Rightarrow> Campaigned)) (stamps x)"
proof (rule core_quiet [OF assms(1)])
  let ?m = "view (kv x)"
  note p = campaign_cases [OF assms(2)]
  then show "objects p = objects (server x a) \<or> objects p = []" "masterValue p = masterValue (server x a)" by simp_all
  have k: "view k = ?m \<or> view k = ?m(masterPath \<mapsto> masterValue (server x a))" using p by simp
  then show "saved ?m \<le> saved (view k)" "well_saved (view k)"
    using assms(1) by (auto simp: core_def saved_def well_saved_def)
  show "holder ?m (server x b) \<and> saved (view k) = saved ?m" if "b \<noteq> a" "holder (view k) (server x b)" for b
  proof -
    have "masterValue (server x a) \<noteq> masterValue (server x b)"
      using assms(1) that(1) unfolding core_def by metis
    with k that(2) show ?thesis by (auto simp: holder_def)
  qed
qed (simp_all split: sum.splits)

lemma inv_load:
  assumes "core I n W (view (kv x)) (server x) (phase x) (stamps x)"
    "loadTimestampFromDB E (server x a, kv x) = (r, (p, k))"
  shows "core I n W (view k) ((server x)(a := p))
    ((phase x)(a := case r of Inl _ \<Rightarrow> Idle | Inr lastSaved \<Rightarrow> Loaded lastSaved)) (stamps x)"
  by (rule core_quiet [OF assms(1)])
    (use loadTimestampFromDB_cases [OF assms(2)] assms(1) in \<open>auto simp: core_def split: sum.splits\<close>)

lemma inv_idle:
  "core I n W m srv ph st \<Longrightarrow> objects p = objects (srv a) \<or> objects p = [] \<Longrightarrow> masterValue p = masterValue (srv a) \<Longrightarrow>
   core I n W m (srv(a := p)) (ph(a := Idle)) st"
  by (rule core_quiet) (auto simp: core_def)

lemma inv_save:
  assumes "core I n W (view (kv x)) (server x) (phase x) (stamps x)"
    and saves: "holder (view (kv x)) (server x a) \<Longrightarrow> core I n (insert now W) (putTs now (view (kv x)))
      ((server x)(a := storeObject now ((server x a)\<lparr>lastSavedTime := now\<rparr>))) ((phase x)(a := Serving)) (stamps x)"
      "holder (view (kv x)) (server x a) \<Longrightarrow>
        core I n W (putTs now (view (kv x))) ((server x)(a := server x a)) ((phase x)(a := Idle)) (stamps x)"
    and "startClock E now (server x a, kv x) = (r, (p, k))"
  shows "\<exists>W. core I n W (view k) ((server x)(a := p)) ((phase x)(a := case r of Inl _ \<Rightarrow> Idle | Inr _ \<Rightarrow> Serving)) (stamps x)"
proof -
  obtain r1 p1 k1 where s: "saveTimestampToDB E now (server x a, kv x) = (r1, (p1, k1))" by (metis prod.exhaust)
  have quiet: "core I n W (view (kv x)) ((server x)(a := server x a)) ((phase x)(a := Idle)) (stamps x)"
    by (rule inv_idle [OF assms(1)]) simp_all
  from saveTimestampToDB_cases [OF s] consider
      "r1 = Inr ()" "holder (view (kv x)) (server x a)" "view k1 = putTs now (view (kv x))" "p1 = (server x a)\<lparr>lastSavedTime := now\<rparr>"
    | e where "r1 = Inl e" "p1 = server x a" "view k1 = view (kv x)"
    | e where "r1 = Inl e" "p1 = server x a" "holder (view (kv x)) (server x a)" "view k1 = putTs now (view (kv x))" by auto
  then show ?thesis
  proof cases
    case 1
    with assms(4) s have "r = Inr ()" "p = storeObject now ((server x a)\<lparr>lastSavedTime := now\<rparr>)" "k = k1"
      by (auto simp: startClock_def bindM_def)
    with 1 saves(1) show ?thesis by (intro exI [of _ "insert now W"]) simp
  next
    case 2
    with assms(4) s have "r = Inl e" "p = server x a" "k = k1" by (auto simp: startClock_def bindM_def)
    with 2 quiet show ?thesis by (intro exI [of _ W]) simp
  next
    case 3
    with assms(4) s have "r = Inl e" "p = server x a" "k = k1" by (auto simp: startClock_def bindM_def)
    with 3 saves(2) show ?thesis by (intro exI [of _ W]) simp
  qed
qed

lemma inv_start:
  assumes "core I n W (view (kv x)) (server x) (phase x) (stamps x)" "phase x a = Loaded L" "2 \<le> I" "0 \<le> n"
    "valid_clock now" "clockOk I L now" "startClock E now (server x a, kv x) = (r, (p, k))"
  shows "\<exists>W. core I n W (view k) ((server x)(a := p)) ((phase x)(a := case r of Inl _ \<Rightarrow> Idle | Inr _ \<Rightarrow> Serving)) (stamps x)"
proof -
  have L: "L + 2 * I * 1000000 \<le> now" using ms_above [of "2 * I" "now - L"] assms(3,6) by (auto simp: clockOk_def)
  show ?thesis by (rule inv_save [OF assms(1) core_start [OF assms(1-5) _ L] assms(7)])
qed

lemma inv_tick:
  assumes "core I n W (view (kv x)) (server x) (phase x) (stamps x)" "phase x a = Serving" "2 \<le> I" "0 \<le> n"
    "valid_clock now" "saveTimestamp E I now (server x a, kv x) = (r, (p, k))"
  shows "\<exists>W. core I n W (view k) ((server x)(a := p)) ((phase x)(a := case r of Inl _ \<Rightarrow> Idle | Inr _ \<Rightarrow> Serving)) (stamps x)"
proof -
  let ?p = "server x a"
  obtain i where i: "ts ?p = Some i" "wallTime (objects ?p ! i) = current ?p"
    using core_serving [OF assms(1,2)] unfolding serving_ok_def by (metis current_def option.sel)
  consider "ms (now - current ?p) \<le> 0" | "0 < ms (now - current ?p)" "ms (now - lastSavedTime ?p) \<le> I"
    | "0 < ms (now - current ?p)" "I < ms (now - lastSavedTime ?p)" by linarith
  then show ?thesis
  proof cases
    case 1
    with assms(6) i have "r = Inr ()" "p = ?p" "k = kv x" by (auto simp: saveTimestamp_def)
    with assms(1,2) show ?thesis by (intro exI [of _ W]) (simp add: fun_upd_idem)
  next
    case 2
    then have "current ?p + 1000000 \<le> now" "now < lastSavedTime ?p + (I + 1) * 1000000"
      using ms_pos ms_below [of "now - lastSavedTime ?p" I] assms(3) by force+
    moreover from 2 assms(6) i have "r = Inr ()" "p = storeObject now ?p" "k = kv x"
      by (auto simp: saveTimestamp_def bindM_def)
    ultimately show ?thesis using core_tick [OF assms(1-5)] by (intro exI [of _ "insert now W"]) simp
  next
    case 3
    then have c: "current ?p + 1000000 \<le> now" "lastSavedTime ?p \<le> now"
      using ms_pos [of "now - current ?p"] ms_pos [of "now - lastSavedTime ?p"] assms(3) by force+
    from 3 assms(6) i have "startClock E now (?p, kv x) = (r, (p, k))"
      by (simp add: saveTimestamp_def startClock_def)
    from inv_save [OF assms(1) core_tick_save [OF assms(1-5) _ c] this] show ?thesis .
  qed
qed

lemma tso_step:
  assumes "tsoStep E view I x x'" "tso_inv view I n x" "2 \<le> I" "0 \<le> n" "n < 2 ^ 31 - 1"
  shows "tso_inv view I (n + 1) x'"
proof -
  obtain W where c: "core I n W (view (kv x)) (server x) (phase x) (stamps x)" using assms(2) by (auto simp: tso_inv_def)
  have later: "tso_inv view I n x' \<Longrightarrow> ?thesis"
    unfolding tso_inv_def by (elim exE) (rule exI, erule core_mono, simp)
  from assms(1) show ?thesis
  proof cases
    case (campaign a master r p k)
    from inv_campaign [OF c campaign(3)] campaign(1) show ?thesis by (intro later) (auto simp: tso_inv_def upd_def)
  next
    case (load a r p k)
    from inv_load [OF c load(3)] load(1) show ?thesis by (intro later) (auto simp: tso_inv_def upd_def)
  next
    case (start a lastSaved now r p k)
    from inv_start [OF c start(2) assms(3,4) start(3-5)] start(1) show ?thesis
      by (intro later) (simp add: tso_inv_def upd_def)
  next
    case (tick a now r p k)
    from inv_tick [OF c tick(2) assms(3,4) tick(3,4)] tick(1) show ?thesis
      by (intro later) (simp add: tso_inv_def upd_def)
  next
    case (resign a)
    from inv_idle [OF c, of "Tso.resign (server x a)" a] resign(1) show ?thesis
      by (intro later) (auto simp: tso_inv_def upd_def Tso.resign_def setIsMaster_def setIsReady_def)
  next
    case (crash p a)
    from inv_idle [OF c, of p a] crash show ?thesis by (intro later) (auto simp: tso_inv_def upd_def)
  next
    case (issue b a t p)
    from core_issue [OF c issue(2,3) assms(5), of "if sint (Logical t) \<ge> maxLogical then stamps x else stamps x @ [t]"]
      issue(1) show ?thesis by (auto simp: tso_inv_def)
  next
    case (expire k)
    then have "core I n W (view k) (server x) (phase x) (stamps x)"
      by (intro core_other [OF c]) (auto simp: holder_def)
    with expire(1) show ?thesis by (intro later) (auto simp: tso_inv_def)
  next
    case (others k)
    then have "core I n W (view k) (server x) (phase x) (stamps x)"
      by (intro core_other [OF c]) (auto simp: holder_def)
    with others(1) show ?thesis by (intro later) (auto simp: tso_inv_def)
  qed
qed

lemma tso_steps:
  assumes "(tsoStep E view I ^^ n) x0 x" "tso_inv view I 0 x0" "2 \<le> I" "int n \<le> 2 ^ 31 - 1"
  shows "tso_inv view I (int n) x"
  using assms(1,4)
proof (induction n arbitrary: x)
  case 0
  then show ?case using assms(2) by simp
next
  case (Suc n)
  then obtain y where "(tsoStep E view I ^^ n) x0 y" "tsoStep E view I y x" by auto
  with tso_step [of I y x "int n"] Suc assms(3) show ?case by (simp add: add.commute)
qed

end

text \<open>The waiting loop of \<^verbatim>\<open>loadTimestamp\<close> and the loop of \<^verbatim>\<open>getTimestamp\<close> take the steps above.\<close>

lemma awaitClock_clockOk: "awaitClock n interval L clock j = Inr now \<Longrightarrow> clockOk interval L now \<and> now \<in> range clock"
  by (induction n interval L clock j rule: awaitClock.induct) (auto simp: clockOk_def split: if_splits)

lemma loadTimestamp_steps:
  assumes "loadTimestamp n E sched interval clock s = (Inr (), s')"
  shows "\<exists>L s1 now. loadTimestampFromDB E s = (Inr L, s1) \<and> clockOk interval L now \<and> now \<in> range clock \<and>
    startClock E now (sched s1) = (Inr (), s')"
  using assms awaitClock_clockOk unfolding loadTimestamp_def bindM_def
  by (fastforce split: prod.splits sum.splits)

lemma getTimestampLoop_step:
  "getTimestampLoop n sched p = (Inr t, p') \<Longrightarrow> \<exists>a p1. nextLogical a p1 = (t, p') \<and> sint (Logical t) < maxLogical"
proof (induction n arbitrary: p)
  case (Suc n)
  show ?case
  proof (cases "ts p")
    case None
    with Suc show ?thesis by simp
  next
    case (Some a)
    obtain t1 p1 where "nextLogical a (sched p) = (t1, p1)" by (cases "nextLogical a (sched p)")
    with Some Suc show ?thesis by (fastforce split: if_splits)
  qed
qed simp

section \<open>Properties\<close>


definition tso0 :: "nat \<Rightarrow> tso" where
  "tso0 a = \<lparr>masterValue = replicate (Suc a) 0, isMaster = False, isReady = False, objects = [], ts = None, lastSavedTime = 0\<rparr>"


end
