(* ===== verification/Pd.thy ===== *)
theory Pd
  imports RangeCache Tso
begin

text \<open>
  The placement driver, \<^verbatim>\<open>src/pd/{server,cluster,region,config}.go\<close>: its state, the nodes and ranges it
  knows, how they are kept in etcd, and its request handlers. Nodes are held by two maps of pointers,
  hence in a heap, like the range descriptors. The JSON encodings of node and range descriptors, the
  clock, the connections to the nodes and the client the server opens are parameters. Loops over Go
  maps run in an order that is a parameter as well.
\<close>

section \<open>Definitions\<close>

subsection \<open>Configuration\<close>

text \<open>A \<^verbatim>\<open>float32\<close> is its bits.\<close>

record pdConfig =
  MasterLease :: int64
  TsSaveInterval :: int64
  CheckInterval :: int64
  RangeCapacity :: uint64
  RangeSplitThreshold :: uint32
  RangeSplitType :: int32

abbreviation (input) splitTypeManual :: int32 where "splitTypeManual \<equiv> 0"
abbreviation (input) splitTypeAuto :: int32 where "splitTypeAuto \<equiv> 1"

definition config_check :: "pdConfig \<Rightarrow> pdConfig" where
  "config_check c =
     (let c = (if sint (MasterLease c) \<le> 0 then c\<lparr>MasterLease := 3\<rparr> else c);
          c = (if sint (TsSaveInterval c) \<le> 0 then c\<lparr>TsSaveInterval := 2000\<rparr> else c);
          c = (if sint (CheckInterval c) \<le> 0 then c\<lparr>CheckInterval := 30\<rparr> else c);
          c = (if RangeCapacity c = 0 then c\<lparr>RangeCapacity := 64000000\<rparr> else c);
          c = (if RangeSplitThreshold c = 0 \<or> RangeSplitThreshold c = 0x80000000
               then c\<lparr>RangeSplitThreshold := 0x3F000000\<rparr> else c)
      in if RangeSplitType c = 0 then c\<lparr>RangeSplitType := splitTypeAuto\<rparr> else c)"

subsection \<open>State\<close>

record node =
  nodeDesc :: NodeDescriptor
  nodeStats :: NodeStatsInfo

record pdCluster =
  nodeHeap :: "node list"
  nodes :: "(int32 \<times> nat) list"
  hosts :: "(string \<times> nat) list"

record delayRecord =
  delayTimeout :: int
  delayInterval :: int

text \<open>\<open>storeOpen\<close> says whether the package variable \<^verbatim>\<open>store\<close> is set.\<close>

record ('k, 't, 'w) pdServer =
  cfg :: pdConfig
  tsoState :: tso
  pcluster :: pdCluster
  region :: "'t rangeDescriptorCache"
  delays :: "(int64 \<times> delayRecord) list"
  nodeClients :: "string list"
  storeOpen :: bool
  etcdKv :: 'k
  net :: 'w

text \<open>
  The parameters. \<open>pUnmarshalNode\<close> is given the value it decodes into. \<open>pScale\<close> is
  \<^verbatim>\<open>int64(float32(cap)*threshold)\<close>.
\<close>

record ('k, 't, 'w) pdEnv =
  pE :: "'k etcd"
  pT :: "(bytes, 't) llrb"
  pMarshalNode :: "NodeDescriptor \<Rightarrow> error + bytes"
  pUnmarshalNode :: "bytes \<Rightarrow> NodeDescriptor \<Rightarrow> error + NodeDescriptor"
  pMarshalRange :: "RangeDescriptor \<Rightarrow> error + bytes"
  pUnmarshalRange :: "bytes \<Rightarrow> error + RangeDescriptor"
  pOrdNodes :: "int32 list \<Rightarrow> int32 list"
  pOrdRanges :: "int64 list \<Rightarrow> int64 list"
  pOrdStats :: "(int64 \<rightharpoonup> RangeStatsInfo) \<Rightarrow> RangeStatsInfo list"
  pScale :: "uint64 \<Rightarrow> uint32 \<Rightarrow> int64"
  pNow :: "'w \<Rightarrow> int \<times> 'w"
  pDial :: "string \<Rightarrow> ('w, error, unit) op"
  pNodeMessage :: "string \<Rightarrow> BatchRequest \<Rightarrow> ('w, error, BatchResponse) op"
  pLoadConfig :: "string \<Rightarrow> ('w, error, pdConfig) op"
  pGrant :: "('w, error, unit) op"
  pKeepAlive :: "('w, error, unit) op"
  pWatch :: "'w \<Rightarrow> 'w"
  pOpen :: "('w, error, unit) op"
  pCreateReplica :: "int32 \<Rightarrow> RangeDescriptor \<Rightarrow> ('w, error, unit) op"
  pSched :: "'k \<Rightarrow> 'k"
  pFuel :: nat

definition onKv :: "('k, error, 'a) op \<Rightarrow> (('k, 't, 'w) pdServer, error, 'a) op" where
  "onKv m s = (case m (etcdKv s) of (x, k) \<Rightarrow> (x, s\<lparr>etcdKv := k\<rparr>))"

definition onWorld :: "('w, error, 'a) op \<Rightarrow> (('k, 't, 'w) pdServer, error, 'a) op" where
  "onWorld m s = (case m (net s) of (x, w) \<Rightarrow> (x, s\<lparr>net := w\<rparr>))"

definition onOracle :: "('k pd, error, 'a) op \<Rightarrow> (('k, 't, 'w) pdServer, error, 'a) op" where
  "onOracle m s = (case m (tsoState s, etcdKv s) of (x, (p, k)) \<Rightarrow> (x, s\<lparr>tsoState := p, etcdKv := k\<rparr>))"

definition onRegion :: "('t rangeDescriptorCache, error, 'a) op \<Rightarrow> (('k, 't, 'w) pdServer, error, 'a) op" where
  "onRegion m s = (case m (region s) of (x, r) \<Rightarrow> (x, s\<lparr>region := r\<rparr>))"

definition masterPut :: "('k, 't, 'w) pdEnv \<Rightarrow> eop list \<Rightarrow> (('k, 't, 'w) pdServer, error, unit) op" where
  "masterPut V ops s = onKv (putValues (pE V) (newMasterCmp (tsoState s)) ops) s"

definition server_newID :: "('k, 't, 'w) pdEnv \<Rightarrow> (('k, 't, 'w) pdServer, error, int64) op" where
  "server_newID V = onKv (newID (pFuel V) (pE V) (pSched V))"

subsection \<open>The cluster\<close>

definition zero_stats :: NodeStatsInfo where
  "zero_stats = \<lparr>NSNodeID = 0, NSTotalBytes = 0, NSTotalCount = 0, LeaderCount = 0, NSRangeStats = Map.empty\<rparr>"

definition zero_node :: NodeDescriptor where
  "zero_node = \<lparr>NodeID = 0, Address = [], Capacity = 0\<rparr>"

definition newCluster :: pdCluster where
  "newCluster = \<lparr>nodeHeap = [], nodes = [], hosts = []\<rparr>"

definition count :: "pdCluster \<Rightarrow> nat" where
  "count c = length (nodes c)"

definition nodesInOrder :: "(int32 list \<Rightarrow> int32 list) \<Rightarrow> pdCluster \<Rightarrow> node list" where
  "nodesInOrder ord c = map (\<lambda>nid. nodeHeap c ! the (map_of (nodes c) nid)) (ord (map fst (nodes c)))"

definition getIdleNode :: "(int32 list \<Rightarrow> int32 list) \<Rightarrow> int32 list \<Rightarrow> pdCluster \<Rightarrow> error + NodeDescriptor" where
  "getIdleNode ord nids c =
     (case find (\<lambda>n. NodeID (nodeDesc n) \<notin> set nids) (nodesInOrder ord c) of
        Some n \<Rightarrow> Inr (nodeDesc n)
      | None \<Rightarrow> Inl cacheErrNotFound)"

definition lookupNodes :: "int32 list \<Rightarrow> pdCluster \<Rightarrow> node list" where
  "lookupNodes nids c = concat (map (\<lambda>nid. case map_of (nodes c) nid of None \<Rightarrow> [] | Some a \<Rightarrow> [nodeHeap c ! a]) nids)"

definition getNodes :: "(int32 list \<Rightarrow> int32 list) \<Rightarrow> int32 list \<Rightarrow> pdCluster \<Rightarrow> NodeDescriptor list" where
  "getNodes ord nids c =
     (if length nids = 0 then map nodeDesc (nodesInOrder ord c) else map nodeDesc (lookupNodes nids c))"

definition getNodeByAddr :: "string \<Rightarrow> pdCluster \<Rightarrow> error + NodeDescriptor" where
  "getNodeByAddr addr c =
     (case map_of (hosts c) addr of Some a \<Rightarrow> Inr (nodeDesc (nodeHeap c ! a)) | None \<Rightarrow> Inl cacheErrNotFound)"

definition prefixKey :: "bytes \<Rightarrow> int \<Rightarrow> bytes" where
  "prefixKey pre i = (if i = 0 then pre else pre @ ascii ''_'' @ fmt_d i)"

definition nodePrefix :: bytes where "nodePrefix = ETCDRootPath @ ascii ''/NodeID''"
definition rangePrefix :: bytes where "rangePrefix = ETCDRootPath @ ascii ''/RangeID''"

definition newNodeKey :: "int32 \<Rightarrow> bytes" where
  "newNodeKey nid = prefixKey nodePrefix (sint nid)"

definition addNode1 :: "NodeDescriptor \<Rightarrow> pdCluster \<Rightarrow> pdCluster" where
  "addNode1 nd c =
     (let c = (case map_of (nodes c) (NodeID nd) of
                 None \<Rightarrow> c
               | Some a \<Rightarrow> c\<lparr>nodeHeap := (nodeHeap c)[a := (nodeHeap c ! a)\<lparr>nodeDesc := nd\<rparr>]\<rparr>);
          a = length (nodeHeap c)
      in c\<lparr>nodeHeap := nodeHeap c @ [\<lparr>nodeDesc = nd, nodeStats = zero_stats\<rparr>],
           nodes := AList.update (NodeID nd) a (nodes c), hosts := AList.update (Address nd) a (hosts c)\<rparr>)"

definition addNodeCache :: "NodeDescriptor list \<Rightarrow> pdCluster \<Rightarrow> pdCluster" where
  "addNodeCache nds c = fold addNode1 nds c"

definition delNodeCache :: "NodeDescriptor list \<Rightarrow> pdCluster \<Rightarrow> pdCluster" where
  "delNodeCache nds c =
     fold (\<lambda>nd c. c\<lparr>nodes := AList.delete (NodeID nd) (nodes c), hosts := AList.delete (Address nd) (hosts c)\<rparr>) nds c"

text \<open>Encoding the values of a put; the first failure ends it.\<close>

fun putOps :: "('a \<Rightarrow> error + bytes) \<Rightarrow> ('a \<Rightarrow> bytes) \<Rightarrow> 'a list \<Rightarrow> error + eop list" where
  "putOps marshal key [] = Inr []"
| "putOps marshal key (x # xs) =
     bindE (marshal x) (\<lambda>d. bindE (putOps marshal key xs) (\<lambda>ops. Inr (OpPut (key x) d # ops)))"

definition setNodes :: "('k, 't, 'w) pdEnv \<Rightarrow> NodeDescriptor list \<Rightarrow> (('k, 't, 'w) pdServer, error, unit) op" where
  "setNodes V nds =
     (case putOps (pMarshalNode V) (\<lambda>nd. newNodeKey (NodeID nd)) nds of
        Inl err \<Rightarrow> fail err
      | Inr ops \<Rightarrow> bindM (masterPut V ops) (\<lambda>_ s. (Inr (), s\<lparr>pcluster := addNodeCache nds (pcluster s)\<rparr>)))"

text \<open>The descriptor is returned with every error.\<close>

definition newNodeDescriptor ::
    "('k, 't, 'w) pdEnv \<Rightarrow> string \<Rightarrow> int64 \<Rightarrow> ('k, 't, 'w) pdServer
       \<Rightarrow> (NodeDescriptor \<times> (error + unit)) \<times> ('k, 't, 'w) pdServer" where
  "newNodeDescriptor V addr capacity s =
     (let nd = \<lparr>NodeID = 0, Address = addr, Capacity = capacity\<rparr>
      in case server_newID V s of
           (Inl err, s) \<Rightarrow> ((nd, Inl err), s)
         | (Inr i, s) \<Rightarrow>
             (let nd = nd\<lparr>NodeID := ucast i\<rparr>
              in case setNodes V [nd] s of (r, s) \<Rightarrow> ((nd, r), s)))"

definition setNodeStats :: "NodeStatsInfo \<Rightarrow> pdCluster \<Rightarrow> pdCluster" where
  "setNodeStats ns c =
     (case map_of (nodes c) (NSNodeID ns) of
        None \<Rightarrow> c
      | Some a \<Rightarrow> c\<lparr>nodeHeap := (nodeHeap c)[a := (nodeHeap c ! a)\<lparr>nodeStats := ns\<rparr>]\<rparr>)"

definition getNodeStats :: "(int32 list \<Rightarrow> int32 list) \<Rightarrow> int32 list \<Rightarrow> pdCluster \<Rightarrow> NodeStatsInfo list" where
  "getNodeStats ord nids c =
     (if length nids = 0 then map nodeStats (nodesInOrder ord c) else map nodeStats (lookupNodes nids c))"

text \<open>The loop decodes every value into the same variable.\<close>

fun decodeNodes :: "('k, 't, 'w) pdEnv \<Rightarrow> NodeDescriptor \<Rightarrow> (bytes \<times> bytes) list \<Rightarrow> (('k, 't, 'w) pdServer, error, unit) op" where
  "decodeNodes V nd [] = ret ()"
| "decodeNodes V nd ((k, v) # kvs) =
     (case pUnmarshalNode V v nd of
        Inl err \<Rightarrow> fail err
      | Inr nd \<Rightarrow> (\<lambda>s. decodeNodes V nd kvs (s\<lparr>pcluster := addNodeCache [nd] (pcluster s)\<rparr>)))"

definition loadNodes :: "('k, 't, 'w) pdEnv \<Rightarrow> (('k, 't, 'w) pdServer, error, unit) op" where
  "loadNodes V =
     bindM (onKv (getValues (pE V) (newNodeKey 0) True)) (\<lambda>kvs.
       case kvs of None \<Rightarrow> ret () | Some kvs \<Rightarrow> decodeNodes V zero_node kvs)"

fun cluster_setRangeStats :: "RangeStatsInfo list \<Rightarrow> pdCluster \<Rightarrow> pdCluster" where
  "cluster_setRangeStats [] c = c"
| "cluster_setRangeStats (rs # rss) c =
     cluster_setRangeStats rss
       (case map_of (nodes c) (StatNodeID rs) of
          None \<Rightarrow> c
        | Some a \<Rightarrow>
            (let n = nodeHeap c ! a; ns = nodeStats n
             in c\<lparr>nodeHeap := (nodeHeap c)[a := n\<lparr>nodeStats := ns\<lparr>NSRangeStats := (NSRangeStats ns)(StatRangeID rs \<mapsto> rs)\<rparr>\<rparr>]\<rparr>))"

definition getRangeStats ::
    "(int32 list \<Rightarrow> int32 list) \<Rightarrow> ((int64 \<rightharpoonup> RangeStatsInfo) \<Rightarrow> RangeStatsInfo list) \<Rightarrow> int64 list \<Rightarrow> pdCluster
       \<Rightarrow> RangeStatsInfo list" where
  "getRangeStats ord ordStats rids c =
     (if length rids = 0 then concat (map (\<lambda>n. ordStats (NSRangeStats (nodeStats n))) (nodesInOrder ord c))
      else concat (map (\<lambda>n. concat (map (\<lambda>rid. case NSRangeStats (nodeStats n) rid of None \<Rightarrow> [] | Some rs \<Rightarrow> [rs]) rids))
             (nodesInOrder ord c)))"

subsection \<open>The ranges\<close>

definition newRangeKey :: "int64 \<Rightarrow> bytes" where
  "newRangeKey rid = prefixKey rangePrefix (sint rid)"

fun defaultRangesLoop :: "('k, 't, 'w) pdEnv \<Rightarrow> nat \<Rightarrow> nat \<Rightarrow> (('k, 't, 'w) pdServer, error, RangeDescriptor list) op" where
  "defaultRangesLoop V i 0 = ret []"
| "defaultRangesLoop V i (Suc n) =
     bindM (server_newID V) (\<lambda>rid.
       bindM (defaultRangesLoop V (i + 1) n) (\<lambda>rds.
         ret (\<lparr>RangeID = rid, StartKey = [of_nat i], EndKey = [of_nat (i + 1)], Replicas = []\<rparr> # rds)))"

definition getDefaultRanges :: "('k, 't, 'w) pdEnv \<Rightarrow> (('k, 't, 'w) pdServer, error, RangeDescriptor list) op" where
  "getDefaultRanges V = defaultRangesLoop V 1 2"

definition getRangeDescriptor :: "int64 \<Rightarrow> ('k, 't, 'w) pdServer \<Rightarrow> error + nat" where
  "getRangeDescriptor rid s = rdc_Get rid (region s)"

definition getRangeDescriptors ::
    "('k, 't, 'w) pdEnv \<Rightarrow> bytes \<Rightarrow> ('k, 't, 'w) pdServer \<Rightarrow> error + RangeDescriptor list" where
  "getRangeDescriptors V key s =
     (let c = region s
      in if length key \<noteq> 0 then bindE (rdc_Lookup (pT V) key c) (\<lambda>a. Inr [rdHeap c ! a])
         else Inr (map (\<lambda>a. rdHeap c ! a) (rdc_Iterate (pT V) c)))"

definition setRangeDescriptors ::
    "('k, 't, 'w) pdEnv \<Rightarrow> RangeDescriptor list \<Rightarrow> (('k, 't, 'w) pdServer, error, unit) op" where
  "setRangeDescriptors V rds =
     (case putOps (pMarshalRange V) (\<lambda>rd. newRangeKey (RangeID rd)) rds of
        Inl err \<Rightarrow> fail err
      | Inr ops \<Rightarrow> bindM (masterPut V ops) (\<lambda>_. onRegion (rdc_Add (pT V) rds)))"

definition addSystemRangeDescriptor ::
    "('k, 't, 'w) pdEnv \<Rightarrow> int32 \<Rightarrow> (('k, 't, 'w) pdServer, error, unit) op" where
  "addSystemRangeDescriptor V nid =
     (let rp = \<lparr>RepNodeID = nid, RepReplicaID = nid\<rparr>
      in setRangeDescriptors V [\<lparr>RangeID = scast nid, StartKey = NewKey [SystemPrefix, fmt_d (sint nid)],
           EndKey = NewKey [SystemPrefix, fmt_d (sint (nid + 1))], Replicas = [rp, rp, rp]\<rparr>])"

fun decodeRanges :: "(bytes \<Rightarrow> error + RangeDescriptor) \<Rightarrow> (bytes \<times> bytes) list \<Rightarrow> error + RangeDescriptor list" where
  "decodeRanges unmarshal [] = Inr []"
| "decodeRanges unmarshal ((k, v) # kvs) =
     bindE (unmarshal v) (\<lambda>rd. bindE (decodeRanges unmarshal kvs) (\<lambda>rds. Inr (rd # rds)))"

definition loadRangeDescriptors :: "('k, 't, 'w) pdEnv \<Rightarrow> (('k, 't, 'w) pdServer, error, unit) op" where
  "loadRangeDescriptors V =
     bindM (onKv (getValues (pE V) (newRangeKey 0) True)) (\<lambda>kvs.
       case kvs of
         None \<Rightarrow> bindM (getDefaultRanges V) (setRangeDescriptors V)
       | Some kvs \<Rightarrow>
           (case decodeRanges (pUnmarshalRange V) kvs of
              Inl err \<Rightarrow> fail err
            | Inr rds \<Rightarrow> onRegion (rdc_Add (pT V) rds)))"

subsection \<open>Sending to nodes\<close>

definition errSendFail :: error where "errSendFail = Errorf ''send batch request failed''"

abbreviation (input) nilDeref :: error where "nilDeref \<equiv> Panic ''nil pointer dereference''"

definition pdRetryOptions :: Options where "pdRetryOptions = \<lparr>MaxRetries = 20\<rparr>"

definition nodeAddr :: "int32 \<Rightarrow> ('k, 't, 'w) pdServer \<Rightarrow> error + string" where
  "nodeAddr nid s =
     (case map_of (nodes (pcluster s)) nid of
        None \<Rightarrow> Inl nilDeref
      | Some a \<Rightarrow> Inr (Address (nodeDesc (nodeHeap (pcluster s) ! a))))"

definition getNodeClient :: "('k, 't, 'w) pdEnv \<Rightarrow> string \<Rightarrow> (('k, 't, 'w) pdServer, error, unit) op" where
  "getNodeClient V host s =
     (if host \<in> set (nodeClients s) then (Inr (), s)
      else bindM (onWorld (pDial V host)) (\<lambda>_ s. (Inr (), s\<lparr>nodeClients := host # nodeClients s\<rparr>)) s)"

definition closeNodeClient :: "string \<Rightarrow> ('k, 't, 'w) pdServer \<Rightarrow> ('k, 't, 'w) pdServer" where
  "closeNodeClient host s = s\<lparr>nodeClients := removeAll host (nodeClients s)\<rparr>"

text \<open>
  A round of the loop: \<^const>\<open>Some\<close> leaves it. The log messages dereference the entry of the node, which may
  be missing. The descriptor is a pointer \<open>a\<close>, read again in every round.
\<close>

definition nextNode :: "int32 \<Rightarrow> nat \<Rightarrow> ('k, 't, 'w) pdServer \<Rightarrow> int32" where
  "nextNode nid a s = GetNextNodeID (rdHeap (region s) ! a) nid"

definition answered ::
    "nat \<Rightarrow> int32 \<Rightarrow> BatchResponse \<Rightarrow> ('k, 't, 'w) pdServer
       \<Rightarrow> (error + BatchResponse) option \<times> int32 \<times> ('k, 't, 'w) pdServer" where
  "answered a nid br s =
     (case RespError (BRespHeader br) of
        None \<Rightarrow>
          (case onRegion (AdjustLeader (RangeID (rdHeap (region s) ! a)) nid) s of
             (Inl err, s) \<Rightarrow> (Some (Inl err), nid, s)
           | (Inr _, s) \<Rightarrow> (Some (Inr br), nid, s))
      | Some e \<Rightarrow>
          (case GoError e of
             RangeNotFoundError r \<Rightarrow>
               (let nid = nextNode nid a s
                in case nodeAddr nid s of Inl err \<Rightarrow> (Some (Inl err), nid, s) | Inr _ \<Rightarrow> (None, nid, s))
           | NotLeaderError l \<Rightarrow> (None, if sint l \<le> 0 then nextNode l a s else l, s)
           | e \<Rightarrow> (Some (Inl e), nid, s)))"

definition leaderRound ::
    "('k, 't, 'w) pdEnv \<Rightarrow> BatchRequest \<Rightarrow> nat \<Rightarrow> int32 \<times> ('k, 't, 'w) pdServer
       \<Rightarrow> (error + BatchResponse) option \<times> int32 \<times> ('k, 't, 'w) pdServer" where
  "leaderRound V breq a st =
     (case st of (nid, s) \<Rightarrow>
        (case nodeAddr nid s of
           Inl err \<Rightarrow> (Some (Inl err), nid, s)
         | Inr addr \<Rightarrow>
             (case getNodeClient V addr s of
                (Inl err, s) \<Rightarrow> (Some (Inl errSendFail), nid, s)
              | (Inr _, s) \<Rightarrow>
                  (case onWorld (pNodeMessage V addr breq) s of
                     (Inl err, s) \<Rightarrow> (None, nextNode nid a s, closeNodeClient addr s)
                   | (Inr br, s) \<Rightarrow> answered a nid br s))))"

definition sendBatchRequestToLeader ::
    "('k, 't, 'w) pdEnv \<Rightarrow> BatchRequest \<Rightarrow> nat \<Rightarrow> (('k, 't, 'w) pdServer, error, BatchResponse) op" where
  "sendBatchRequestToLeader V breq a s =
     (case Replicas (rdHeap (region s) ! a) of
        [] \<Rightarrow> (Inl (Panic ''index out of range''), s)
      | rp # _ \<Rightarrow>
          (case retryFor 22 (Start pdRetryOptions) (leaderRound V breq a) (RepNodeID rp, s) of
             (None, _, s) \<Rightarrow> (Inl Diverges, s)
           | (Some None, _, s) \<Rightarrow> (Inl errSendFail, s)
           | (Some (Some r), _, s) \<Rightarrow> (r, s)))"

definition nodeRound ::
    "('k, 't, 'w) pdEnv \<Rightarrow> BatchRequest \<Rightarrow> int32 \<Rightarrow> ('k, 't, 'w) pdServer
       \<Rightarrow> (error + BatchResponse) option \<times> ('k, 't, 'w) pdServer" where
  "nodeRound V breq nid s =
     (case nodeAddr nid s of
        Inl err \<Rightarrow> (Some (Inl err), s)
      | Inr addr \<Rightarrow>
          (case getNodeClient V addr s of
             (Inl err, s) \<Rightarrow> (None, s)
           | (Inr _, s) \<Rightarrow>
               (case onWorld (pNodeMessage V addr breq) s of
                  (Inl err, s) \<Rightarrow> (None, closeNodeClient addr s)
                | (Inr br, s) \<Rightarrow> (case RespError (BRespHeader br) of None \<Rightarrow> (Some (Inr br), s) | Some _ \<Rightarrow> (None, s)))))"

definition sendBatchRequest ::
    "('k, 't, 'w) pdEnv \<Rightarrow> BatchRequest \<Rightarrow> int32 \<Rightarrow> (('k, 't, 'w) pdServer, error, BatchResponse) op" where
  "sendBatchRequest V breq nid s =
     (case retryFor 22 (Start pdRetryOptions) (nodeRound V breq nid) s of
        (None, s) \<Rightarrow> (Inl Diverges, s)
      | (Some None, s) \<Rightarrow> (Inl errSendFail, s)
      | (Some (Some r), s) \<Rightarrow> (r, s))"

subsection \<open>Replicas of a range\<close>

definition header :: "bytes \<Rightarrow> bytes \<Rightarrow> int64 \<Rightarrow> int32 \<Rightarrow> RequestHeader" where
  "header key stop rid flag = zero_header\<lparr>HKey := key, HEndKey := stop, HRangeID := rid, HFlag := flag\<rparr>"

definition batchOf :: "Request \<Rightarrow> BatchRequest" where
  "batchOf req = Add [req] \<lparr>BHeader = Header req, Req = [], PusheeTxn = []\<rparr>"

definition updateRangeDescriptor ::
    "('k, 't, 'w) pdEnv \<Rightarrow> RangeDescriptor \<Rightarrow> nat \<Rightarrow> (('k, 't, 'w) pdServer, error, unit) op" where
  "updateRangeDescriptor V nrd a =
     bindM (sendBatchRequestToLeader V
              (batchOf (UpdateRangeRequest (header (StartKey nrd) (EndKey nrd) (RangeID nrd) IsWriteFlag) nrd)) a)
       (\<lambda>_. ret ())"

definition rangeNotExist :: error where "rangeNotExist = Errorf ''range ID not exist''"
definition replicaNotExist :: error where "replicaNotExist = Errorf ''replica already not exist''"

definition server_addReplica :: "('k, 't, 'w) pdEnv \<Rightarrow> int64 \<Rightarrow> int32 \<Rightarrow> (('k, 't, 'w) pdServer, error, unit) op" where
  "server_addReplica V rid nid s =
     (case getRangeDescriptor rid s of
        Inl err \<Rightarrow> (Inl rangeNotExist, s)
      | Inr a \<Rightarrow>
          (let rd = (\<lambda>s. rdHeap (region s) ! a); h = header (StartKey (rd s)) (EndKey (rd s)) rid
           in bindM (sendBatchRequestToLeader V (batchOf (AddRaftConfRequest (h IsSystemFlag) nid)) a) (\<lambda>_ s.
              case sendBatchRequestToLeader V (batchOf (CompactLogRequest (h IsLeaderFlag))) a s of (compacted, s) \<Rightarrow>
                (case compacted of
                   Inl (Panic p) \<Rightarrow> (Inl (Panic p), s)
                 | _ \<Rightarrow> bindM (sendBatchRequest V (batchOf (CreateReplicaRequest (h IsSystemFlag) (rd s) nid)) nid) (\<lambda>_ s.
                      let nrd = (rd s)\<lparr>Replicas := Replicas (rd s) @ [\<lparr>RepNodeID = nid, RepReplicaID = 0\<rparr>]\<rparr>
                      in bindM (updateRangeDescriptor V nrd a) (\<lambda>_. setRangeDescriptors V [nrd]) s) s)) s))"

definition server_deleteReplica :: "('k, 't, 'w) pdEnv \<Rightarrow> int64 \<Rightarrow> int32 \<Rightarrow> (('k, 't, 'w) pdServer, error, unit) op" where
  "server_deleteReplica V rid nid s =
     (case getRangeDescriptor rid s of
        Inl err \<Rightarrow> (Inl rangeNotExist, s)
      | Inr a \<Rightarrow>
          (let rd = rdHeap (region s) ! a; h = header (StartKey rd) (EndKey rd) rid;
               repls = filter (\<lambda>rp. RepNodeID rp \<noteq> nid) (Replicas rd)
           in if \<not> (\<exists>rp \<in> set (Replicas rd). RepNodeID rp = nid) then (Inl replicaNotExist, s)
              else bindM (sendBatchRequest V (batchOf (RemoveReplicaRequest (h IsSystemFlag) nid)) nid) (\<lambda>_.
                   bindM (sendBatchRequestToLeader V (batchOf (DeleteRaftConfRequest (h IsLeaderFlag) nid)) a) (\<lambda>_ s.
                     let nrd = (rdHeap (region s) ! a)\<lparr>Replicas := repls\<rparr>
                     in bindM (updateRangeDescriptor V nrd a) (\<lambda>_. setRangeDescriptors V [nrd]) s)) s))"

definition server_transferLeader ::
    "('k, 't, 'w) pdEnv \<Rightarrow> int64 \<Rightarrow> int32 \<Rightarrow> int32 \<Rightarrow> (('k, 't, 'w) pdServer, error, unit) op" where
  "server_transferLeader V rid src dst s =
     (case getRangeDescriptor rid s of
        Inl err \<Rightarrow> (Inl rangeNotExist, s)
      | Inr a \<Rightarrow>
          (let rd = rdHeap (region s) ! a; ids = RepNodeID ` set (Replicas rd)
           in if src \<notin> ids \<or> dst \<notin> ids then (Inl replicaNotExist, s)
              else bindM (sendBatchRequestToLeader V
                     (batchOf (TransferLeaderRequest (header (StartKey rd) (EndKey rd) rid IsLeaderFlag) src dst)) a)
                     (\<lambda>_. ret ()) s))"

subsection \<open>Requests\<close>

text \<open>
  A handler returns a response and an error, which are both set when it fails. Every error has been
  traced when \<^verbatim>\<open>NewError\<close> sees it, or has no detail, so only its text is sent.
\<close>

type_synonym reply = "Response option \<times> error option"

definition errHeader :: "error \<Rightarrow> ResponseHeader" where
  "errHeader err = zero_resp\<lparr>RespError := Some (GenericError err)\<rparr>"

definition answer :: "('a \<Rightarrow> Response) \<Rightarrow> (ResponseHeader \<Rightarrow> Response) \<Rightarrow> ('s, error, 'a) op \<Rightarrow> ('s, error, reply) op" where
  "answer good bad m s =
     (case m s of
        (Inl (Panic p), s) \<Rightarrow> (Inl (Panic p), s)
      | (Inl err, s) \<Rightarrow> (Inr (Some (bad (errHeader err)), Some err), s)
      | (Inr x, s) \<Rightarrow> (Inr (Some (good x), None), s))"

definition handleGetTimestamp :: "(tso \<Rightarrow> tso) \<Rightarrow> (('k, 't, 'w) pdServer, error, reply) op" where
  "handleGetTimestamp sched =
     answer (\<lambda>t. GetTimestampResponse (zero_resp\<lparr>RespTimestamp := t\<rparr>)) GetTimestampResponse
       (\<lambda>s. case getTimestamp sched (tsoState s) of (x, p) \<Rightarrow> (x, s\<lparr>tsoState := p\<rparr>))"

definition handleGetNewID :: "('k, 't, 'w) pdEnv \<Rightarrow> (('k, 't, 'w) pdServer, error, reply) op" where
  "handleGetNewID V =
     answer (GetNewIDResponse zero_resp) (\<lambda>h. GetNewIDResponse h 0) (server_newID V)"

definition handleGetRangeDescriptors ::
    "('k, 't, 'w) pdEnv \<Rightarrow> RequestHeader \<Rightarrow> (('k, 't, 'w) pdServer, error, reply) op" where
  "handleGetRangeDescriptors V h =
     answer (GetRangeDescriptorsResponse zero_resp) (\<lambda>h. GetRangeDescriptorsResponse h [])
       (\<lambda>s. (getRangeDescriptors V (HKey h) s, s))"

definition handleSetRangeDescriptors ::
    "('k, 't, 'w) pdEnv \<Rightarrow> RangeDescriptor list \<Rightarrow> (('k, 't, 'w) pdServer, error, reply) op" where
  "handleSetRangeDescriptors V rds =
     answer (\<lambda>_. SetRangeDescriptorsResponse zero_resp) SetRangeDescriptorsResponse (setRangeDescriptors V rds)"

definition handleGetNodeDescriptors ::
    "('k, 't, 'w) pdEnv \<Rightarrow> int32 list \<Rightarrow> (('k, 't, 'w) pdServer, error, reply) op" where
  "handleGetNodeDescriptors V nids s =
     (Inr (Some (GetNodeDescriptorsResponse zero_resp (getNodes (pOrdNodes V) nids (pcluster s))), None), s)"

definition handleSetNodeDescriptors ::
    "('k, 't, 'w) pdEnv \<Rightarrow> NodeDescriptor list \<Rightarrow> (('k, 't, 'w) pdServer, error, reply) op" where
  "handleSetNodeDescriptors V nds =
     answer (\<lambda>_. SetNodeDescriptorsResponse zero_resp) SetNodeDescriptorsResponse (setNodes V nds)"

definition handleGetRangeStats ::
    "('k, 't, 'w) pdEnv \<Rightarrow> int64 list \<Rightarrow> (('k, 't, 'w) pdServer, error, reply) op" where
  "handleGetRangeStats V rids s =
     (Inr (Some (GetRangeStatsResponse zero_resp (getRangeStats (pOrdNodes V) (pOrdStats V) rids (pcluster s))), None), s)"

definition handleSetRangeStats :: "RangeStatsInfo list \<Rightarrow> (('k, 't, 'w) pdServer, error, reply) op" where
  "handleSetRangeStats rss s =
     (Inr (Some (SetRangeStatsResponse zero_resp), None), s\<lparr>pcluster := cluster_setRangeStats rss (pcluster s)\<rparr>)"

definition handleGetNodeStats ::
    "('k, 't, 'w) pdEnv \<Rightarrow> int32 list \<Rightarrow> (('k, 't, 'w) pdServer, error, reply) op" where
  "handleGetNodeStats V nids s =
     (Inr (Some (GetNodeStatsResponse zero_resp (getNodeStats (pOrdNodes V) nids (pcluster s))), None), s)"

definition handleSetNodeStats :: "NodeStatsInfo \<Rightarrow> (('k, 't, 'w) pdServer, error, reply) op" where
  "handleSetNodeStats ns s =
     (Inr (Some (SetNodeStatsResponse zero_resp), None), s\<lparr>pcluster := setNodeStats ns (pcluster s)\<rparr>)"

text \<open>\<^verbatim>\<open>LoadConfig\<close> reads the file into the configuration and, unlike \<^verbatim>\<open>NewServer\<close>, does not check it.\<close>

definition server_LoadConfig :: "('k, 't, 'w) pdEnv \<Rightarrow> string \<Rightarrow> (('k, 't, 'w) pdServer, error, unit) op" where
  "server_LoadConfig V path = bindM (onWorld (pLoadConfig V path)) (\<lambda>c s. (Inr (), s\<lparr>cfg := c\<rparr>))"

definition handleLoadPdConf :: "('k, 't, 'w) pdEnv \<Rightarrow> string \<Rightarrow> (('k, 't, 'w) pdServer, error, reply) op" where
  "handleLoadPdConf V path = answer (\<lambda>_. LoadPdConfResponse zero_resp) LoadPdConfResponse (server_LoadConfig V path)"

definition handleCreateReplica :: "(('k, 't, 'w) pdServer, error, reply) op" where
  "handleCreateReplica s = (Inr (Some (CreateReplicaResponse zero_resp), None), s)"

definition handleRemoveReplica ::
    "('k, 't, 'w) pdEnv \<Rightarrow> RequestHeader \<Rightarrow> int32 \<Rightarrow> (('k, 't, 'w) pdServer, error, reply) op" where
  "handleRemoveReplica V h nid =
     answer (\<lambda>_. RemoveReplicaResponse zero_resp) RemoveReplicaResponse (server_deleteReplica V (HRangeID h) nid)"

definition handleTransferLeader ::
    "('k, 't, 'w) pdEnv \<Rightarrow> RequestHeader \<Rightarrow> int32 \<Rightarrow> int32 \<Rightarrow> (('k, 't, 'w) pdServer, error, reply) op" where
  "handleTransferLeader V h src dst =
     answer (\<lambda>_. TransferLeaderResponse zero_resp) TransferLeaderResponse (server_transferLeader V (HRangeID h) src dst)"

definition bootstrapNode ::
    "('k, 't, 'w) pdEnv \<Rightarrow> string \<Rightarrow> int64 \<Rightarrow> ('k, 't, 'w) pdServer
       \<Rightarrow> (NodeDescriptor \<times> (error + unit)) \<times> ('k, 't, 'w) pdServer" where
  "bootstrapNode V addr capacity s =
     (case getNodeByAddr addr (pcluster s) of
        Inr nd \<Rightarrow> ((nd, Inr ()), s)
      | Inl err \<Rightarrow>
          if err = cacheErrNotFound
          then (case newNodeDescriptor V addr capacity s of
                  ((nd, Inl err), s) \<Rightarrow> ((nd, Inl err), s)
                | ((nd, Inr _), s) \<Rightarrow> (case addSystemRangeDescriptor V (NodeID nd) s of (r, s) \<Rightarrow> ((nd, r), s)))
          else ((zero_node, Inl err), s))"

definition handleBootstrap ::
    "('k, 't, 'w) pdEnv \<Rightarrow> string \<Rightarrow> int64 \<Rightarrow> (('k, 't, 'w) pdServer, error, reply) op" where
  "handleBootstrap V addr capacity s =
     (case bootstrapNode V addr capacity s of
        ((nd, Inl (Panic p)), s) \<Rightarrow> (Inl (Panic p), s)
      | ((nd, Inl err), s) \<Rightarrow> (Inr (Some (BootstrapResponse (errHeader err) nd), Some err), s)
      | ((nd, Inr _), s) \<Rightarrow> (Inr (Some (BootstrapResponse zero_resp nd), None), s))"

definition notMaster :: error where "notMaster = Errorf ''server is not master, please try again''"
definition notReady :: error where "notReady = Errorf ''server is not ready, please try again''"
definition noRequestType :: error where "noRequestType = Errorf ''no found request type''"

definition server_executeCmd ::
    "('k, 't, 'w) pdEnv \<Rightarrow> (tso \<Rightarrow> tso) \<Rightarrow> Request option \<Rightarrow> (('k, 't, 'w) pdServer, error, reply) op" where
  "server_executeCmd V sched inner s =
     (if \<not> checkIsMaster (tsoState s) then (Inr (None, Some notMaster), s)
      else if \<not> checkIsReady (tsoState s) then (Inr (None, Some notReady), s)
      else case inner of
        Some (GetTimestampRequest h) \<Rightarrow> handleGetTimestamp sched s
      | Some (GetRangeDescriptorsRequest h) \<Rightarrow> handleGetRangeDescriptors V h s
      | Some (SetRangeDescriptorsRequest h rds) \<Rightarrow> handleSetRangeDescriptors V rds s
      | Some (GetNodeDescriptorsRequest h nids) \<Rightarrow> handleGetNodeDescriptors V nids s
      | Some (SetNodeDescriptorsRequest h nds) \<Rightarrow> handleSetNodeDescriptors V nds s
      | Some (GetRangeStatsRequest h rids) \<Rightarrow> handleGetRangeStats V rids s
      | Some (SetRangeStatsRequest h rss) \<Rightarrow> handleSetRangeStats rss s
      | Some (GetNodeStatsRequest h nids) \<Rightarrow> handleGetNodeStats V nids s
      | Some (SetNodeStatsRequest h ns) \<Rightarrow> handleSetNodeStats ns s
      | Some (GetNewIDRequest h) \<Rightarrow> handleGetNewID V s
      | Some (LoadPdConfRequest h path) \<Rightarrow> handleLoadPdConf V path s
      | Some (CreateReplicaRequest h rd nid) \<Rightarrow> handleCreateReplica s
      | Some (RemoveReplicaRequest h nid) \<Rightarrow> handleRemoveReplica V h nid s
      | Some (TransferLeaderRequest h src dst) \<Rightarrow> handleTransferLeader V h src dst s
      | Some (BootstrapRequest h addr capacity) \<Rightarrow> handleBootstrap V addr capacity s
      | _ \<Rightarrow> (Inr (None, Some noRequestType), s))"

text \<open>\<^verbatim>\<open>NodeMessage\<close> goes on after a failed request; the header has the last error.\<close>

fun messageLoop ::
    "('k, 't, 'w) pdEnv \<Rightarrow> (tso \<Rightarrow> tso) \<Rightarrow> Request option list \<Rightarrow> BatchResponse
       \<Rightarrow> (('k, 't, 'w) pdServer, error, BatchResponse) op" where
  "messageLoop V sched [] br = ret br"
| "messageLoop V sched (req # reqs) br =
     bindM (server_executeCmd V sched req) (\<lambda>(resp, err).
       let br = (case err of None \<Rightarrow> br
                 | Some e \<Rightarrow> br\<lparr>BRespHeader := (BRespHeader br)\<lparr>RespError := Some (GenericError e)\<rparr>\<rparr>);
           br = (case resp of None \<Rightarrow> br | Some r \<Rightarrow> br\<lparr>Resp := Resp br @ [r]\<rparr>)
       in messageLoop V sched reqs br)"

definition server_NodeMessage ::
    "('k, 't, 'w) pdEnv \<Rightarrow> (tso \<Rightarrow> tso) \<Rightarrow> BatchRequest \<Rightarrow> (('k, 't, 'w) pdServer, error, BatchResponse) op" where
  "server_NodeMessage V sched ba = messageLoop V sched (Req ba) zero_bresp"

subsection \<open>Becoming the master\<close>

text \<open>\<^verbatim>\<open>campaignAndRunMaster\<close> up to its loop; when it fails, its deferred calls have run.\<close>

definition startMaster ::
    "('k, 't, 'w) pdEnv \<Rightarrow> ('k pd \<Rightarrow> 'k pd) \<Rightarrow> (nat \<Rightarrow> int) \<Rightarrow> bytes \<Rightarrow> (('k, 't, 'w) pdServer, error, unit) op" where
  "startMaster V sched clock master s =
     (case bindM (onWorld (pGrant V)) (\<lambda>_.
           bindM (onOracle (campaign (pE V) master)) (\<lambda>_.
           bindM (onWorld (pKeepAlive V)) (\<lambda>_ s.
           bindM (onOracle (loadTimestamp (pFuel V) (pE V) sched (sint (TsSaveInterval (cfg s))) clock)) (\<lambda>_.
           bindM (loadRangeDescriptors V) (\<lambda>_.
           loadNodes V)) s))) s of
        (Inl err, s) \<Rightarrow> (Inl err, s\<lparr>tsoState := resign (tsoState s)\<rparr>)
      | (Inr _, s) \<Rightarrow> (Inr (), s\<lparr>tsoState := setIsReady True (tsoState s)\<rparr>))"

text \<open>A round of \<^verbatim>\<open>masterLoop\<close>; another master is watched until its key is deleted.\<close>

definition masterRound ::
    "('k, 't, 'w) pdEnv \<Rightarrow> ('k pd \<Rightarrow> 'k pd) \<Rightarrow> (nat \<Rightarrow> int) \<Rightarrow> (('k, 't, 'w) pdServer, error, unit) op" where
  "masterRound V sched clock s =
     (let s = s\<lparr>tsoState := setIsReady False (setIsMaster False (tsoState s))\<rparr>
      in bindM (onOracle (getMaster (pE V))) (\<lambda>master s.
           let s = (if master \<noteq> [] \<and> master \<noteq> masterValue (tsoState s) then s\<lparr>net := pWatch V (net s)\<rparr> else s)
           in startMaster V sched clock master s) s)"

text \<open>The loop of \<^verbatim>\<open>campaignAndRunMaster\<close>: a tick, and its other exits.\<close>

definition masterTick :: "('k, 't, 'w) pdEnv \<Rightarrow> int \<Rightarrow> (('k, 't, 'w) pdServer, error, unit) op" where
  "masterTick V t s =
     (case onOracle (saveTimestamp (pE V) (sint (TsSaveInterval (cfg s))) t) s of
        (Inl err, s) \<Rightarrow> (Inl err, s\<lparr>tsoState := resign (tsoState s)\<rparr>)
      | (Inr _, s) \<Rightarrow> (Inr (), s))"

definition masterStop :: "('k, 't, 'w) pdServer \<Rightarrow> ('k, 't, 'w) pdServer" where
  "masterStop s = s\<lparr>tsoState := resign (tsoState s)\<rparr>"

subsection \<open>Splitting ranges\<close>

definition checkSplitNeeded :: "('k, 't, 'w) pdEnv \<Rightarrow> RangeStatsInfo \<Rightarrow> uint64 \<Rightarrow> uint32 \<Rightarrow> bool" where
  "checkSplitNeeded V r capacity threshold \<longleftrightarrow>
     IsRaftLeader r \<and> \<not> IsRemoved r \<and> sint (TotalBytes r) > sint (pScale V capacity threshold)"

definition server_getSplitKey ::
    "('k, 't, 'w) pdEnv \<Rightarrow> RangeStatsInfo \<Rightarrow> (('k, 't, 'w) pdServer, error, bytes \<times> int64 \<times> int64) op" where
  "server_getSplitKey V rsi s =
     (case getRangeDescriptor (StatRangeID rsi) s of
        Inl err \<Rightarrow> (Inl err, s)
      | Inr a \<Rightarrow>
          bindM (sendBatchRequestToLeader V
                   (batchOf (GetSplitKeyRequest (header (StartKey (rdHeap (region s) ! a)) [] (StatRangeID rsi) IsReadFlag)
                      (word_of_int (if sint (TotalBytes rsi) < 0 then - ((- sint (TotalBytes rsi)) div 2)
                                    else sint (TotalBytes rsi) div 2)))) a)
            (\<lambda>br. case Resp br of
                [] \<Rightarrow> fail (Panic ''index out of range'')
              | GetSplitKeyResponse _ k b c # _ \<Rightarrow> ret (k, b, c)
              | _ \<Rightarrow> fail nilDeref) s)"

definition requestSplit ::
    "('k, 't, 'w) pdEnv \<Rightarrow> RangeStatsInfo \<Rightarrow> bytes \<Rightarrow> int64 \<Rightarrow> int64 \<Rightarrow> (('k, 't, 'w) pdServer, error, unit) op" where
  "requestSplit V rsi key sz num =
     bindM (\<lambda>s. case server_newID V s of
              (Inl (Panic p), s) \<Rightarrow> (Inl (Panic p), s)
            | (Inl err, s) \<Rightarrow> (Inl (Errorf ''get new rangeID failed''), s)
            | (Inr i, s) \<Rightarrow> (Inr i, s)) (\<lambda>i s.
       case getRangeDescriptor (StatRangeID rsi) s of
         Inl err \<Rightarrow> (Inl err, s)
       | Inr a \<Rightarrow>
           bindM (sendBatchRequestToLeader V
                    (batchOf (SplitRequest (header key [] (StatRangeID rsi) IsWriteFlag) i key sz num)) a) (\<lambda>br.
             case Resp br of
               [] \<Rightarrow> fail (Panic ''index out of range'')
             | SplitResponse _ rds # _ \<Rightarrow>
                 (if length rds < 2 then fail (Panic ''index out of range'')
                  else bindM (updateRangeDescriptor V (rds ! 1) a) (\<lambda>_. setRangeDescriptors V [rds ! 1, rds ! 0]))
             | _ \<Rightarrow> fail nilDeref) s)"

definition checkRangeSplit :: "('k, 't, 'w) pdEnv \<Rightarrow> RangeStatsInfo \<Rightarrow> (('k, 't, 'w) pdServer, error, unit) op" where
  "checkRangeSplit V r s =
     (if checkSplitNeeded V r (RangeCapacity (cfg s)) (RangeSplitThreshold (cfg s))
      then bindM (server_getSplitKey V r) (\<lambda>(k, b, c). requestSplit V r k b c) s
      else (Inr (), s))"

text \<open>Ranges whose split failed are left alone for a while.\<close>

definition maxRetryInterval :: int where "maxRetryInterval = 60000000000"

definition now :: "('k, 't, 'w) pdEnv \<Rightarrow> ('k, 't, 'w) pdServer \<Rightarrow> int \<times> ('k, 't, 'w) pdServer" where
  "now V s = (case pNow V (net s) of (t, w) \<Rightarrow> (t, s\<lparr>net := w\<rparr>))"

definition newDelayRecord :: "int \<Rightarrow> delayRecord" where
  "newDelayRecord t = \<lparr>delayTimeout = t + 1000000000, delayInterval = 1000000000\<rparr>"

definition delayValid :: "int \<Rightarrow> delayRecord \<Rightarrow> bool" where
  "delayValid t d \<longleftrightarrow> \<not> t - delayTimeout d > 0"

definition delayNext :: "int \<Rightarrow> delayRecord \<Rightarrow> delayRecord" where
  "delayNext t d =
     (let i = delayInterval d * 2; i = (if i > maxRetryInterval then maxRetryInterval else i)
      in d\<lparr>delayInterval := i, delayTimeout := t + i\<rparr>)"

definition checkDelayRecord :: "('k, 't, 'w) pdEnv \<Rightarrow> RangeStatsInfo \<Rightarrow> (('k, 't, 'w) pdServer, error, bool) op" where
  "checkDelayRecord V rs s =
     (case map_of (delays s) (StatRangeID rs) of
        None \<Rightarrow> (Inr False, s)
      | Some d \<Rightarrow>
          (case now V s of (t, s) \<Rightarrow>
             if delayValid t d then (Inr True, s)
             else (case checkRangeSplit V rs s of
                     (Inl (Panic p), s) \<Rightarrow> (Inl (Panic p), s)
                   | (Inl err, s) \<Rightarrow>
                       (case now V s of (t, s) \<Rightarrow>
                          (Inr True, s\<lparr>delays := AList.update (StatRangeID rs) (delayNext t d) (delays s)\<rparr>))
                   | (Inr _, s) \<Rightarrow> (Inr True, s\<lparr>delays := AList.delete (StatRangeID rs) (delays s)\<rparr>))))"

fun checkSplitLoop :: "('k, 't, 'w) pdEnv \<Rightarrow> RangeStatsInfo list \<Rightarrow> (('k, 't, 'w) pdServer, error, unit) op" where
  "checkSplitLoop V [] = ret ()"
| "checkSplitLoop V (rs # rss) =
     bindM (checkDelayRecord V rs) (\<lambda>delayed s.
       if delayed then checkSplitLoop V rss s
       else case checkRangeSplit V rs s of
              (Inl (Panic p), s) \<Rightarrow> (Inl (Panic p), s)
            | (Inl err, s) \<Rightarrow>
                (case now V s of (t, s) \<Rightarrow>
                   checkSplitLoop V rss (s\<lparr>delays := AList.update (StatRangeID rs) (newDelayRecord t) (delays s)\<rparr>))
            | (Inr _, s) \<Rightarrow> checkSplitLoop V rss s)"

text \<open>The statistics are those at the start of the loop.\<close>

definition checkSplit :: "('k, 't, 'w) pdEnv \<Rightarrow> (('k, 't, 'w) pdServer, error, unit) op" where
  "checkSplit V s =
     checkSplitLoop V (concat (map (\<lambda>ns. pOrdStats V (NSRangeStats ns)) (getNodeStats (pOrdNodes V) [] (pcluster s)))) s"

subsection \<open>Placing replicas\<close>

definition pdMinReplica :: nat where "pdMinReplica = 3"

text \<open>Nodes for the missing replicas of a range that has replicas on \<open>nids\<close>.\<close>

fun chooseReplicas ::
    "('k, 't, 'w) pdEnv \<Rightarrow> nat \<Rightarrow> int32 list \<Rightarrow> (('k, 't, 'w) pdServer, error, ReplicaDescriptor list) op" where
  "chooseReplicas V 0 nids = ret []"
| "chooseReplicas V (Suc missing) nids =
     (\<lambda>s. case getIdleNode (pOrdNodes V) nids (pcluster s) of
        Inl err \<Rightarrow> (Inl err, s)
      | Inr n \<Rightarrow>
          bindM (server_newID V) (\<lambda>i.
            bindM (chooseReplicas V missing (nids @ [NodeID n])) (\<lambda>reps.
              ret (\<lparr>RepNodeID = NodeID n, RepReplicaID = ucast i\<rparr> # reps))) s)"

fun createReplicas ::
    "('k, 't, 'w) pdEnv \<Rightarrow> nat \<Rightarrow> ReplicaDescriptor list \<Rightarrow> ('k, 't, 'w) pdServer \<Rightarrow> ('k, 't, 'w) pdServer" where
  "createReplicas V a [] s = s"
| "createReplicas V a (rep # reps) s =
     createReplicas V a reps (snd (onWorld (pCreateReplica V (RepNodeID rep) (rdHeap (region s) ! a)) s))"

fun replicaLoop :: "('k, 't, 'w) pdEnv \<Rightarrow> nat list \<Rightarrow> (('k, 't, 'w) pdServer, error, unit) op" where
  "replicaLoop V [] = ret ()"
| "replicaLoop V (a # as) =
     (\<lambda>s. let nids = map RepNodeID (Replicas (rdHeap (region s) ! a))
          in case chooseReplicas V (pdMinReplica - length nids) nids s of
               (Inl err, s) \<Rightarrow> (Inl err, s)
             | (Inr reps, s) \<Rightarrow>
                 (let s = s\<lparr>region := setReplicas a (Replicas (rdHeap (region s) ! a) @ reps) (region s)\<rparr>;
                      s = createReplicas V a reps s
                  in case setRangeDescriptors V [rdHeap (region s) ! a] s of
                       (Inl (Panic p), s) \<Rightarrow> (Inl (Panic p), s)
                     | (_, s) \<Rightarrow> replicaLoop V as s))"

text \<open>\<^verbatim>\<open>checkReplica\<close>; its errors are only logged, which the caller of the model does.\<close>

definition checkReplica :: "('k, 't, 'w) pdEnv \<Rightarrow> (('k, 't, 'w) pdServer, error, unit) op" where
  "checkReplica V s =
     (if count (pcluster s) < pdMinReplica then (Inr (), s)
      else bindM (if storeOpen s then ret () else bindM (onWorld (pOpen V)) (\<lambda>_ s. (Inr (), s\<lparr>storeOpen := True\<rparr>)))
             (\<lambda>_ s. replicaLoop V (rdc_Unstable (pOrdRanges V) (region s)) s) s)"

text \<open>A tick of \<^verbatim>\<open>checkLoop\<close>.\<close>

definition checkTick :: "('k, 't, 'w) pdEnv \<Rightarrow> (('k, 't, 'w) pdServer, error, unit) op" where
  "checkTick V s =
     bindM (if RangeSplitType (cfg s) \<noteq> splitTypeManual then checkSplit V else ret ()) (\<lambda>_ s.
       case checkReplica V s of (Inl (Panic p), s) \<Rightarrow> (Inl (Panic p), s) | (_, s) \<Rightarrow> (Inr (), s)) s"

subsection \<open>A new server\<close>

definition NewServer :: "('k, 't, 'w) pdEnv \<Rightarrow> pdConfig \<Rightarrow> bytes \<Rightarrow> 'k \<Rightarrow> 'w \<Rightarrow> ('k, 't, 'w) pdServer" where
  "NewServer V c mv k w =
     \<lparr>cfg = config_check c,
      tsoState = \<lparr>masterValue = mv, isMaster = False, isReady = False, objects = [], ts = None, lastSavedTime = 0\<rparr>,
      pcluster = newCluster, region = NewRangeDescriptorCache (pT V) pdMinReplica, delays = [], nodeClients = [],
      storeOpen = False, etcdKv = k, net = w\<rparr>"

end
