(* ===== verification/PdInv.thy ===== *)
theory PdInv
  imports Pd
begin

text \<open>
  The well-formedness of a placement driver's state, kept by every operation: the maps of nodes and
  hosts point to nodes with the right id, the three tables of ranges agree, and no range it has known is
  forgotten.
\<close>

section \<open>Well-formed states\<close>

definition cluster_wf :: "pdCluster \<Rightarrow> bool" where
  "cluster_wf c \<longleftrightarrow> distinct (map fst (nodes c)) \<and> distinct (map fst (hosts c)) \<and>
     (\<forall>i a. map_of (nodes c) i = Some a \<longrightarrow> a < length (nodeHeap c) \<and> NodeID (nodeDesc (nodeHeap c ! a)) = i) \<and>
     (\<forall>h a. map_of (hosts c) h = Some a \<longrightarrow> a < length (nodeHeap c))"

definition pd_wf :: "('t \<Rightarrow> bytes \<rightharpoonup> nat) \<Rightarrow> ('t \<Rightarrow> bool) \<Rightarrow> ('k, 't, 'w) pdServer \<Rightarrow> bool" where
  "pd_wf view ok s \<longleftrightarrow> cluster_wf (pcluster s) \<and> rdc_wf view ok (region s) \<and> distinct (map fst (delays s))"

text \<open>What no operation takes back.\<close>

definition pd_kept ::
    "('t \<Rightarrow> bytes \<rightharpoonup> nat) \<Rightarrow> ('t \<Rightarrow> bool) \<Rightarrow> ('k, 't, 'w) pdServer \<Rightarrow> ('k, 't, 'w) pdServer \<Rightarrow> bool" where
  "pd_kept view ok s s' \<longleftrightarrow>
     (pd_wf view ok s \<longrightarrow> pd_wf view ok s' \<and> rdc_grows (region s) (region s') \<and>
        dom (map_of (nodes (pcluster s))) \<subseteq> dom (map_of (nodes (pcluster s'))))"

lemma pd_kept_refl: "pd_kept view ok s s"
  by (simp add: pd_kept_def rdc_grows_refl)

lemma pd_kept_trans: "pd_kept view ok s t \<Longrightarrow> pd_kept view ok t u \<Longrightarrow> pd_kept view ok s u"
  unfolding pd_kept_def by (meson rdc_grows_trans subset_trans)

text \<open>Operations that leave the nodes, the ranges and the delays alone.\<close>

lemma pd_kept_same:
  "pcluster s' = pcluster s \<Longrightarrow> region s' = region s \<Longrightarrow> delays s' = delays s \<Longrightarrow> pd_kept view ok s s'"
  by (simp add: pd_kept_def pd_wf_def rdc_grows_refl)

section \<open>The cluster\<close>

lemma addNode1_wf:
  assumes "cluster_wf c"
  shows "cluster_wf (addNode1 nd c) \<and> dom (map_of (nodes c)) \<subseteq> dom (map_of (nodes (addNode1 nd c)))"
proof -
  let ?i = "NodeID nd" and ?n = "length (nodeHeap c)" and ?e = "\<lparr>nodeDesc = nd, nodeStats = zero_stats\<rparr>"
  define h where "h = (case map_of (nodes c) ?i of None \<Rightarrow> nodeHeap c
    | Some a \<Rightarrow> (nodeHeap c)[a := (nodeHeap c ! a)\<lparr>nodeDesc := nd\<rparr>])"
  have len: "length h = ?n" by (simp add: h_def split: option.splits)
  have ids: "NodeID (nodeDesc (h ! a)) = i \<and> a < ?n" if "map_of (nodes c) i = Some a" for i a
  proof -
    have w: "b < ?n \<and> NodeID (nodeDesc (nodeHeap c ! b)) = j" if "map_of (nodes c) j = Some b" for j b
      using assms that unfolding cluster_wf_def by blast
    show ?thesis
    proof (cases "map_of (nodes c) ?i")
      case (Some b)
      then show ?thesis using w [OF that] w [OF Some] by (cases "b = a") (simp_all add: h_def)
    qed (use w [OF that] in \<open>simp add: h_def\<close>)
  qed
  have eq: "addNode1 nd c = c\<lparr>nodeHeap := h @ [?e], nodes := AList.update ?i ?n (nodes c), hosts := AList.update (Address nd) ?n (hosts c)\<rparr>"
    by (simp add: addNode1_def h_def Let_def split: option.splits)
  have hs: "a < ?n" if "map_of (hosts c) x = Some a" for x a using assms that by (auto simp: cluster_wf_def)
  have "NodeID (nodeDesc ((h @ [?e]) ! a)) = i \<and> a < Suc ?n" if "map_of (AList.update ?i ?n (nodes c)) i = Some a" for i a
    using that ids [of i a] by (cases "i = ?i") (auto simp: update_conv' nth_append len)
  moreover have "a < Suc ?n" if "map_of (AList.update (Address nd) ?n (hosts c)) x = Some a" for x a
    using that hs [of x a] by (cases "x = Address nd") (auto simp: update_conv')
  ultimately show ?thesis
    using assms by (auto simp: cluster_wf_def eq len distinct_update update_conv')
qed

lemma addNodeCache_wf:
  "cluster_wf c \<Longrightarrow> cluster_wf (addNodeCache nds c) \<and> dom (map_of (nodes c)) \<subseteq> dom (map_of (nodes (addNodeCache nds c)))"
proof (induction nds arbitrary: c)
  case (Cons nd nds)
  note one = addNode1_wf [OF Cons.prems, of nd]
  have eq: "addNodeCache (nd # nds) c = addNodeCache nds (addNode1 nd c)" by (simp add: addNodeCache_def)
  note IH = Cons.IH [OF one [THEN conjunct1]]
  show ?case unfolding eq
    using IH subset_trans [OF one [THEN conjunct2] IH [THEN conjunct2]] by blast
qed (simp add: addNodeCache_def)

text \<open>Statistics are replaced inside a node.\<close>

lemma stats_update_wf:
  assumes "cluster_wf c" "NodeID (nodeDesc n) = NodeID (nodeDesc (nodeHeap c ! a))"
  shows "cluster_wf (c\<lparr>nodeHeap := (nodeHeap c)[a := n]\<rparr>)"
proof -
  have "NodeID (nodeDesc ((nodeHeap c)[a := n] ! b)) = NodeID (nodeDesc (nodeHeap c ! b))" if "b < length (nodeHeap c)" for b
    using assms(2) that by (cases "b = a") auto
  with assms(1) show ?thesis by (simp add: cluster_wf_def)
qed

lemma setNodeStats_wf: "cluster_wf c \<Longrightarrow> cluster_wf (setNodeStats ns c) \<and> nodes (setNodeStats ns c) = nodes c"
  using stats_update_wf [of c] by (auto simp: setNodeStats_def split: option.splits)

lemma cluster_setRangeStats_wf: "cluster_wf c \<Longrightarrow> cluster_wf (cluster_setRangeStats rss c) \<and> nodes (cluster_setRangeStats rss c) = nodes c"
proof (induction rss arbitrary: c)
  case (Cons rs rss)
  show ?case
  proof (cases "map_of (nodes c) (StatNodeID rs)")
    case None
    then show ?thesis using Cons by simp
  next
    case (Some a)
    define c1 where "c1 = (let n = nodeHeap c ! a; ns = nodeStats n
      in c\<lparr>nodeHeap := (nodeHeap c)[a := n\<lparr>nodeStats := ns\<lparr>NSRangeStats := (NSRangeStats ns)(StatRangeID rs \<mapsto> rs)\<rparr>\<rparr>]\<rparr>)"
    have "cluster_wf c1" "nodes c1 = nodes c" using stats_update_wf [OF Cons.prems] by (simp_all add: c1_def Let_def)
    with Cons.IH [of c1] Some show ?thesis by (simp add: c1_def)
  qed
qed simp

section \<open>Operations\<close>

lemma retryFor_steps:
  assumes "\<And>s. R s (snd (body s))" "\<And>s. R s s" "\<And>s t u. R s t \<Longrightarrow> R t u \<Longrightarrow> R s u"
  shows "R s (snd (retryFor n r body s))"
proof (induction n arbitrary: r s)
  case (Suc n)
  obtain go r' where nx: "Next False r = (go, r')" by (cases "Next False r")
  obtain x s1 where b: "body s = (x, s1)" by (cases "body s")
  have "R s s1" using assms(1) [of s] b by simp
  with Suc.IH [of s1 r'] nx b assms(2,3) show ?case by (cases x) (auto split: prod.splits)
qed (simp add: assms(2))

sublocale range_tree \<subseteq> pk: frame "pd_kept view ok"
  by unfold_locales (rule pd_kept_refl, erule (1) pd_kept_trans)

lemma always_snd: "always R m \<Longrightarrow> R s (snd (m s))"
  by (simp add: always_def)

lemma always_fun: "(\<And>s. always R (f s)) \<Longrightarrow> always R (\<lambda>s. f s s)"
  by (simp add: always_def)

lemma kept_outside [frame_intros]:
  "always (pd_kept view ok) (onKv m1)" "always (pd_kept view ok) (onWorld m2)" "always (pd_kept view ok) (onOracle m3)"
  by (auto intro!: alwaysI pd_kept_same simp: onKv_def onWorld_def onOracle_def split: prod.splits)

lemma kept_masterPut [frame_intros]: "always (pd_kept view ok) (masterPut V ops)"
  by (rule alwaysI) (simp add: masterPut_def kept_outside(1) [unfolded always_def, rule_format])

lemma kept_newID [frame_intros]: "always (pd_kept view ok) (server_newID V)"
  unfolding server_newID_def by (rule kept_outside)

lemma kept_cluster:
  assumes "cluster_wf (pcluster s) \<Longrightarrow> cluster_wf c \<and> dom (map_of (nodes (pcluster s))) \<subseteq> dom (map_of (nodes c))"
  shows "pd_kept view ok s (s\<lparr>pcluster := c\<rparr>)"
  using assms by (auto simp: pd_kept_def pd_wf_def rdc_grows_refl)

context range_tree
begin

lemma kept_region:
  assumes "rdc_wf view ok (region s) \<Longrightarrow> rdc_wf view ok c \<and> rdc_grows (region s) c"
  shows "pd_kept view ok s (s\<lparr>region := c\<rparr>)"
  using assms by (auto simp: pd_kept_def pd_wf_def)

lemma kept_Add: "always (pd_kept view ok) (onRegion (rdc_Add T rds))"
proof (rule alwaysI)
  fix s :: "('k, 't, 'w) pdServer"
  obtain r c where a: "rdc_Add T rds (region s) = (r, c)" by (cases "rdc_Add T rds (region s)")
  then show "pd_kept view ok s (snd (onRegion (rdc_Add T rds) s))"
    using rdc_Add_tables [of "region s" rds] kept_region [of s c] by (auto simp: onRegion_def)
qed

lemma kept_AdjustLeader: "always (pd_kept view ok) (onRegion (AdjustLeader rid nid))"
proof (rule alwaysI)
  fix s :: "('k, 't, 'w) pdServer"
  obtain r c where a: "AdjustLeader rid nid (region s) = (r, c)" by (cases "AdjustLeader rid nid (region s)")
  then show "pd_kept view ok s (snd (onRegion (AdjustLeader rid nid) s))"
    using AdjustLeader_kept [of "region s" rid nid r c] kept_region [of s c] by (auto simp: onRegion_def)
qed

end

locale pd_env = range_tree "pT V" view ok
  for V :: "('k, 't, 'w) pdEnv" and view :: "'t \<Rightarrow> bytes \<rightharpoonup> nat" and ok :: "'t \<Rightarrow> bool"
begin

lemma kept_setNodes [frame_intros]: "always (pd_kept view ok) (setNodes V nds)"
proof -
  have "always (pd_kept view ok) (\<lambda>s. (Inr (), s\<lparr>pcluster := addNodeCache nds (pcluster s)\<rparr>))"
    by (rule alwaysI) (simp add: kept_cluster addNodeCache_wf)
  then show ?thesis unfolding setNodes_def by (intro frame_intros pk.always_bind pk.always_fail)
qed

lemma kept_decodeNodes [frame_intros]: "always (pd_kept view ok) (decodeNodes V nd kvs)"
proof (rule alwaysI)
  fix s
  show "pd_kept view ok s (snd (decodeNodes V nd kvs s))"
  proof (induction kvs arbitrary: nd s)
    case (Cons kv kvs)
    obtain k v where kv: "kv = (k, v)" by (cases kv)
    show ?case
    proof (cases "pUnmarshalNode V v nd")
      case (Inr nd')
      let ?s = "s\<lparr>pcluster := addNodeCache [nd'] (pcluster s)\<rparr>"
      have "pd_kept view ok s ?s" by (rule kept_cluster) (rule addNodeCache_wf)
      then show ?thesis using pd_kept_trans Cons.IH by (simp add: kv Inr) blast
    qed (simp add: kv pd_kept_refl)
  qed (simp add: pd_kept_refl)
qed

lemma kept_loadNodes [frame_intros]: "always (pd_kept view ok) (loadNodes V)"
  unfolding loadNodes_def by (intro frame_intros pk.always_bind pk.always_ret)

lemma kept_setRangeDescriptors [frame_intros]: "always (pd_kept view ok) (setRangeDescriptors V rds)"
  unfolding setRangeDescriptors_def by (intro frame_intros pk.always_bind pk.always_fail kept_Add)

lemma kept_addSystemRangeDescriptor [frame_intros]: "always (pd_kept view ok) (addSystemRangeDescriptor V nid)"
  unfolding addSystemRangeDescriptor_def Let_def by (intro frame_intros)

lemma kept_defaultRangesLoop [frame_intros]: "always (pd_kept view ok) (defaultRangesLoop V i n)"
  by (induction n arbitrary: i) (auto intro!: frame_intros pk.always_bind pk.always_ret)

lemma kept_loadRangeDescriptors [frame_intros]: "always (pd_kept view ok) (loadRangeDescriptors V)"
  unfolding loadRangeDescriptors_def getDefaultRanges_def
  by (intro frame_intros pk.always_bind pk.always_fail kept_Add)

lemma kept_getNodeClient [frame_intros]: "always (pd_kept view ok) (getNodeClient V host)"
proof (rule alwaysI)
  fix s :: "('k, 't, 'w) pdServer"
  have one: "always (pd_kept view ok) (\<lambda>s. (Inr (), s\<lparr>nodeClients := host # nodeClients s\<rparr>))"
    by (rule alwaysI) (simp add: pd_kept_same)
  have "always (pd_kept view ok) (bindM (onWorld (pDial V host)) (\<lambda>_ (s :: ('k, 't, 'w) pdServer). (Inr (), s\<lparr>nodeClients := host # nodeClients s\<rparr>)))"
    by (intro frame_intros pk.always_bind one)
  from always_snd [OF this, of s] show "pd_kept view ok s (snd (getNodeClient V host s))"
    unfolding getNodeClient_def by (cases "host \<in> set (nodeClients s)") (simp_all add: pd_kept_refl)
qed

lemma kept_closeNodeClient: "pd_kept view ok s (closeNodeClient host s)"
  by (rule pd_kept_same) (simp_all add: closeNodeClient_def)

lemma kept_answered: "pd_kept view ok s (snd (snd (answered a nid br s)))"
proof -
  obtain r s' where a: "onRegion (AdjustLeader (RangeID (rdHeap (region s) ! a)) nid) s = (r, s')" by fastforce
  have "pd_kept view ok s s'" by (rule alwaysD [OF kept_AdjustLeader a])
  then show ?thesis
    by (auto simp: answered_def a pd_kept_refl Let_def split: option.splits sum.splits error.splits)
qed

lemma kept_leaderRound: "pd_kept view ok (snd st) (snd (snd (leaderRound V breq a st)))"
proof -
  obtain nid s where st: "st = (nid, s)" by (cases st)
  show ?thesis
  proof (cases "nodeAddr nid s")
    case (Inr addr)
    obtain r1 s1 where g: "getNodeClient V addr s = (r1, s1)" by fastforce
    obtain r2 s2 where m: "onWorld (pNodeMessage V addr breq) s1 = (r2, s2)" by fastforce
    note k = alwaysD [OF kept_getNodeClient g] pd_kept_trans [OF alwaysD [OF kept_getNodeClient g] alwaysD [OF kept_outside(2) m]]
    show ?thesis
      using k pd_kept_trans [OF k(2) kept_closeNodeClient] pd_kept_trans [OF k(2) kept_answered]
      by (simp add: leaderRound_def st Inr g m split: sum.splits)
  qed (simp add: leaderRound_def st pd_kept_refl)
qed

lemma kept_nodeRound: "pd_kept view ok s (snd (nodeRound V breq nid s))"
proof (cases "nodeAddr nid s")
  case (Inr addr)
  obtain r1 s1 where g: "getNodeClient V addr s = (r1, s1)" by fastforce
  obtain r2 s2 where m: "onWorld (pNodeMessage V addr breq) s1 = (r2, s2)" by fastforce
  note k = alwaysD [OF kept_getNodeClient g] pd_kept_trans [OF alwaysD [OF kept_getNodeClient g] alwaysD [OF kept_outside(2) m]]
  show ?thesis
    using k pd_kept_trans [OF k(2) kept_closeNodeClient]
    by (simp add: nodeRound_def Inr g m split: sum.splits option.splits)
qed (simp add: nodeRound_def pd_kept_refl)

lemma kept_sendToLeader [frame_intros]: "always (pd_kept view ok) (sendBatchRequestToLeader V breq a)"
proof (rule alwaysI)
  fix s
  have "pd_kept view ok (snd st) (snd (snd (retryFor n r (leaderRound V breq a) st)))" for n r st
    by (rule retryFor_steps [where R = "\<lambda>st st'. pd_kept view ok (snd st) (snd st')"])
      (rule kept_leaderRound, rule pd_kept_refl, erule (1) pd_kept_trans)
  from this [of "(i, s)" for i, unfolded snd_conv]
  show "pd_kept view ok s (snd (sendBatchRequestToLeader V breq a s))"
    by (auto simp: sendBatchRequestToLeader_def pd_kept_refl split: list.splits prod.splits option.splits) (metis snd_conv)+
qed

lemma kept_send [frame_intros]: "always (pd_kept view ok) (sendBatchRequest V breq nid)"
proof (rule alwaysI)
  fix s
  have "pd_kept view ok s (snd (retryFor 22 (Start pdRetryOptions) (nodeRound V breq nid) s))"
    by (rule retryFor_steps) (rule kept_nodeRound, rule pd_kept_refl, erule (1) pd_kept_trans)
  then show "pd_kept view ok s (snd (sendBatchRequest V breq nid s))"
    by (auto simp: sendBatchRequest_def split: prod.splits option.splits)
qed

lemma kept_catch:
  assumes "always (pd_kept view ok) m" "\<And>r s'. pd_kept view ok s' (snd (k r s'))"
  shows "pd_kept view ok s (snd (case m s of (r, s') \<Rightarrow> k r s'))"
proof -
  obtain r s' where m: "m s = (r, s')" by fastforce
  show ?thesis using pd_kept_trans [OF alwaysD [OF assms(1) m] assms(2)] by (simp add: m)
qed

lemma kept_updateRangeDescriptor [frame_intros]: "always (pd_kept view ok) (updateRangeDescriptor V nrd a)"
  unfolding updateRangeDescriptor_def by (intro frame_intros pk.always_bind pk.always_ret)

lemma kept_publish:
  "always (pd_kept view ok) (bindM (updateRangeDescriptor V nrd a) (\<lambda>_. setRangeDescriptors V rds))"
  by (intro frame_intros pk.always_bind)

lemma kept_addReplica [frame_intros]: "always (pd_kept view ok) (server_addReplica V rid nid)"
proof (rule alwaysI)
  fix s
  have last: "always (pd_kept view ok) (\<lambda>s. let nrd = (rdHeap (region s) ! a)\<lparr>Replicas := f s\<rparr>
      in bindM (updateRangeDescriptor V nrd a) (\<lambda>_. setRangeDescriptors V [nrd]) s)" for a f
    unfolding Let_def by (rule always_fun) (rule kept_publish)
  have mid: "always (pd_kept view ok) (\<lambda>s. case sendBatchRequestToLeader V b1 a s of (compacted, s) \<Rightarrow>
      (case compacted of Inl (Panic p) \<Rightarrow> (Inl (Panic p), s)
       | _ \<Rightarrow> bindM (sendBatchRequest V (b2 s) nid) (\<lambda>_ s. let nrd = (rdHeap (region s) ! a)\<lparr>Replicas := f s\<rparr>
                in bindM (updateRangeDescriptor V nrd a) (\<lambda>_. setRangeDescriptors V [nrd]) s) s))" for b1 b2 a f
    by (rule alwaysI, rule kept_catch [OF kept_sendToLeader])
      (auto split: sum.splits error.splits intro!: pd_kept_refl always_snd [OF pk.always_bind [OF kept_send last]])
  show "pd_kept view ok s (snd (server_addReplica V rid nid s))"
    unfolding server_addReplica_def Let_def
    by (auto split: sum.split intro!: pd_kept_refl always_snd [OF pk.always_bind [OF kept_sendToLeader mid [unfolded Let_def]]])
qed

lemma kept_deleteReplica [frame_intros]: "always (pd_kept view ok) (server_deleteReplica V rid nid)"
proof (rule alwaysI)
  fix s
  have last: "always (pd_kept view ok) (\<lambda>s. let nrd = (rdHeap (region s) ! a)\<lparr>Replicas := reps\<rparr>
      in bindM (updateRangeDescriptor V nrd a) (\<lambda>_. setRangeDescriptors V [nrd]) s)" for a reps
    unfolding Let_def by (rule always_fun) (rule kept_publish)
  note all = always_snd [OF pk.always_bind [OF kept_send pk.always_bind [OF kept_sendToLeader last]]]
  show "pd_kept view ok s (snd (server_deleteReplica V rid nid s))"
    unfolding server_deleteReplica_def Let_def
    by (auto split: sum.split intro!: pd_kept_refl all [unfolded Let_def])
qed

lemma kept_transferLeader [frame_intros]: "always (pd_kept view ok) (server_transferLeader V rid src dst)"
proof (rule alwaysI)
  fix s
  show "pd_kept view ok s (snd (server_transferLeader V rid src dst s))"
    unfolding server_transferLeader_def
    by (cases "getRangeDescriptor rid s")
      (simp_all add: pd_kept_refl Let_def always_snd [OF pk.always_bind [OF kept_sendToLeader pk.always_ret]])
qed

lemma kept_answer [frame_intros]: "always (pd_kept view ok) m \<Longrightarrow> always (pd_kept view ok) (answer good bad m)"
  unfolding answer_def
  by (rule alwaysI, rule kept_catch, assumption) (auto simp: pd_kept_refl split: sum.splits error.splits)

lemma kept_cfg: "always (pd_kept view ok) (\<lambda>s. (Inr (), s\<lparr>cfg := c\<rparr>))"
  by (rule alwaysI) (simp add: pd_kept_same)

lemma kept_bootstrapNode: "pd_kept view ok s (snd (bootstrapNode V addr capacity s))"
proof (cases "getNodeByAddr addr (pcluster s)")
  case (Inl err)
  obtain nd r s1 where n: "newNodeDescriptor V addr capacity s = ((nd, r), s1)" by (metis surj_pair)
  obtain i s0 where i: "server_newID V s = (i, s0)" by fastforce
  note i1 = alwaysD [OF kept_newID i]
  have "pd_kept view ok s s1"
  proof (cases i)
    case (Inr v)
    obtain r' s2 where "setNodes V [\<lparr>NodeID = ucast v, Address = addr, Capacity = capacity\<rparr>] s0 = (r', s2)" by fastforce
    from pd_kept_trans [OF i1 alwaysD [OF kept_setNodes this]] this show ?thesis
      using n by (simp add: newNodeDescriptor_def i Inr Let_def)
  qed (use n i1 in \<open>simp add: newNodeDescriptor_def i\<close>)
  with pd_kept_trans [OF this always_snd [OF kept_addSystemRangeDescriptor]] show ?thesis
    by (simp add: bootstrapNode_def Inl n pd_kept_refl split: sum.splits prod.splits)
      (metis snd_conv)
qed (simp add: bootstrapNode_def pd_kept_refl)

lemma kept_handlers [frame_intros]:
  "always (pd_kept view ok) (handleGetTimestamp sched)"
  "always (pd_kept view ok) (handleGetNewID V)"
  "always (pd_kept view ok) (handleGetRangeDescriptors V h)"
  "always (pd_kept view ok) (handleSetRangeDescriptors V rds)"
  "always (pd_kept view ok) (handleGetNodeDescriptors V nids)"
  "always (pd_kept view ok) (handleSetNodeDescriptors V nds)"
  "always (pd_kept view ok) (handleGetRangeStats V rids)"
  "always (pd_kept view ok) (handleSetRangeStats rss)"
  "always (pd_kept view ok) (handleGetNodeStats V nids)"
  "always (pd_kept view ok) (handleSetNodeStats ns)"
  "always (pd_kept view ok) (handleLoadPdConf V path)"
  "always (pd_kept view ok) handleCreateReplica"
  "always (pd_kept view ok) (handleRemoveReplica V h nid)"
  "always (pd_kept view ok) (handleTransferLeader V h src dst)"
  "always (pd_kept view ok) (handleBootstrap V addr capacity)"
proof -
  have read: "always (pd_kept view ok) (\<lambda>s. (f s, s))" for f
    by (rule alwaysI) (simp add: pd_kept_refl)
  have clock: "always (pd_kept view ok) (\<lambda>s. case getTimestamp sched (tsoState s) of (x, p) \<Rightarrow> (x, s\<lparr>tsoState := p\<rparr>))"
    by (rule alwaysI) (simp add: pd_kept_same split: prod.splits)
  show "always (pd_kept view ok) (handleGetTimestamp sched)"
    unfolding handleGetTimestamp_def by (rule kept_answer [OF clock])
  show "always (pd_kept view ok) (handleGetRangeDescriptors V h)"
    unfolding handleGetRangeDescriptors_def by (rule kept_answer [OF read])
  show "always (pd_kept view ok) (handleSetRangeStats rss)" "always (pd_kept view ok) (handleSetNodeStats ns)"
    unfolding handleSetRangeStats_def handleSetNodeStats_def
    by (rule alwaysI, simp, rule kept_cluster, use cluster_setRangeStats_wf setNodeStats_wf in fastforce)+
  show "always (pd_kept view ok) (handleLoadPdConf V path)"
    unfolding handleLoadPdConf_def server_LoadConfig_def
    by (intro frame_intros pk.always_bind kept_cfg)
  show "always (pd_kept view ok) (handleBootstrap V addr capacity)"
  proof (rule alwaysI)
    fix s
    show "pd_kept view ok s (snd (handleBootstrap V addr capacity s))"
      using kept_bootstrapNode [of s addr capacity]
      by (auto simp: handleBootstrap_def split: prod.splits sum.splits error.splits)
  qed
qed (auto simp: handleGetNewID_def handleSetRangeDescriptors_def handleSetNodeDescriptors_def handleRemoveReplica_def
  handleTransferLeader_def handleGetNodeDescriptors_def handleGetRangeStats_def handleGetNodeStats_def handleCreateReplica_def
  intro!: frame_intros alwaysI [of "pd_kept view ok" "handleGetNodeDescriptors V nids"] alwaysI [of "pd_kept view ok" "handleGetRangeStats V rids"]
    alwaysI [of "pd_kept view ok" "handleGetNodeStats V nids"] alwaysI [of "pd_kept view ok" "handleCreateReplica"] pd_kept_refl)

lemma kept_executeCmd [frame_intros]: "always (pd_kept view ok) (server_executeCmd V sched inner)"
proof (rule alwaysI)
  fix s
  show "pd_kept view ok s (snd (server_executeCmd V sched inner s))"
    unfolding server_executeCmd_def
    by (simp add: pd_kept_refl always_snd [OF kept_handlers(1)] always_snd [OF kept_handlers(2)] always_snd [OF kept_handlers(3)]
      always_snd [OF kept_handlers(4)] always_snd [OF kept_handlers(5)] always_snd [OF kept_handlers(6)] always_snd [OF kept_handlers(7)]
      always_snd [OF kept_handlers(8)] always_snd [OF kept_handlers(9)] always_snd [OF kept_handlers(10)] always_snd [OF kept_handlers(11)]
      always_snd [OF kept_handlers(12)] always_snd [OF kept_handlers(13)] always_snd [OF kept_handlers(14)] always_snd [OF kept_handlers(15)]
      split: option.split Request.split)
qed

lemma kept_messageLoop [frame_intros]: "always (pd_kept view ok) (messageLoop V sched reqs br)"
proof (induction reqs arbitrary: br)
  case (Cons req reqs)
  then show ?case by (simp, intro frame_intros pk.always_bind) (auto intro: Cons)
qed (simp add: pk.always_ret)

lemma kept_NodeMessage: "always (pd_kept view ok) (server_NodeMessage V sched ba)"
  unfolding server_NodeMessage_def by (rule kept_messageLoop)

lemma kept_tso: "pd_kept view ok s (s\<lparr>tsoState := p\<rparr>)"
  by (rule pd_kept_same) simp_all

lemma kept_startMaster: "always (pd_kept view ok) (startMaster V sched clock master)"
proof (rule alwaysI)
  fix s
  have load: "always (pd_kept view ok) (\<lambda>s :: ('k, 't, 'w) pdServer.
      bindM (onOracle (loadTimestamp (pFuel V) (pE V) sched (sint (TsSaveInterval (cfg s))) clock)) (\<lambda>_.
      bindM (loadRangeDescriptors V) (\<lambda>_. loadNodes V)) s)"
    by (rule always_fun) (intro frame_intros pk.always_bind)
  have "always (pd_kept view ok) (bindM (onWorld (pGrant V)) (\<lambda>_. bindM (onOracle (campaign (pE V) master)) (\<lambda>_.
      bindM (onWorld (pKeepAlive V)) (\<lambda>_ (s :: ('k, 't, 'w) pdServer).
      bindM (onOracle (loadTimestamp (pFuel V) (pE V) sched (sint (TsSaveInterval (cfg s))) clock)) (\<lambda>_.
      bindM (loadRangeDescriptors V) (\<lambda>_. loadNodes V)) s))))"
    by (intro frame_intros pk.always_bind load)
  then show "pd_kept view ok s (snd (startMaster V sched clock master s))"
    unfolding startMaster_def by (rule kept_catch) (auto simp: kept_tso split: sum.splits)
qed

lemma kept_getSplitKey [frame_intros]: "always (pd_kept view ok) (server_getSplitKey V rsi)"
proof (rule alwaysI)
  fix s
  have "always (pd_kept view ok) (case Resp br of [] \<Rightarrow> fail (Panic ''index out of range'')
      | GetSplitKeyResponse _ k b c # _ \<Rightarrow> ret (k, b, c) | _ \<Rightarrow> fail nilDeref)" for br
    by (auto intro: pk.always_ret pk.always_fail split: list.split Response.split)
  note all = always_snd [OF pk.always_bind [OF kept_sendToLeader this]]
  show "pd_kept view ok s (snd (server_getSplitKey V rsi s))"
    unfolding server_getSplitKey_def by (cases "getRangeDescriptor (StatRangeID rsi) s") (auto intro: pd_kept_refl all)
qed

lemma kept_requestSplit [frame_intros]: "always (pd_kept view ok) (requestSplit V rsi key sz num)"
proof -
  have new: "always (pd_kept view ok) (\<lambda>s. case server_newID V s of
              (Inl (Panic p), s) \<Rightarrow> (Inl (Panic p), s)
            | (Inl err, s) \<Rightarrow> (Inl (Errorf ''get new rangeID failed''), s)
            | (Inr i, s) \<Rightarrow> (Inr i, s))"
    by (rule alwaysI, rule kept_catch [OF kept_newID]) (auto simp: pd_kept_refl split: sum.splits error.splits)
  have "always (pd_kept view ok) (case Resp br of
               [] \<Rightarrow> fail (Panic ''index out of range'')
             | SplitResponse _ rds # _ \<Rightarrow>
                 (if length rds < 2 then fail (Panic ''index out of range'')
                  else bindM (updateRangeDescriptor V (rds ! 1) a) (\<lambda>_. setRangeDescriptors V [rds ! 1, rds ! 0]))
             | _ \<Rightarrow> fail nilDeref)" for br a
    by (auto intro!: pk.always_fail kept_publish split: list.split Response.split)
  note all = always_snd [OF pk.always_bind [OF kept_sendToLeader this]]
  show ?thesis
    unfolding requestSplit_def
    by (rule pk.always_bind [OF new], rule alwaysI) (auto split: sum.split intro!: pd_kept_refl all)
qed

lemma kept_checkRangeSplit [frame_intros]: "always (pd_kept view ok) (checkRangeSplit V r)"
proof (rule alwaysI)
  fix s
  have "always (pd_kept view ok) (bindM (server_getSplitKey V r) (\<lambda>(k, b, c). requestSplit V r k b c))"
    by (intro frame_intros pk.always_bind)
  from always_snd [OF this, of s] show "pd_kept view ok s (snd (checkRangeSplit V r s))"
    by (simp add: checkRangeSplit_def pd_kept_refl)
qed

lemma kept_delays:
  "pd_kept view ok s (s\<lparr>delays := AList.update k d (delays s)\<rparr>)" "pd_kept view ok s (s\<lparr>delays := AList.delete k (delays s)\<rparr>)"
  by (simp_all add: pd_kept_def pd_wf_def rdc_grows_refl distinct_update distinct_delete)

lemma kept_now: "pd_kept view ok s (snd (now V s))"
  by (auto simp: now_def pd_kept_same split: prod.splits)

lemma kept_checkDelayRecord [frame_intros]: "always (pd_kept view ok) (checkDelayRecord V rs)"
proof (rule alwaysI)
  fix s
  show "pd_kept view ok s (snd (checkDelayRecord V rs s))"
  proof (cases "map_of (delays s) (StatRangeID rs)")
    case (Some d)
    obtain t s1 where t: "now V s = (t, s1)" by fastforce
    obtain r s2 where c: "checkRangeSplit V rs s1 = (r, s2)" by fastforce
    obtain t' s3 where t': "now V s2 = (t', s3)" by fastforce
    have k1: "pd_kept view ok s s1" using kept_now [of s] t by simp
    have k2: "pd_kept view ok s s2" by (rule pd_kept_trans [OF k1 alwaysD [OF kept_checkRangeSplit c]])
    have k3: "pd_kept view ok s s3" using pd_kept_trans [OF k2 kept_now [of s2]] t' by simp
    show ?thesis
      using k1 k2 pd_kept_trans [OF k3 kept_delays(1)] pd_kept_trans [OF k2 kept_delays(2)]
      by (auto simp: checkDelayRecord_def Some t c t' split: sum.splits error.splits)
  qed (simp add: checkDelayRecord_def pd_kept_refl)
qed

lemma kept_checkSplitLoop: "always (pd_kept view ok) (checkSplitLoop V rss)"
proof (induction rss)
  case (Cons rs rss)
  have "always (pd_kept view ok) (\<lambda>s. if delayed then checkSplitLoop V rss s
       else case checkRangeSplit V rs s of
              (Inl (Panic p), s) \<Rightarrow> (Inl (Panic p), s)
            | (Inl err, s) \<Rightarrow>
                (case now V s of (t, s) \<Rightarrow>
                   checkSplitLoop V rss (s\<lparr>delays := AList.update (StatRangeID rs) (newDelayRecord t) (delays s)\<rparr>))
            | (Inr _, s) \<Rightarrow> checkSplitLoop V rss s)" for delayed
  proof (rule alwaysI)
    fix s
    obtain r s2 where c: "checkRangeSplit V rs s = (r, s2)" by fastforce
    obtain t s3 where t: "now V s2 = (t, s3)" by fastforce
    have k2: "pd_kept view ok s s2" by (rule alwaysD [OF kept_checkRangeSplit c])
    have k3: "pd_kept view ok s s3" using pd_kept_trans [OF k2 kept_now [of s2]] t by simp
    note rest = always_snd [OF Cons.IH]
    show "pd_kept view ok s (snd (if delayed then checkSplitLoop V rss s
       else case checkRangeSplit V rs s of
              (Inl (Panic p), s) \<Rightarrow> (Inl (Panic p), s)
            | (Inl err, s) \<Rightarrow>
                (case now V s of (t, s) \<Rightarrow>
                   checkSplitLoop V rss (s\<lparr>delays := AList.update (StatRangeID rs) (newDelayRecord t) (delays s)\<rparr>))
            | (Inr _, s) \<Rightarrow> checkSplitLoop V rss s))"
      using k2 rest [of s] pd_kept_trans [OF k2 rest [of s2]] pd_kept_trans [OF pd_kept_trans [OF k3 kept_delays(1)] rest]
      by (auto simp: c t split: sum.splits error.splits)
  qed
  then show ?case by (simp, intro frame_intros pk.always_bind)
qed (simp only: checkSplitLoop.simps pk.always_ret)

lemma kept_chooseReplicas: "always (pd_kept view ok) (chooseReplicas V missing nids)"
proof (induction missing arbitrary: nids)
  case (Suc missing)
  show ?case
  proof (rule alwaysI)
    fix s
    note all = always_snd [OF pk.always_bind [OF kept_newID pk.always_bind [OF Suc pk.always_ret]]]
    show "pd_kept view ok s (snd (chooseReplicas V (Suc missing) nids s))"
      by (auto split: sum.split intro!: pd_kept_refl all)
  qed
qed (simp only: chooseReplicas.simps pk.always_ret)

lemma kept_createReplicas: "pd_kept view ok s (createReplicas V a reps s)"
proof (induction reps arbitrary: s)
  case (Cons rep reps)
  show ?case by (simp add: pd_kept_trans [OF always_snd [OF kept_outside(2)] Cons.IH])
qed (simp add: pd_kept_refl)

lemma kept_replicaLoop: "always (pd_kept view ok) (replicaLoop V as)"
proof (induction as)
  case (Cons a as)
  show ?case
  proof (rule alwaysI)
    fix s :: "('k, 't, 'w) pdServer"
    let ?nids = "map RepNodeID (Replicas (rdHeap (region s) ! a))"
    obtain r s1 where c: "chooseReplicas V (pdMinReplica - length ?nids) ?nids s = (r, s1)" by fastforce
    have k1: "pd_kept view ok s s1" by (rule alwaysD [OF kept_chooseReplicas c])
    show "pd_kept view ok s (snd (replicaLoop V (a # as) s))"
    proof (cases r)
      case (Inr reps)
      define s2 where "s2 = s1\<lparr>region := setReplicas a (Replicas (rdHeap (region s1) ! a) @ reps) (region s1)\<rparr>"
      define s3 where "s3 = createReplicas V a reps s2"
      obtain r' s4 where p: "setRangeDescriptors V [rdHeap (region s3) ! a] s3 = (r', s4)" by fastforce
      have "pd_kept view ok s1 s2" unfolding s2_def by (rule kept_region) (simp add: setReplicas_kept)
      then have "pd_kept view ok s s2" by (rule pd_kept_trans [OF k1])
      then have "pd_kept view ok s s3" unfolding s3_def by (rule pd_kept_trans [OF _ kept_createReplicas])
      then have k4: "pd_kept view ok s s4" by (rule pd_kept_trans [OF _ alwaysD [OF kept_setRangeDescriptors p]])
      have eq: "replicaLoop V (a # as) s = (case (r', s4) of (Inl (Panic p), s) \<Rightarrow> (Inl (Panic p), s) | (_, s) \<Rightarrow> replicaLoop V as s)"
        by (simp only: replicaLoop.simps Let_def c Inr prod.case sum.case s2_def [symmetric] s3_def [symmetric] p)
      show ?thesis using k4 pd_kept_trans [OF k4 always_snd [OF Cons.IH]]
        unfolding eq by (auto split: sum.splits error.splits)
    qed (use k1 c in \<open>simp\<close>)
  qed
qed (simp only: replicaLoop.simps pk.always_ret)

lemma kept_checkReplica: "always (pd_kept view ok) (checkReplica V)"
proof (rule alwaysI)
  fix s :: "('k, 't, 'w) pdServer"
  have opened: "always (pd_kept view ok) (\<lambda>s. (Inr (), s\<lparr>storeOpen := True\<rparr>))"
    by (rule alwaysI) (simp add: pd_kept_same)
  have "always (pd_kept view ok) (bindM (onWorld (pOpen V)) (\<lambda>_ (s :: ('k, 't, 'w) pdServer). (Inr (), s\<lparr>storeOpen := True\<rparr>)))"
    by (rule pk.always_bind [OF kept_outside(2) opened])
  then have "always (pd_kept view ok) (bindM (if storeOpen s then ret ()
      else bindM (onWorld (pOpen V)) (\<lambda>_ s. (Inr (), s\<lparr>storeOpen := True\<rparr>)))
      (\<lambda>_ s. replicaLoop V (rdc_Unstable (pOrdRanges V) (region s)) s))"
    by (rule pk.always_bind [OF always_if [OF pk.always_ret] always_fun [OF kept_replicaLoop]])
  from always_snd [OF this, of s] show "pd_kept view ok s (snd (checkReplica V s))"
    by (simp add: checkReplica_def pd_kept_refl)
qed

lemma kept_checkTick: "always (pd_kept view ok) (checkTick V)"
proof (rule alwaysI)
  fix s :: "('k, 't, 'w) pdServer"
  have split: "always (pd_kept view ok) (if b then checkSplit V else ret ())" for b
    unfolding checkSplit_def by (rule always_if [OF always_fun [OF kept_checkSplitLoop] pk.always_ret])
  have "always (pd_kept view ok) (\<lambda>s. case checkReplica V s of (Inl (Panic p), s) \<Rightarrow> (Inl (Panic p), s) | (_, s) \<Rightarrow> (Inr (), s))"
    by (rule alwaysI, rule kept_catch [OF kept_checkReplica]) (auto simp: pd_kept_refl split: sum.splits error.splits)
  then show "pd_kept view ok s (snd (checkTick V s))"
    unfolding checkTick_def by (rule always_snd [OF pk.always_bind [OF split]])
qed

lemma kept_masterRound: "always (pd_kept view ok) (masterRound V sched clock)"
proof (rule alwaysI)
  fix s :: "('k, 't, 'w) pdServer"
  have watch: "pd_kept view ok t (if b then t\<lparr>net := w\<rparr> else t)" for t :: "('k, 't, 'w) pdServer" and b w
    by (simp add: pd_kept_refl pd_kept_same)
  have "always (pd_kept view ok) (\<lambda>s. let s = (if master \<noteq> [] \<and> master \<noteq> masterValue (tsoState s) then s\<lparr>net := pWatch V (net s)\<rparr> else s)
           in startMaster V sched clock master s)" for master
    unfolding Let_def by (rule alwaysI) (rule pd_kept_trans [OF watch always_snd [OF kept_startMaster]])
  note rest = always_snd [OF pk.always_bind [OF kept_outside(3) this]]
  show "pd_kept view ok s (snd (masterRound V sched clock s))"
    unfolding masterRound_def Let_def by (rule pd_kept_trans [OF kept_tso rest [unfolded Let_def]])
qed

lemma kept_masterTick: "always (pd_kept view ok) (masterTick V t)"
  unfolding masterTick_def
  by (rule alwaysI, rule kept_catch [OF kept_outside(3)]) (auto simp: pd_kept_refl kept_tso split: sum.splits)

lemma wf_NewServer: "pd_wf view ok (NewServer V c mv k w)"
  using rdc_wf_new by (simp add: NewServer_def pd_wf_def cluster_wf_def newCluster_def)

end

section \<open>Runs\<close>

text \<open>
  What a server does, a request or a tick at a time. Other servers change the store, and anything may
  happen in the network. A step that ends in a panic is included.
\<close>

inductive pdStep :: "('k, 't, 'w) pdEnv \<Rightarrow> ('k, 't, 'w) pdServer \<Rightarrow> ('k, 't, 'w) pdServer \<Rightarrow> bool" for V where
  request: "server_NodeMessage V sched ba s = (r, s') \<Longrightarrow> pdStep V s s'"
| master: "masterRound V sched' clock s = (r', s') \<Longrightarrow> pdStep V s s'"
| tick: "masterTick V t s = (r', s') \<Longrightarrow> pdStep V s s'"
| stop: "pdStep V s (masterStop s)"
| check: "checkTick V s = (r', s') \<Longrightarrow> pdStep V s s'"
| replica: "server_addReplica V rid nid s = (r', s') \<Longrightarrow> pdStep V s s'"
| others: "pdStep V s (s\<lparr>etcdKv := k, net := w\<rparr>)"

context pd_env
begin

lemma kept_step: "pdStep V s s' \<Longrightarrow> pd_kept view ok s s'"
proof (induction rule: pdStep.induct)
  case (stop s)
  show ?case unfolding masterStop_def by (rule kept_tso)
next
  case (others s k w)
  show ?case by (rule pd_kept_same) simp_all
qed (erule alwaysD [OF kept_NodeMessage] alwaysD [OF kept_masterRound] alwaysD [OF kept_masterTick]
  alwaysD [OF kept_checkTick] alwaysD [OF kept_addReplica])+

lemma kept_steps: "(pdStep V)\<^sup>*\<^sup>* s s' \<Longrightarrow> pd_kept view ok s s'"
  by (erule pk.always_steps [rotated]) (rule kept_step)

end

end
