(* ===== verification/PdProps.thy ===== *)
theory PdProps
  imports PdInv
begin

text \<open>
  What the placement driver promises: its tables stay consistent in every run, a split cuts the range
  of a lookup in two, a check leaves no range short of replicas, and the ranges a master saves are those
  the next one loads.
\<close>

section \<open>A placement driver to compute with\<close>

text \<open>A codec for descriptors: every field escaped and closed by a zero.\<close>

definition blob :: "bytes \<Rightarrow> bytes" where
  "blob b = concat (map (\<lambda>x. [1, x]) b) @ [0]"

fun unblob :: "bytes \<Rightarrow> (bytes \<times> bytes) option" where
  "unblob [] = None"
| "unblob (t # b) =
     (if t = 0 then Some ([], b)
      else case b of [] \<Rightarrow> None | x # b \<Rightarrow> (case unblob b of None \<Rightarrow> None | Some (y, r) \<Rightarrow> Some (x # y, r)))"

lemma unblob_blob [simp]: "unblob (blob b @ r) = Some (b, r)"
  by (induction b) (simp_all add: blob_def)

definition ref_error :: error where "ref_error = Errorf ''bad encoding''"

definition takeField :: "bytes \<Rightarrow> error + bytes \<times> bytes" where
  "takeField b = (case unblob b of None \<Rightarrow> Inl ref_error | Some x \<Rightarrow> Inr x)"

definition takeWord :: "bytes \<Rightarrow> error + uint64 \<times> bytes" where
  "takeWord b = bindE (takeField b) (\<lambda>(x, b). bindE (bytesToUint64 x) (\<lambda>i. Inr (i, b)))"

lemma take_simps [simp]:
  "takeField (blob x @ r) = Inr (x, r)" "takeWord (blob (uint64ToBytes i) @ r) = Inr (i, r)"
  by (simp_all add: takeField_def takeWord_def)

fun refReplicas :: "nat \<Rightarrow> bytes \<Rightarrow> error + ReplicaDescriptor list" where
  "refReplicas n b =
     (if b = [] then Inr []
      else case n of
        0 \<Rightarrow> Inl ref_error
      | Suc n \<Rightarrow> bindE (takeWord b) (\<lambda>(i, b). bindE (takeWord b) (\<lambda>(j, b). bindE (refReplicas n b) (\<lambda>rps.
          Inr (\<lparr>RepNodeID = ucast i, RepReplicaID = ucast j\<rparr> # rps)))))"

declare refReplicas.simps [simp del]

definition ref_range :: "RangeDescriptor \<Rightarrow> bytes" where
  "ref_range rd = blob (uint64ToBytes (RangeID rd)) @ blob (StartKey rd) @ blob (EndKey rd) @
     concat (map (\<lambda>rp. blob (uint64ToBytes (ucast (RepNodeID rp))) @ blob (uint64ToBytes (ucast (RepReplicaID rp)))) (Replicas rd))"

definition ref_unrange :: "bytes \<Rightarrow> error + RangeDescriptor" where
  "ref_unrange b = bindE (takeWord b) (\<lambda>(i, b). bindE (takeField b) (\<lambda>(x, b). bindE (takeField b) (\<lambda>(y, b).
     bindE (refReplicas (length b) b) (\<lambda>rps. Inr \<lparr>RangeID = i, StartKey = x, EndKey = y, Replicas = rps\<rparr>))))"

lemma refReplicas_inverse:
  "length rps \<le> n \<Longrightarrow>
   refReplicas n (concat (map (\<lambda>rp. blob (uint64ToBytes (ucast (RepNodeID rp))) @ blob (uint64ToBytes (ucast (RepReplicaID rp)))) rps))
     = Inr rps"
proof (induction rps arbitrary: n)
  case (Cons rp rps)
  then obtain m where n: "n = Suc m" "length rps \<le> m" by (cases n) auto
  have "blob x \<noteq> []" for x by (simp add: blob_def)
  with Cons.IH [OF n(2)] show ?case by (subst refReplicas.simps) (simp add: n)
qed (simp add: refReplicas.simps)

lemma ref_range_inverse: "ref_unrange (ref_range rd) = Inr rd"
proof -
  let ?b = "concat (map (\<lambda>rp. blob (uint64ToBytes (ucast (RepNodeID rp))) @ blob (uint64ToBytes (ucast (RepReplicaID rp)))) (Replicas rd))"
  have "length xs \<le> length (concat (map (\<lambda>rp. blob (f rp) @ blob (g rp)) xs))" for f g and xs :: "ReplicaDescriptor list"
    by (induction xs) (auto simp: blob_def)
  then have "refReplicas (length ?b) ?b = Inr (Replicas rd)" by (rule refReplicas_inverse)
  then show ?thesis by (simp add: ref_unrange_def ref_range_def)
qed

definition ref_node :: "NodeDescriptor \<Rightarrow> bytes" where
  "ref_node nd = blob (uint64ToBytes (ucast (NodeID nd))) @ blob (ascii (Address nd)) @ blob (uint64ToBytes (Capacity nd))"

definition ref_unnode :: "bytes \<Rightarrow> error + NodeDescriptor" where
  "ref_unnode b = bindE (takeWord b) (\<lambda>(i, b). bindE (takeField b) (\<lambda>(x, b). bindE (takeWord b) (\<lambda>(c, b).
     Inr \<lparr>NodeID = ucast i, Address = map (\<lambda>w. char_of (unat w)) x, Capacity = c\<rparr>)))"

text \<open>The world counts the messages; \<open>msg\<close> answers them.\<close>

definition ref_env ::
    "(string \<Rightarrow> BatchRequest \<Rightarrow> nat \<Rightarrow> error + BatchResponse)
       \<Rightarrow> ((bytes \<times> bytes) list, (bytes \<times> nat) list, nat) pdEnv" where
  "ref_env msg = \<lparr>pE = ref_etcd, pT = ref_tree, pMarshalNode = (\<lambda>nd. Inr (ref_node nd)),
     pUnmarshalNode = (\<lambda>b _. ref_unnode b), pMarshalRange = (\<lambda>rd. Inr (ref_range rd)), pUnmarshalRange = ref_unrange,
     pOrdNodes = (\<lambda>xs. xs), pOrdRanges = (\<lambda>xs. xs), pOrdStats = (\<lambda>_. []), pScale = (\<lambda>c _. c),
     pNow = (\<lambda>w. (int w, Suc w)), pDial = (\<lambda>_. ret ()), pNodeMessage = (\<lambda>addr ba w. (msg addr ba w, Suc w)),
     pLoadConfig = (\<lambda>_. fail ref_error), pGrant = ret (), pKeepAlive = ret (), pWatch = Suc, pOpen = ret (),
     pCreateReplica = (\<lambda>_ _ w. (Inr (), Suc w)), pSched = (\<lambda>k. k), pFuel = 5\<rparr>"

interpretation ref_pd: pd_env "ref_env msg" map_of "\<lambda>t. distinct (map fst t)"
  by (rule pd_env.intro) (simp add: ref_env_def ref_ranges.range_tree_axioms)

definition ref_config :: pdConfig where
  "ref_config = \<lparr>MasterLease = 0, TsSaveInterval = 0, CheckInterval = 0, RangeCapacity = 0, RangeSplitThreshold = 0,
     RangeSplitType = 0\<rparr>"

definition noAnswer :: "string \<Rightarrow> BatchRequest \<Rightarrow> nat \<Rightarrow> error + BatchResponse" where
  "noAnswer addr ba w = Inl ref_error"

text \<open>A master that has loaded three nodes and a range with two replicas from the store.\<close>

definition ref_addr :: "int32 \<Rightarrow> NodeDescriptor" where
  "ref_addr i = \<lparr>NodeID = i, Address = [char_of (unat i)], Capacity = 9\<rparr>"

definition ref_short :: RangeDescriptor where
  "ref_short = \<lparr>RangeID = 1, StartKey = [1], EndKey = [2],
     Replicas = [\<lparr>RepNodeID = 7, RepReplicaID = 2\<rparr>, \<lparr>RepNodeID = 8, RepReplicaID = 3\<rparr>]\<rparr>"

definition ref_kv :: "(bytes \<times> bytes) list" where
  "ref_kv = [(newRangeKey 1, ref_range ref_short), (newNodeKey 7, ref_node (ref_addr 7)), (newNodeKey 8, ref_node (ref_addr 8)),
     (newNodeKey 9, ref_node (ref_addr 9)), (newIDPath, FormatInt 9)]"

definition ref_loaded :: "((bytes \<times> bytes) list, (bytes \<times> nat) list, nat) pdServer" where
  "ref_loaded = \<lparr>cfg = config_check ref_config,
     tsoState = \<lparr>masterValue = [1], isMaster = True, isReady = True, objects = [\<lparr>wallTime = 5000000000, logical = 0\<rparr>],
       ts = Some 0, lastSavedTime = 5000000000\<rparr>,
     pcluster = \<lparr>nodeHeap = map (\<lambda>i. \<lparr>nodeDesc = ref_addr i, nodeStats = zero_stats\<rparr>) [7, 8, 9],
       nodes = [(7, 0), (8, 1), (9, 2)], hosts = map (\<lambda>i. (Address (ref_addr (of_nat i + 7)), i)) [0, 1, 2]\<rparr>,
     region = \<lparr>minReplica = 3, rdHeap = [ref_short], unstable = [(1, 0)], ranges = [(1, 0)],
       rcache = \<lparr>config = \<lparr>Policy = CacheNone, ShouldEvict = None\<rparr>, entries = [\<lparr>entryKey = [1], entryValue = 0\<rparr>],
         bstore = [([1], 0)], ll = [], evicted = []\<rparr>\<rparr>,
     delays = [], nodeClients = [], storeOpen = False,
     etcdKv = (timestampPath, uint64ToBytes 5000000000) # (masterPath, [1]) # ref_kv, net = 0\<rparr>"

lemma ref_prefixes [simp]:
  "prefix (newRangeKey 0) (newRangeKey 1)" "\<not> prefix (newRangeKey 0) masterPath" "\<not> prefix (newRangeKey 0) timestampPath"
  "\<not> prefix (newRangeKey 0) newIDPath" "\<not> prefix (newRangeKey 0) (newNodeKey 7)" "\<not> prefix (newRangeKey 0) (newNodeKey 8)"
  "\<not> prefix (newRangeKey 0) (newNodeKey 9)" "\<not> prefix (newNodeKey 0) (newRangeKey 1)" "\<not> prefix (newNodeKey 0) masterPath"
  "\<not> prefix (newNodeKey 0) timestampPath" "\<not> prefix (newNodeKey 0) newIDPath" "prefix (newNodeKey 0) (newNodeKey 7)"
  "prefix (newNodeKey 0) (newNodeKey 8)" "prefix (newNodeKey 0) (newNodeKey 9)"
  by code_simp+

lemma ref_paths: "distinct [masterPath, timestampPath, newIDPath, newRangeKey 1, newNodeKey 7, newNodeKey 8, newNodeKey 9]"
  by code_simp

lemma ref_paths_neq [simp]:
  "masterPath \<noteq> newIDPath" "newIDPath \<noteq> masterPath" "newRangeKey 1 \<noteq> masterPath" "masterPath \<noteq> newRangeKey 1"
  "newNodeKey 7 \<noteq> masterPath" "newNodeKey 8 \<noteq> masterPath" "newNodeKey 9 \<noteq> masterPath"
  "masterPath \<noteq> newNodeKey 7" "masterPath \<noteq> newNodeKey 8" "masterPath \<noteq> newNodeKey 9"
  "timestampPath \<noteq> newIDPath" "newIDPath \<noteq> timestampPath" "newRangeKey 1 \<noteq> timestampPath" "timestampPath \<noteq> newRangeKey 1"
  "newNodeKey 7 \<noteq> timestampPath" "newNodeKey 8 \<noteq> timestampPath" "newNodeKey 9 \<noteq> timestampPath"
  "timestampPath \<noteq> newNodeKey 7" "timestampPath \<noteq> newNodeKey 8" "timestampPath \<noteq> newNodeKey 9"
  "newRangeKey 1 \<noteq> newIDPath" "newIDPath \<noteq> newRangeKey 1" "newNodeKey 7 \<noteq> newIDPath" "newNodeKey 8 \<noteq> newIDPath"
  "newNodeKey 9 \<noteq> newIDPath" "newIDPath \<noteq> newNodeKey 7" "newIDPath \<noteq> newNodeKey 8" "newIDPath \<noteq> newNodeKey 9"
  "newRangeKey 1 \<noteq> newNodeKey 7" "newRangeKey 1 \<noteq> newNodeKey 8" "newRangeKey 1 \<noteq> newNodeKey 9"
  "newNodeKey 7 \<noteq> newRangeKey 1" "newNodeKey 8 \<noteq> newRangeKey 1" "newNodeKey 9 \<noteq> newRangeKey 1"
  "newNodeKey 7 \<noteq> newNodeKey 8" "newNodeKey 7 \<noteq> newNodeKey 9" "newNodeKey 8 \<noteq> newNodeKey 9"
  "newNodeKey 8 \<noteq> newNodeKey 7" "newNodeKey 9 \<noteq> newNodeKey 7" "newNodeKey 9 \<noteq> newNodeKey 8"
  using ref_paths by auto

lemma ref_node_inverse [simp]: "ref_unnode (ref_node nd) = Inr nd"
proof -
  have "unat (of_nat (of_char c) :: 8 word) = of_char c" for c :: char
    by (simp add: unat_of_nat take_bit_nat_eq_self_iff)
  then show ?thesis using take_simps(2) [of "Capacity nd" "[]"] by (simp add: ref_unnode_def ref_node_def ascii_def comp_def)
qed

lemmas ref_eval = bindM_def onEtcd_def getValues_def putValues_def mapErr_def ref_etcd_def holds_def

text \<open>The steps of a round of a master, one after the other.\<close>

definition ref_tso :: "bool \<Rightarrow> tso" where
  "ref_tso m = \<lparr>masterValue = [1], isMaster = m, isReady = False, objects = [], ts = None, lastSavedTime = 0\<rparr>"

lemma ref_getMaster: "getMaster ref_etcd (ref_tso False, ref_kv) = (Inr [], (ref_tso False, ref_kv))"
  by (simp add: getMaster_def ref_eval ref_kv_def)

lemma ref_campaign: "campaign ref_etcd [] (ref_tso False, ref_kv) = (Inr (), (ref_tso True, (masterPath, [1]) # ref_kv))"
  by (simp add: campaign_def ref_eval ref_kv_def ref_tso_def setIsMaster_def)

lemma ref_loadTimestamp:
  "loadTimestamp 5 ref_etcd (\<lambda>x. x) 2000 (\<lambda>_. 5000000000) (ref_tso True, (masterPath, [1]) # ref_kv) =
     (Inr (), ((ref_tso True)\<lparr>objects := [\<lparr>wallTime = 5000000000, logical = 0\<rparr>], ts := Some 0, lastSavedTime := 5000000000\<rparr>,
        (timestampPath, uint64ToBytes 5000000000) # (masterPath, [1]) # ref_kv))"
proof -
  have 1: "loadTimestampFromDB ref_etcd (ref_tso True, (masterPath, [1]) # ref_kv) = (Inr 0, (ref_tso True, (masterPath, [1]) # ref_kv))"
    by (simp add: loadTimestampFromDB_def ref_eval ref_kv_def)
  have "awaitClock (Suc 4) 2000 0 (\<lambda>_. 5000000000) 0 = Inr 5000000000" unfolding awaitClock.simps by (simp add: ms_def)
  then have 2: "awaitClock 5 2000 0 (\<lambda>_. 5000000000) 0 = Inr 5000000000" by simp
  have 3: "startClock ref_etcd 5000000000 (ref_tso True, (masterPath, [1]) # ref_kv) = (Inr (), ((ref_tso True)\<lparr>objects :=
      [\<lparr>wallTime = 5000000000, logical = 0\<rparr>], ts := Some 0, lastSavedTime := 5000000000\<rparr>,
        (timestampPath, uint64ToBytes 5000000000) # (masterPath, [1]) # ref_kv))"
    by (simp add: startClock_def saveTimestampToDB_def ref_eval newMasterCmp_def ref_tso_def storeObject_def Let_def)
  show ?thesis by (simp add: loadTimestamp_def bindM_def 1 2 3)
qed

abbreviation (input) ref_kv' :: "(bytes \<times> bytes) list" where
  "ref_kv' \<equiv> (timestampPath, uint64ToBytes 5000000000) # (masterPath, [1]) # ref_kv"

definition ref_mid :: "((bytes \<times> bytes) list, (bytes \<times> nat) list, nat) pdServer" where
  "ref_mid = \<lparr>cfg = config_check ref_config,
     tsoState = (ref_tso True)\<lparr>objects := [\<lparr>wallTime = 5000000000, logical = 0\<rparr>], ts := Some 0, lastSavedTime := 5000000000\<rparr>,
     pcluster = newCluster, region = NewRangeDescriptorCache ref_tree pdMinReplica, delays = [], nodeClients = [],
     storeOpen = False, etcdKv = ref_kv', net = 0\<rparr>"

lemma ref_start:
  "masterRound (ref_env msg) (\<lambda>x. x) (\<lambda>_. 5000000000) (NewServer (ref_env msg) ref_config [1] ref_kv 0) =
     (case bindM (loadRangeDescriptors (ref_env msg)) (\<lambda>_. loadNodes (ref_env msg)) ref_mid of
        (Inl err, s) \<Rightarrow> (Inl err, s\<lparr>tsoState := resign (tsoState s)\<rparr>)
      | (Inr _, s) \<Rightarrow> (Inr (), s\<lparr>tsoState := setIsReady True (tsoState s)\<rparr>))"
proof -
  have i: "sint (TsSaveInterval (config_check ref_config)) = 2000" by (simp add: config_check_def ref_config_def Let_def)
  have e: "pE (ref_env msg) = ref_etcd" "pT (ref_env msg) = ref_tree" "pGrant (ref_env msg) = ret ()" "pKeepAlive (ref_env msg) = ret ()"
    "pFuel (ref_env msg) = 5" by (simp_all add: ref_env_def)
  have n: "NewServer (ref_env msg) ref_config [1] ref_kv 0 = \<lparr>cfg = config_check ref_config, tsoState = ref_tso False,
      pcluster = newCluster, region = NewRangeDescriptorCache ref_tree pdMinReplica, delays = [], nodeClients = [],
      storeOpen = False, etcdKv = ref_kv, net = 0\<rparr>"
    by (simp add: NewServer_def e ref_tso_def)
  have f: "setIsReady False (setIsMaster False (ref_tso False)) = ref_tso False"
    by (simp add: setIsReady_def setIsMaster_def ref_tso_def)
  show ?thesis
    by (simp add: n masterRound_def Let_def f startMaster_def bindM_def onOracle_def onWorld_def e ref_getMaster ref_campaign
      i ref_loadTimestamp ref_mid_def)
qed

lemma ref_loadRanges:
  "loadRangeDescriptors (ref_env msg) ref_mid = (Inr (), ref_mid\<lparr>region :=
     \<lparr>minReplica = 3, rdHeap = [ref_short], unstable = [(1, 0)], ranges = [(1, 0)],
       rcache = \<lparr>config = \<lparr>Policy = CacheNone, ShouldEvict = None\<rparr>, entries = [\<lparr>entryKey = [1], entryValue = 0\<rparr>],
         bstore = [([1], 0)], ll = [], evicted = []\<rparr>\<rparr>\<rparr>)"
proof -
  have g: "getValues ref_etcd (newRangeKey 0) True ref_kv' = (Inr (Some [(newRangeKey 1, ref_range ref_short)]), ref_kv')"
    by (simp add: ref_eval ref_kv_def)
  have a: "rdc_Add ref_tree [ref_short] (NewRangeDescriptorCache ref_tree pdMinReplica) =
      (Inr (), \<lparr>minReplica = 3, rdHeap = [ref_short], unstable = [(1, 0)], ranges = [(1, 0)],
       rcache = \<lparr>config = \<lparr>Policy = CacheNone, ShouldEvict = None\<rparr>, entries = [\<lparr>entryKey = [1], entryValue = 0\<rparr>],
         bstore = [([1], 0)], ll = [], evicted = []\<rparr>\<rparr>)"
    by (simp add: ref_short_def rdc_Add1_def NewRangeDescriptorCache_def NewOrderedCache_def newBaseCache_def pdMinReplica_def
      baseCache_Get_def baseCache_Add_def insertEntry_def evict_def OrderedCache_def ref_tree_def bindM_def Let_def)
  have e: "pE (ref_env msg) = ref_etcd" "pT (ref_env msg) = ref_tree" "pUnmarshalRange (ref_env msg) = ref_unrange"
    by (simp_all add: ref_env_def)
  show ?thesis
    by (simp add: loadRangeDescriptors_def bindM_def onKv_def onRegion_def e ref_mid_def g ref_range_inverse a del: rdc_Add.simps)
qed

lemma ref_round:
  "masterRound (ref_env msg) (\<lambda>x. x) (\<lambda>_. 5000000000) (NewServer (ref_env msg) ref_config [1] ref_kv 0) = (Inr (), ref_loaded)"
proof -
  have g: "getValues ref_etcd (newNodeKey 0) True ref_kv' =
      (Inr (Some (map (\<lambda>i. (newNodeKey i, ref_node (ref_addr i))) [7, 8, 9])), ref_kv')"
    by (simp add: ref_eval ref_kv_def)
  have e: "pE (ref_env msg) = ref_etcd" "pUnmarshalNode (ref_env msg) = (\<lambda>b _. ref_unnode b)" by (simp_all add: ref_env_def)
  have c: "addNode1 (ref_addr 9) (addNode1 (ref_addr 8) (addNode1 (ref_addr 7) newCluster)) = pcluster ref_loaded"
    by (simp add: addNode1_def newCluster_def ref_loaded_def ref_addr_def Let_def)
  have "loadNodes (ref_env msg) (ref_mid\<lparr>region := region ref_loaded\<rparr>) =
      (Inr (), ref_mid\<lparr>region := region ref_loaded, pcluster := pcluster ref_loaded\<rparr>)"
    by (simp add: loadNodes_def bindM_def onKv_def e ref_mid_def g addNodeCache_def c)
  moreover have "region ref_loaded = \<lparr>minReplica = 3, rdHeap = [ref_short], unstable = [(1, 0)], ranges = [(1, 0)],
       rcache = \<lparr>config = \<lparr>Policy = CacheNone, ShouldEvict = None\<rparr>, entries = [\<lparr>entryKey = [1], entryValue = 0\<rparr>],
         bstore = [([1], 0)], ll = [], evicted = []\<rparr>\<rparr>" by (simp add: ref_loaded_def)
  ultimately show ?thesis unfolding ref_start bindM_def ref_loadRanges
    by (simp add: ref_mid_def ref_loaded_def ref_tso_def setIsReady_def)
qed

lemma ref_loaded_run: "(pdStep (ref_env msg))\<^sup>*\<^sup>* (NewServer (ref_env msg) ref_config [1] ref_kv 0) ref_loaded"
  using pdStep.master [OF ref_round [of msg]] by simp

section \<open>Messages to the leader of a range\<close>

text \<open>The only trace of a message in the state of the sender is the order of the replicas of the range.\<close>

definition sent :: "nat \<Rightarrow> ('k, 't, 'w) pdServer \<Rightarrow> ('k, 't, 'w) pdServer \<Rightarrow> bool" where
  "sent a s s' \<longleftrightarrow> map_of (ranges (region s)) (RangeID (rdHeap (region s) ! a)) = Some a \<longrightarrow>
     (\<exists>rps. length rps = length (Replicas (rdHeap (region s) ! a)) \<and> region s' = setReplicas a rps (region s)) \<and> tsoState s' = tsoState s \<and> etcdKv s' = etcdKv s \<and> cfg s' = cfg s"

lemma setReplicas_same: "setReplicas a (Replicas (rdHeap c ! a)) c = c"
  by (simp add: setReplicas_def)

lemma setReplicas_twice: "setReplicas a r (setReplicas a r' c) = setReplicas a r c"
  by (cases "a < length (rdHeap c)") (simp_all add: setReplicas_def list_update_beyond)

lemma setReplicas_tables [simp]:
  "ranges (setReplicas a r c) = ranges c" "rcache (setReplicas a r c) = rcache c" "unstable (setReplicas a r c) = unstable c"
  "RangeID (rdHeap (setReplicas a r c) ! b) = RangeID (rdHeap c ! b)"
  "StartKey (rdHeap (setReplicas a r c) ! b) = StartKey (rdHeap c ! b)"
  "EndKey (rdHeap (setReplicas a r c) ! b) = EndKey (rdHeap c ! b)"
  by (cases "a < length (rdHeap c)"; cases "a = b"; simp add: setReplicas_def list_update_beyond)+

lemma sent_refl: "sent a s s"
  unfolding sent_def by (metis setReplicas_same)

lemma sent_same: "region s' = region s \<Longrightarrow> tsoState s' = tsoState s \<Longrightarrow> etcdKv s' = etcdKv s \<Longrightarrow> cfg s' = cfg s \<Longrightarrow> sent a s s'"
  unfolding sent_def by (metis setReplicas_same)

lemma setReplicas_length:
  "length rps = length (Replicas (rdHeap c ! a)) \<Longrightarrow> length (Replicas (rdHeap (setReplicas a rps c) ! a)) = length (Replicas (rdHeap c ! a))"
  by (cases "a < length (rdHeap c)") (simp_all add: setReplicas_def list_update_beyond)

lemma sent_trans: "sent a s t \<Longrightarrow> sent a t u \<Longrightarrow> sent a s u"
  unfolding sent_def by (metis setReplicas_tables(1,4) setReplicas_twice setReplicas_length)

interpretation sent: frame "sent a"
  by unfold_locales (rule sent_refl, erule (1) sent_trans)

lemma sent_world: "always (sent a) (onWorld m)"
  by (rule alwaysI) (auto simp: onWorld_def intro: sent_same split: prod.splits)

lemma sent_getNodeClient: "always (sent a) (getNodeClient (V :: ('k, 't, 'w) pdEnv) host)"
proof (rule alwaysI)
  fix s :: "('k, 't, 'w) pdServer"
  have "always (sent a) (\<lambda>s :: ('k, 't, 'w) pdServer. (Inr (), s\<lparr>nodeClients := host # nodeClients s\<rparr>))"
    by (rule alwaysI) (simp add: sent_same)
  from always_snd [OF sent.always_bind [OF sent_world [of a "pDial V host"] this]]
  show "sent a s (snd (getNodeClient V host s))" by (simp add: getNodeClient_def sent_refl)
qed

lemma sent_AdjustLeader: "sent a s (snd (onRegion (AdjustLeader (RangeID (rdHeap (region s) ! a)) nid) s))"
  by (auto simp: sent_def onRegion_def AdjustLeader_def intro!: exI [of _ "swapFront nid (Replicas (rdHeap (region s) ! a))"])

lemma sent_answered: "sent a s (snd (snd (answered a nid br s)))"
  using sent_AdjustLeader [of a s nid]
  by (auto simp: answered_def sent_refl Let_def split: option.splits sum.splits error.splits prod.splits)

lemma sent_leaderRound: "sent a (snd st) (snd (snd (leaderRound V breq a st)))"
proof -
  obtain nid s where st: "st = (nid, s)" by (cases st)
  show ?thesis
  proof (cases "nodeAddr nid s")
    case (Inr addr)
    obtain r1 s1 where g: "getNodeClient V addr s = (r1, s1)" by fastforce
    obtain r2 s2 where m: "onWorld (pNodeMessage V addr breq) s1 = (r2, s2)" by fastforce
    note k = alwaysD [OF sent_getNodeClient g, of a] sent_trans [OF alwaysD [OF sent_getNodeClient g] alwaysD [OF sent_world m], of a]
    have "sent a s2 (closeNodeClient addr s2)" by (rule sent_same) (simp_all add: closeNodeClient_def)
    from sent_trans [OF k(2) this] k sent_trans [OF k(2) sent_answered] show ?thesis
      by (simp add: leaderRound_def st Inr g m split: sum.splits)
  qed (simp add: leaderRound_def st sent_refl)
qed

lemma retryFor_result: "retryFor n r body s = (Some (Some x), s') \<Longrightarrow> \<exists>t. body t = (Some x, s')"
  by (induction n arbitrary: r s) (auto split: prod.splits if_splits option.splits)

lemma sendToLeader_sent:
  assumes "sendBatchRequestToLeader V breq a s = (r, s')"
  shows "sent a s s' \<and> (\<forall>br. r = Inr br \<longrightarrow>
    RespError (BRespHeader br) = None \<and> (\<exists>addr w w'. pNodeMessage V addr breq w = (Inr br, w')))"
proof (cases "Replicas (rdHeap (region s) ! a)")
  case (Cons rp rps)
  let ?l = "retryFor 22 (Start pdRetryOptions) (leaderRound V breq a) (RepNodeID rp, s)"
  obtain x nid t where l: "?l = (x, nid, t)" by (metis surj_pair)
  have "sent a (snd (RepNodeID rp, s)) (snd (snd ?l))"
    by (rule retryFor_steps [where R = "\<lambda>st st'. sent a (snd st) (snd st')"])
      (rule sent_leaderRound, rule sent_refl, erule (1) sent_trans)
  then have st: "sent a s t" by (simp add: l)
  have s': "s' = t" using assms by (auto simp: sendBatchRequestToLeader_def Cons l split: option.splits)
  have "RespError (BRespHeader br) = None \<and> (\<exists>addr w w'. pNodeMessage V addr breq w = (Inr br, w'))" if "r = Inr br" for br
  proof -
    from assms that have "x = Some (Some (Inr br))"
      by (auto simp: sendBatchRequestToLeader_def Cons l split: option.splits)
    with l obtain nid0 s0 where b: "leaderRound V breq a (nid0, s0) = (Some (Inr br), nid, t)"
      using retryFor_result by (metis surj_pair)
    then obtain addr s1 s2 s3 br' where m: "nodeAddr nid0 s0 = Inr addr" "getNodeClient V addr s0 = (Inr (), s1)"
      "onWorld (pNodeMessage V addr breq) s1 = (Inr br', s2)" "answered a nid0 br' s2 = (Some (Inr br), nid, t)"
      by (auto simp: leaderRound_def errSendFail_def split: sum.splits prod.splits)
    from m(4) have "br' = br" "RespError (BRespHeader br) = None"
      by (auto simp: answered_def Let_def split: option.splits sum.splits prod.splits error.splits)
    with m(3) show ?thesis by (auto simp: onWorld_def split: prod.splits)
  qed
  with st s' show ?thesis by blast
qed (use assms in \<open>auto simp: sendBatchRequestToLeader_def sent_refl\<close>)

section \<open>Saving descriptors\<close>

text \<open>What the store holds once a list of values is saved.\<close>

fun saves :: "('a \<Rightarrow> error + bytes) \<Rightarrow> ('a \<Rightarrow> bytes) \<Rightarrow> 'a list \<Rightarrow> (bytes \<rightharpoonup> bytes) \<Rightarrow> (bytes \<rightharpoonup> bytes)" where
  "saves marshal key [] m = m"
| "saves marshal key (x # xs) m =
     saves marshal key xs (case marshal x of Inr d \<Rightarrow> m(key x \<mapsto> d) | Inl _ \<Rightarrow> m)"

lemma putOps_ok:
  "putOps marshal key xs = Inr ops \<Longrightarrow>
     applyOps ops m = saves marshal key xs m \<and> (\<forall>x \<in> set xs. \<exists>d. marshal x = Inr d)"
proof (induction xs arbitrary: ops m)
  case (Cons x xs)
  then obtain d ops' where d: "marshal x = Inr d" "putOps marshal key xs = Inr ops'" "ops = OpPut (key x) d # ops'"
    by (cases "marshal x"; cases "putOps marshal key xs") auto
  with Cons.IH [OF d(2), of "m(key x \<mapsto> d)"] show ?case by (simp add: fun_upd_def)
qed simp

lemma newRangeKey_inject: "newRangeKey i = newRangeKey j \<Longrightarrow> i = j"
proof -
  assume a: "newRangeKey i = newRangeKey j"
  have zero: "sint x = 0 \<Longrightarrow> x = 0" for x :: int64 by (metis signed_0 signed_word_eqI)
  have "fmt_d (sint i) = fmt_d (sint j) \<Longrightarrow> i = j"
    using ParseInt_FormatInt [of i] ParseInt_FormatInt [of j] by (simp add: FormatInt_def)
  moreover have "i = 0 \<and> j = 0 \<or> i \<noteq> 0 \<and> j \<noteq> 0 \<and> fmt_d (sint i) = fmt_d (sint j)"
    using a zero [of i] zero [of j] by (auto simp: newRangeKey_def prefixKey_def ascii_def split: if_splits)
  ultimately show "i = j" by blast
qed

locale pd_store = pd_env V view ok + etcd: etcd_laws "pE V" eview
  for V :: "('k, 't, 'w) pdEnv" and view :: "'t \<Rightarrow> bytes \<rightharpoonup> nat" and ok :: "'t \<Rightarrow> bool" and eview :: "'k \<Rightarrow> bytes \<rightharpoonup> bytes"
begin

abbreviation (input) rkey where "rkey rd \<equiv> newRangeKey (RangeID rd)"

lemma masterPut_done:
  assumes "masterPut V ops s = (Inr (), s')"
  shows "eview (etcdKv s) masterPath = Some (masterValue (tsoState s)) \<and> eview (etcdKv s') = applyOps ops (eview (etcdKv s)) \<and>
    s' = s\<lparr>etcdKv := etcdKv s'\<rparr>"
proof -
  obtain r k where p: "putValues (pE V) (newMasterCmp (tsoState s)) ops (etcdKv s) = (r, k)" by fastforce
  with assms have "r = Inr ()" "s' = s\<lparr>etcdKv := k\<rparr>" by (simp_all add: masterPut_def onKv_def)
  with etcd.putValues_cases [OF p] show ?thesis by (simp add: newMasterCmp_def holds_def)
qed

lemma setRangeDescriptors_done:
  assumes "rdc_wf view ok (region s)" "setRangeDescriptors V rds s = (Inr (), s')"
  shows "rdc_wf view ok (region s') \<and>
    byStart view (region s') = fold (\<lambda>rd m. m(StartKey rd \<mapsto> rd)) rds (byStart view (region s)) \<and>
    byId (region s') = fold (\<lambda>rd m. m(RangeID rd \<mapsto> rd)) rds (byId (region s)) \<and>
    (\<forall>rd \<in> set rds. \<exists>d. pMarshalRange V rd = Inr d) \<and>
    eview (etcdKv s') = saves (pMarshalRange V) rkey rds (eview (etcdKv s)) \<and>
    eview (etcdKv s) masterPath = Some (masterValue (tsoState s))"
proof -
  obtain ops where ops: "putOps (pMarshalRange V) rkey rds = Inr ops"
    using assms(2) by (cases "putOps (pMarshalRange V) rkey rds") (auto simp: setRangeDescriptors_def)
  with assms(2) have b: "bindM (masterPut V ops) (\<lambda>_. onRegion (rdc_Add (pT V) rds)) s = (Inr (), s')"
    by (simp add: setRangeDescriptors_def)
  then obtain s1 where m: "masterPut V ops s = (Inr (), s1)" and r: "onRegion (rdc_Add (pT V) rds) s1 = (Inr (), s')"
    by (auto simp: bindM_def split: prod.splits sum.splits)
  note d = masterPut_done [OF m]
  have "region s1 = region s" using d by (metis pdServer.select_convs(4) pdServer.surjective pdServer.update_convs(8))
  with rdc_Add_tables [of "region s1" rds] assms(1) obtain c' where c': "rdc_Add (pT V) rds (region s1) = (Inr (), c')" "rdc_wf view ok c'"
    "byStart view c' = fold (\<lambda>rd m. m(StartKey rd \<mapsto> rd)) rds (byStart view (region s))"
    "byId c' = fold (\<lambda>rd m. m(RangeID rd \<mapsto> rd)) rds (byId (region s))" by auto
  have s': "s' = s1\<lparr>region := c'\<rparr>" using r c'(1) by (simp add: onRegion_def)
  show ?thesis using c' s' d putOps_ok [OF ops, of "eview (etcdKv s)"] by simp
qed

end

interpretation ref_store: pd_store "ref_env msg" map_of "\<lambda>t. distinct (map fst t)" map_of
proof (rule pd_store.intro)
  show "pd_env (ref_env msg) map_of (\<lambda>t. distinct (map fst t))" by (rule ref_pd.pd_env_axioms)
  show "etcd_laws (pE (ref_env msg)) map_of" using ref_etcd.etcd_laws_axioms by (simp add: ref_env_def)
qed

section \<open>Splits\<close>

text \<open>The answer of a node to a split: the new range has the keys before the split key, the old one keeps the others.\<close>

definition split_answer :: "RangeDescriptor \<Rightarrow> int64 \<Rightarrow> bytes \<Rightarrow> BatchResponse \<Rightarrow> bool" where
  "split_answer old i key br \<longleftrightarrow>
     (\<exists>h prev post rest. Resp br = SplitResponse h [prev, post] # rest \<and>
        RangeID prev = i \<and> StartKey prev = StartKey old \<and> EndKey prev = key \<and>
        RangeID post = RangeID old \<and> StartKey post = key \<and> EndKey post = EndKey old)"

definition splits_answered :: "('k, 't, 'w) pdEnv \<Rightarrow> RangeDescriptor \<Rightarrow> bytes \<Rightarrow> bool" where
  "splits_answered V old key \<longleftrightarrow>
     (\<forall>addr h i sz num w br w'. pNodeMessage V addr (batchOf (SplitRequest h i key sz num)) w = (Inr br, w') \<and>
        RespError (BRespHeader br) = None \<longrightarrow> split_answer old i key br)"

lemma option_ext: "(\<And>x. a = Some x \<longleftrightarrow> b = Some x) \<Longrightarrow> a = b"
  by (cases a; cases b) auto

lemma tiling_replace:
  assumes "tiling m" "m s = Some old" "StartKey new = StartKey old" "EndKey new = EndKey old"
  shows "tiling (m(s \<mapsto> new))"
proof -
  have one: "StartKey r = l \<and> l < EndKey r" if "m l = Some r" for l r using assms(1) that by (simp add: tiling_def)
  have sep: "EndKey r \<le> l'" if "m l = Some r" "m l' = Some r'" "l < l'" for l l' r r'
    using assms(1) that unfolding tiling_def by blast
  have same: "\<exists>r'. m l = Some r' \<and> StartKey r' = StartKey r \<and> EndKey r' = EndKey r" if "(m(s \<mapsto> new)) l = Some r" for l r
    using that assms(2-4) by (auto split: if_splits)
  show ?thesis unfolding tiling_def
  proof (intro conjI allI impI)
    show "StartKey r = l" "l < EndKey r" if "(m(s \<mapsto> new)) l = Some r" for l r
      using same [OF that] one by metis+
    show "EndKey r \<le> l'" if "(m(s \<mapsto> new)) l = Some r \<and> (m(s \<mapsto> new)) l' = Some r' \<and> l < l'" for l l' r r'
      using same [of l r] same [of l' r'] sep that by metis
  qed
qed

context pd_store
begin

lemma byStart_setReplicas:
  assumes "rdc_wf view ok c" "byStart view c (StartKey (rdHeap c ! a)) = Some old"
    "StartKey (rdHeap c ! a) = StartKey old" "EndKey (rdHeap c ! a) = EndKey old"
  obtains new where "StartKey new = StartKey old" "EndKey new = EndKey old"
    "byStart view (setReplicas a rps c) = (byStart view c)(StartKey old \<mapsto> new)"
proof (cases "contents view (rcache c) (StartKey old) = Some a")
  case True
  note w = rdc_wfD(6) [OF assms(1)]
  let ?new = "(rdHeap c ! a)\<lparr>Replicas := rps\<rparr>"
  have "byStart view (setReplicas a rps c) l = ((byStart view c)(StartKey old \<mapsto> ?new)) l" for l
    using w [OF True] w [of l] True
    by (cases "contents view (rcache c) l"; cases "l = StartKey old") (auto simp: byStart_def setReplicas_def nth_list_update)
  then have "byStart view (setReplicas a rps c) = (byStart view c)(StartKey old \<mapsto> ?new)" by blast
  with assms(3,4) that [of ?new] show thesis by simp
next
  case False
  have "byStart view (setReplicas a rps c) l = byStart view c l" for l
  proof (cases "contents view (rcache c) l")
    case (Some b)
    with False rdc_wfD(6) [OF assms(1) Some] assms(3) have "b \<noteq> a" by auto
    with Some show ?thesis by (simp add: byStart_def setReplicas_def)
  qed (simp add: byStart_def)
  then have "byStart view (setReplicas a rps c) = (byStart view c)(StartKey old \<mapsto> old)"
    using assms(2,3) by auto
  with that [of old] show thesis by simp
qed

lemma split_tables:
  assumes "rdc_wf view ok c" "tiling (byStart view c)" "byStart view c (StartKey old) = Some old"
    and "c1 = setReplicas a rps c" "rdHeap c ! a = old" "rdc_wf view ok c'"
    and "byStart view c' = (byStart view c1)(key \<mapsto> post, StartKey old \<mapsto> prev)"
    and "StartKey old < key" "key < EndKey old" "StartKey prev = StartKey old" "EndKey prev = key"
    and "StartKey post = key" "EndKey post = EndKey old"
  shows "tiling (byStart view c') \<and>
    found (pT V) k c' = (if within k old then Some (if k < key then prev else post) else found (pT V) k c)"
proof -
  obtain new where new: "StartKey new = StartKey old" "EndKey new = EndKey old"
    "byStart view c1 = (byStart view c)(StartKey old \<mapsto> new)"
    using byStart_setReplicas [of c a old rps] assms(1,3,4,5) by metis
  have t1: "tiling (byStart view c1)" unfolding new(3) by (rule tiling_replace [OF assms(2,3) new(1,2)])
  have m1: "byStart view c1 (StartKey old) = Some new" by (simp add: new(3))
  note sp = tiling_split [OF t1 m1 assms(8), of prev post, folded assms(7)]
  have t': "tiling (byStart view c')" using sp(1) assms(9-13) new(2) by simp
  have win: "within k new = within k old" by (simp add: within_def new)
  have "found (pT V) k c' = Some rd \<longleftrightarrow> (if within k old then rd = (if k < key then prev else post) else found (pT V) k c = Some rd)" for rd
  proof -
    have "byStart view c1 (StartKey rd) = Some rd \<and> within k rd \<longleftrightarrow> byStart view c (StartKey rd) = Some rd \<and> within k rd"
      if "\<not> within k old"
      using that win assms(3) by (cases "StartKey rd = StartKey old") (auto simp: new(3))
    with sp(2) [of rd k] assms(9-13) new(2) win show ?thesis
      unfolding found_iff [OF assms(6) t'] found_iff [OF assms(1,2)] by simp
  qed
  then have "found (pT V) k c' = (if within k old then Some (if k < key then prev else post) else found (pT V) k c)"
    by (intro option_ext) auto
  with t' show ?thesis ..
qed

end

context pd_store
begin

lemma requestSplit_done:
  assumes "requestSplit V rsi key sz num s = (Inr (), s')" "getRangeDescriptor (StatRangeID rsi) s = Inr a"
    and "rdc_wf view ok (region s)" "splits_answered V (rdHeap (region s) ! a) key"
  obtains prev post rps s2 where "rdc_wf view ok (region s2)" "region s2 = setReplicas a rps (region s)"
    "setRangeDescriptors V [post, prev] s2 = (Inr (), s')"
    "StartKey prev = StartKey (rdHeap (region s) ! a)" "EndKey prev = key" "RangeID post = StatRangeID rsi"
    "StartKey post = key" "EndKey post = EndKey (rdHeap (region s) ! a)"
proof -
  have ra: "map_of (ranges (region s)) (StatRangeID rsi) = Some a" using assms(2)
    by (simp add: getRangeDescriptor_def rdc_Get_def split: option.splits)
  have id: "RangeID (rdHeap (region s) ! a) = StatRangeID rsi" using rdc_wfD(7) [OF assms(3) ra] by simp
  obtain r0 s0 where n: "server_newID V s = (r0, s0)" by fastforce
  have reg: "region s0 = region s" using n by (auto simp: server_newID_def onKv_def split: prod.splits)
  obtain i where i: "r0 = Inr i"
    using assms(1) n by (cases r0) (auto simp: requestSplit_def bindM_def split: error.splits)
  have ga: "getRangeDescriptor (StatRangeID rsi) s0 = Inr a" using assms(2) by (simp add: getRangeDescriptor_def reg)
  let ?b = "batchOf (SplitRequest (header key [] (StatRangeID rsi) IsWriteFlag) i key sz num)"
  obtain r1 s1 where l: "sendBatchRequestToLeader V ?b a s0 = (r1, s1)" by fastforce
  have eq: "requestSplit V rsi key sz num s = (case r1 of Inl e \<Rightarrow> (Inl e, s1) | Inr br \<Rightarrow> (case Resp br of
               [] \<Rightarrow> fail (Panic ''index out of range'')
             | SplitResponse _ rds # _ \<Rightarrow>
                 (if length rds < 2 then fail (Panic ''index out of range'')
                  else bindM (updateRangeDescriptor V (rds ! 1) a) (\<lambda>_. setRangeDescriptors V [rds ! 1, rds ! 0]))
             | _ \<Rightarrow> fail nilDeref) s1)"
    by (simp add: requestSplit_def bindM_def n i ga l)
  then obtain br where br: "r1 = Inr br" using assms(1) by (cases r1) auto
  note sl = sendToLeader_sent [OF l]
  from sl br obtain addr w w' where "pNodeMessage V addr ?b w = (Inr br, w')" "RespError (BRespHeader br) = None" by blast
  then have "split_answer (rdHeap (region s) ! a) i key br" using assms(4) unfolding splits_answered_def by blast
  then obtain h prev post rest where sp: "Resp br = SplitResponse h [prev, post] # rest"
    "StartKey prev = StartKey (rdHeap (region s) ! a)" "EndKey prev = key" "RangeID post = StatRangeID rsi"
    "StartKey post = key" "EndKey post = EndKey (rdHeap (region s) ! a)"
    unfolding split_answer_def id by blast
  have "bindM (updateRangeDescriptor V post a) (\<lambda>_. setRangeDescriptors V [post, prev]) s1 = (Inr (), s')"
    using assms(1) unfolding eq br by (simp add: sp(1))
  then obtain s2 where u: "updateRangeDescriptor V post a s1 = (Inr (), s2)" and set: "setRangeDescriptors V [post, prev] s2 = (Inr (), s')"
    by (auto simp: bindM_def split: prod.splits sum.splits)
  have up: "sent a s1 s2"
    using u sendToLeader_sent [of V _ a s1] by (auto simp: updateRangeDescriptor_def bindM_def split: prod.splits sum.splits)
  have "sent a s0 s2" using sl up sent_trans by blast
  then obtain rps where rps: "region s2 = setReplicas a rps (region s)" "length rps = length (Replicas (rdHeap (region s) ! a))"
    using ra id by (auto simp: sent_def reg)
  have "rdc_wf view ok (region s2)" using setReplicas_kept [OF assms(3), of a rps] by (simp add: rps)
  from that [OF this rps(1) set sp(2-6)] show thesis .
qed

end

section \<open>Reloading\<close>

text \<open>The descriptors in the store, by range id.\<close>

definition stored :: "('k, 't, 'w) pdEnv \<Rightarrow> (bytes \<rightharpoonup> bytes) \<Rightarrow> int64 \<rightharpoonup> RangeDescriptor" where
  "stored V m i = (case m (newRangeKey i) of None \<Rightarrow> None
     | Some d \<Rightarrow> (case pUnmarshalRange V d of Inl _ \<Rightarrow> None | Inr rd \<Rightarrow> Some rd))"

text \<open>Everything under the prefix of the ranges is a descriptor under its own key.\<close>

definition range_store_ok :: "('k, 't, 'w) pdEnv \<Rightarrow> (bytes \<rightharpoonup> bytes) \<Rightarrow> bool" where
  "range_store_ok V m \<longleftrightarrow> (\<forall>x d. prefix (newRangeKey 0) x \<and> m x = Some d \<longrightarrow>
     (\<exists>rd. x = newRangeKey (RangeID rd) \<and> pMarshalRange V rd = Inr d))"

definition range_codec :: "('k, 't, 'w) pdEnv \<Rightarrow> bool" where
  "range_codec V \<longleftrightarrow> (\<forall>rd d. pMarshalRange V rd = Inr d \<longrightarrow> pUnmarshalRange V d = Inr rd)"

lemma stored_save:
  assumes "range_codec V" "range_store_ok V m" "\<forall>rd \<in> set rds. \<exists>d. pMarshalRange V rd = Inr d"
  shows "stored V (saves (pMarshalRange V) (\<lambda>rd. newRangeKey (RangeID rd)) rds m) =
      fold (\<lambda>rd m. m(RangeID rd \<mapsto> rd)) rds (stored V m) \<and>
    range_store_ok V (saves (pMarshalRange V) (\<lambda>rd. newRangeKey (RangeID rd)) rds m)"
  using assms(2,3)
proof (induction rds arbitrary: m)
  case (Cons rd rds)
  then obtain d where d: "pMarshalRange V rd = Inr d" by auto
  let ?m = "m(newRangeKey (RangeID rd) \<mapsto> d)"
  have "stored V ?m i = ((stored V m)(RangeID rd \<mapsto> rd)) i" for i
    using assms(1) d newRangeKey_inject [of i "RangeID rd"] by (cases "i = RangeID rd") (auto simp: stored_def range_codec_def)
  then have st: "stored V ?m = (stored V m)(RangeID rd \<mapsto> rd)" by blast
  have ok: "range_store_ok V ?m" using Cons.prems(1) d by (auto simp: range_store_ok_def)
  have rest: "\<forall>rd \<in> set rds. \<exists>d. pMarshalRange V rd = Inr d" using Cons.prems(2) by simp
  from Cons.IH [OF ok rest] show ?case unfolding saves.simps d sum.case fold_simps comp_apply st .
qed simp

lemma fold_upd_iff:
  assumes "distinct (map f xs)"
  shows "fold (\<lambda>x m. m(f x \<mapsto> x)) xs m i = Some x \<longleftrightarrow> x \<in> set xs \<and> f x = i \<or> i \<notin> f ` set xs \<and> m i = Some x"
  using assms
proof (induction xs arbitrary: m)
  case (Cons y ys)
  have "fold (\<lambda>x m. m(f x \<mapsto> x)) (y # ys) m i = fold (\<lambda>x m. m(f x \<mapsto> x)) ys (m(f y \<mapsto> y)) i" by (simp only: fold_simps)
  with Cons.IH [of "m(f y \<mapsto> y)"] Cons.prems show ?case by (auto simp: image_iff)
qed simp

lemma decodeRanges_ok:
  "\<forall>(x, d) \<in> set kvs. \<exists>rd. unmarshal d = Inr rd \<Longrightarrow>
   \<exists>rds. decodeRanges unmarshal kvs = Inr rds \<and> list_all2 (\<lambda>(x, d) rd. unmarshal d = Inr rd) kvs rds"
proof (induction kvs)
  case (Cons kv kvs)
  obtain x d where kv: "kv = (x, d)" by (cases kv)
  from Cons kv obtain rd rds where "unmarshal d = Inr rd" "decodeRanges unmarshal kvs = Inr rds"
    "list_all2 (\<lambda>(x, d) rd. unmarshal d = Inr rd) kvs rds" by auto
  with kv show ?case by auto
qed simp

lemma newRangeKey_prefix: "prefix (newRangeKey 0) (newRangeKey i)"
  by (simp add: newRangeKey_def prefixKey_def)

context pd_store
begin

lemma load_stored:
  assumes "range_codec V" "range_store_ok V (eview k)" "newRangeKey i \<in> dom (eview k)" "region t = NewRangeDescriptorCache (pT V) n"
    and "etcdKv t = k" "loadRangeDescriptors V t = (Inr (), t')"
  shows "byId (region t') = stored V (eview k)"
proof -
  obtain r k1 where g: "eGet (pE V) (newRangeKey 0) True k = (r, k1)" by fastforce
  obtain kvs where kvs: "r = Inr kvs"
    using assms(5,6) g by (cases r) (auto simp: loadRangeDescriptors_def onKv_def getValues_def bindM_def mapErr_def)
  note ks = etcd.get_prefix [OF g [unfolded kvs]]
  have set: "(x, d) \<in> set kvs \<longleftrightarrow> prefix (newRangeKey 0) x \<and> eview k x = Some d" for x d using ks by blast
  have ne: "kvs \<noteq> []" using set assms(3) newRangeKey_prefix [of i] by (auto simp: dom_def)
  have dec: "\<exists>rd. x = newRangeKey (RangeID rd) \<and> pUnmarshalRange V d = Inr rd" if "(x, d) \<in> set kvs" for x d
    using that set assms(1,2) unfolding range_store_ok_def range_codec_def by blast
  from decodeRanges_ok [of kvs "pUnmarshalRange V"] dec obtain rds where
    rds: "decodeRanges (pUnmarshalRange V) kvs = Inr rds" "list_all2 (\<lambda>(x, d) rd. pUnmarshalRange V d = Inr rd) kvs rds"
    by blast
  have pair: "list_all2 (\<lambda>(x, d) rd. pUnmarshalRange V d = Inr rd \<and> x = newRangeKey (RangeID rd)) kvs rds"
  proof (rule list_all2_all_nthI)
    fix n
    assume n: "n < length kvs"
    obtain x d where kv: "kvs ! n = (x, d)" by fastforce
    with n dec [of x d] list_all2_nthD [OF rds(2) n] show
      "(case kvs ! n of (x, d) \<Rightarrow> \<lambda>rd. pUnmarshalRange V d = Inr rd \<and> x = newRangeKey (RangeID rd)) (rds ! n)"
      by (auto dest: nth_mem)
  qed (rule list_all2_lengthD [OF rds(2)])
  have keys: "map fst kvs = map (\<lambda>rd. newRangeKey (RangeID rd)) rds"
    using pair by (induction rule: list_all2_induct) auto
  have "distinct (map (newRangeKey \<circ> RangeID) rds)" using ks keys by (simp add: comp_def)
  then have ids: "distinct (map RangeID rds)" by (metis distinct_map map_map)
  have mem: "rd \<in> set rds \<longleftrightarrow> stored V (eview k) (RangeID rd) = Some rd" for rd
  proof
    assume "rd \<in> set rds"
    then obtain n where n: "n < length rds" "rds ! n = rd" by (auto simp: in_set_conv_nth)
    obtain x d where kv: "kvs ! n = (x, d)" by fastforce
    have "n < length kvs" using n list_all2_lengthD [OF pair] by simp
    with list_all2_nthD [OF pair this] kv n set [of x d] show "stored V (eview k) (RangeID rd) = Some rd"
      by (auto simp: stored_def dest: nth_mem)
  next
    assume "stored V (eview k) (RangeID rd) = Some rd"
    then obtain d where d: "eview k (newRangeKey (RangeID rd)) = Some d" "pUnmarshalRange V d = Inr rd"
      by (auto simp: stored_def split: option.splits sum.splits)
    then have "(newRangeKey (RangeID rd), d) \<in> set kvs" using set newRangeKey_prefix by blast
    then obtain n where n: "n < length kvs" "kvs ! n = (newRangeKey (RangeID rd), d)" by (auto simp: in_set_conv_nth)
    with list_all2_nthD [OF pair n(1)] d list_all2_lengthD [OF pair] show "rd \<in> set rds" by (auto intro: nth_mem)
  qed
  have own: "RangeID rd = j" if "stored V (eview k) j = Some rd" for j rd
    using that assms(1,2) newRangeKey_prefix [of j] newRangeKey_inject [of j]
    unfolding range_store_ok_def range_codec_def stored_def by (fastforce split: option.splits sum.splits)
  have "byId (region t') = fold (\<lambda>rd m. m(RangeID rd \<mapsto> rd)) rds Map.empty"
    using assms(4-6) rdc_Add_tables [of "region t" rds] rdc_wf_new [of n] ne
    by (auto simp: loadRangeDescriptors_def onKv_def onRegion_def getValues_def bindM_def mapErr_def g kvs rds(1))
  then have "byId (region t') j = Some rd \<longleftrightarrow> stored V (eview k) j = Some rd" for j rd
    using fold_upd_iff [OF ids, of Map.empty j rd] mem [of rd] own [of j rd] by auto
  then show ?thesis by (intro ext option_ext) blast
qed

end

section \<open>Properties\<close>

text \<open>
  C9. In every run of a placement driver, whatever it is asked and whatever the store, the nodes and the
  other servers do, its tables stay well formed: the node with an id is listed under it, every host leads
  to a node, a range is found under its own id and its own start key, a range in the list of unstable ones
  has its own id, and no id has two entries. No node and no range it has known is lost.
\<close>

theorem pd_tables_consistent:
  assumes "pd_env V view ok" "(pdStep V)\<^sup>*\<^sup>* (NewServer V c mv k w) s" "(pdStep V)\<^sup>*\<^sup>* s s'"
  shows "pd_wf view ok s' \<and> rdc_grows (region s) (region s') \<and>
    dom (map_of (nodes (pcluster s))) \<subseteq> dom (map_of (nodes (pcluster s')))"
  using pd_env.kept_steps [OF assms(1,2)] pd_env.kept_steps [OF assms(1,3)] pd_env.wf_NewServer [OF assms(1)]
  by (simp add: pd_kept_def)

theorem pd_tables_consistent_witness:
  "pd_wf map_of (\<lambda>t. distinct (map fst t)) ref_loaded \<and>
   map fst (ranges (region ref_loaded)) = [1] \<and> map fst (nodes (pcluster ref_loaded)) = [7, 8, 9]"
proof -
  have "pd_wf map_of (\<lambda>t. distinct (map fst t)) ref_loaded"
    using pd_tables_consistent [OF ref_pd.pd_env_axioms ref_loaded_run [of noAnswer] rtranclp.rtrancl_refl] by blast
  then show ?thesis by (simp add: ref_loaded_def)
qed

text \<open>
  C7. A split that reports success redirects exactly the keys of the range, when its nodes answer as
  \<^verbatim>\<open>split\<close> does: keys below the split key are found in the new range, the other keys of the range in the
  old one, and every other key where it was. The ranges still do not overlap, and both descriptors are in
  the store under their ids.
\<close>

theorem requestSplit_redirects:
  assumes "pd_store V view ok eview" "pd_wf view ok s" "tiling (byStart view (region s))"
    and "getRangeDescriptor (StatRangeID rsi) s = Inr a" "old = rdHeap (region s) ! a"
    and "byStart view (region s) (StartKey old) = Some old" "StartKey old < key" "key < EndKey old"
    and "splits_answered V old key" "requestSplit V rsi key sz num s = (Inr (), s')"
  shows "\<exists>prev post. StartKey prev = StartKey old \<and> EndKey prev = key \<and> StartKey post = key \<and> EndKey post = EndKey old \<and>
    RangeID post = RangeID old \<and> tiling (byStart view (region s')) \<and>
    (\<forall>k. found (pT V) k (region s') =
       (if within k old then Some (if k < key then prev else post) else found (pT V) k (region s))) \<and>
    (RangeID prev \<noteq> RangeID old \<longrightarrow> (\<forall>rd \<in> {prev, post}. byId (region s') (RangeID rd) = Some rd \<and>
       (\<exists>d. pMarshalRange V rd = Inr d \<and> eview (etcdKv s') (newRangeKey (RangeID rd)) = Some d)))"
proof -
  note w = assms(2) [unfolded pd_wf_def, THEN conjunct2, THEN conjunct1]
  from pd_store.requestSplit_done [OF assms(1,10,4) w assms(9) [unfolded assms(5)], folded assms(5)]
  obtain prev post rps s2 where d: "rdc_wf view ok (region s2)" "region s2 = setReplicas a rps (region s)"
    "setRangeDescriptors V [post, prev] s2 = (Inr (), s')" "StartKey prev = StartKey old" "EndKey prev = key"
    "RangeID post = StatRangeID rsi" "StartKey post = key" "EndKey post = EndKey old" by metis
  have id: "RangeID old = StatRangeID rsi"
    using rdc_wfD(7) [OF w] assms(4,5) by (auto simp: getRangeDescriptor_def rdc_Get_def split: option.splits)
  note e = pd_store.setRangeDescriptors_done [OF assms(1) d(1,3)]
  have st: "byStart view (region s') = (byStart view (region s2))(key \<mapsto> post, StartKey old \<mapsto> prev)"
    using e d(4,7) by simp
  note t = pd_store.split_tables [OF assms(1) w assms(3,6) d(2) assms(5) [symmetric] _ st assms(7,8) d(4,5,7,8)]
  have saved: "byId (region s') (RangeID rd) = Some rd \<and>
      (\<exists>d. pMarshalRange V rd = Inr d \<and> eview (etcdKv s') (newRangeKey (RangeID rd)) = Some d)"
    if "rd \<in> {prev, post}" "RangeID prev \<noteq> RangeID old" for rd
  proof -
    obtain d1 d2 where dd: "pMarshalRange V post = Inr d1" "pMarshalRange V prev = Inr d2" using e by auto
    have "newRangeKey (RangeID prev) \<noteq> newRangeKey (RangeID post)"
      using that(2) d(6) id newRangeKey_inject by metis
    with e dd that d(6) id show ?thesis by auto
  qed
  show ?thesis
  proof (intro exI conjI allI impI)
    show "RangeID post = RangeID old" using d(6) id by simp
    show "tiling (byStart view (region s'))" using t [THEN conjunct1] e by blast
    show "found (pT V) k (region s') = (if within k old then Some (if k < key then prev else post) else found (pT V) k (region s))" for k
      using t [THEN conjunct2] e by blast
    show "\<forall>rd \<in> {prev, post}. byId (region s') (RangeID rd) = Some rd \<and>
       (\<exists>d. pMarshalRange V rd = Inr d \<and> eview (etcdKv s') (newRangeKey (RangeID rd)) = Some d)" if "RangeID prev \<noteq> RangeID old"
      using saved that by blast
  qed (rule d(4), rule d(5), rule d(7), rule d(8))
qed

text \<open>A master with two ranges on one node, which splits the first.\<close>

definition two_ranges :: "RangeDescriptor list" where
  "two_ranges =
     [\<lparr>RangeID = 1, StartKey = [1], EndKey = [2], Replicas = [\<lparr>RepNodeID = 3, RepReplicaID = 4\<rparr>]\<rparr>,
      \<lparr>RangeID = 2, StartKey = [2], EndKey = [3], Replicas = [\<lparr>RepNodeID = 3, RepReplicaID = 5\<rparr>]\<rparr>]"

definition ref_region :: "(bytes \<times> nat) list rangeDescriptorCache" where
  "ref_region = \<lparr>minReplica = 3, rdHeap = two_ranges, unstable = [(1, 0), (2, 1)], ranges = [(1, 0), (2, 1)],
     rcache = \<lparr>config = \<lparr>Policy = CacheNone, ShouldEvict = None\<rparr>,
       entries = [\<lparr>entryKey = [1], entryValue = 0\<rparr>, \<lparr>entryKey = [2], entryValue = 1\<rparr>],
       bstore = [([1], 0), ([2], 1)], ll = [], evicted = []\<rparr>\<rparr>"

definition ref_pd0 :: "((bytes \<times> bytes) list, (bytes \<times> nat) list, nat) pdServer" where
  "ref_pd0 = \<lparr>cfg = config_check ref_config,
     tsoState = \<lparr>masterValue = [1], isMaster = True, isReady = True, objects = [], ts = None, lastSavedTime = 0\<rparr>,
     pcluster = \<lparr>nodeHeap = [\<lparr>nodeDesc = \<lparr>NodeID = 3, Address = ''n'', Capacity = 100\<rparr>, nodeStats = zero_stats\<rparr>],
       nodes = [(3, 0)], hosts = [(''n'', 0)]\<rparr>,
     region = ref_region, delays = [], nodeClients = [], storeOpen = False,
     etcdKv = [(masterPath, [1]), (newIDPath, FormatInt 5)], net = 0\<rparr>"

definition splitting :: "string \<Rightarrow> BatchRequest \<Rightarrow> nat \<Rightarrow> error + BatchResponse" where
  "splitting addr ba w =
     (case Req ba of
        [Some (SplitRequest h i key sz num)] \<Rightarrow>
          Inr (zero_bresp\<lparr>Resp := [SplitResponse zero_resp
            [\<lparr>RangeID = i, StartKey = [1], EndKey = key, Replicas = [\<lparr>RepNodeID = 3, RepReplicaID = 4\<rparr>]\<rparr>,
             \<lparr>RangeID = 1, StartKey = key, EndKey = [2], Replicas = [\<lparr>RepNodeID = 3, RepReplicaID = 4\<rparr>]\<rparr>]]\<rparr>)
      | _ \<Rightarrow> Inr zero_bresp)"

definition ref_stat :: RangeStatsInfo where
  "ref_stat = \<lparr>StatRangeID = 1, StatNodeID = 3, TotalBytes = 100, TotalCount = 10, IsRaftLeader = True, IsRemoved = False\<rparr>"

lemma ref_region_Add: "rdc_Add ref_tree two_ranges (NewRangeDescriptorCache ref_tree 3) = (Inr (), ref_region)"
  by (simp add: two_ranges_def ref_region_def rdc_Add1_def NewRangeDescriptorCache_def NewOrderedCache_def newBaseCache_def
    baseCache_Get_def baseCache_Add_def insertEntry_def evict_def OrderedCache_def ref_tree_def bindM_def Let_def)

lemma ref_pd0_wf:
  "pd_wf map_of (\<lambda>t. distinct (map fst t)) ref_pd0 \<and>
   byStart map_of (region ref_pd0) = [[1] \<mapsto> two_ranges ! 0, [2] \<mapsto> two_ranges ! 1]"
proof -
  have "cluster_wf (pcluster ref_pd0)" by (auto simp: cluster_wf_def ref_pd0_def)
  moreover have "rdc_wf map_of (\<lambda>t. distinct (map fst t)) ref_region \<and>
      byStart map_of ref_region = [[1] \<mapsto> two_ranges ! 0, [2] \<mapsto> two_ranges ! 1]"
    using ref_ranges.rdc_Add_tables [OF ref_ranges.rdc_wf_new [of 3, THEN conjunct1], of two_ranges] ref_ranges.rdc_wf_new [of 3]
    unfolding ref_region_Add by (auto simp: two_ranges_def)
  ultimately show ?thesis by (simp add: pd_wf_def ref_pd0_def)
qed

lemma ref_split: "fst (requestSplit (ref_env splitting) ref_stat [1, 5] 50 5 ref_pd0) = Inr ()"
  by code_simp

theorem requestSplit_redirects_witness:
  "\<exists>prev post s'. requestSplit (ref_env splitting) ref_stat [1, 5] 50 5 ref_pd0 = (Inr (), s') \<and>
     EndKey prev = [1, 5] \<and> StartKey post = [1, 5] \<and> found ref_tree [1, 2] (region s') = Some prev \<and>
     found ref_tree [1, 7] (region s') = Some post \<and>
     found ref_tree [2, 7] (region s') = found ref_tree [2, 7] (region ref_pd0)"
proof -
  let ?old = "two_ranges ! 0"
  obtain s' where s': "requestSplit (ref_env splitting) ref_stat [1, 5] 50 5 ref_pd0 = (Inr (), s')"
    using ref_split by (metis prod.collapse)
  have old: "?old = rdHeap (region ref_pd0) ! 0" by (simp add: ref_pd0_def ref_region_def)
  have keys: "StartKey ?old = [1]" "EndKey ?old = [2]" by (simp_all add: two_ranges_def)
  have t: "tiling (byStart map_of (region ref_pd0))"
    using ref_pd0_wf by (auto simp: tiling_def two_ranges_def split: if_splits)
  have a: "getRangeDescriptor (StatRangeID ref_stat) ref_pd0 = Inr 0"
    by (simp add: getRangeDescriptor_def rdc_Get_def ref_stat_def ref_pd0_def ref_region_def)
  have b: "byStart map_of (region ref_pd0) (StartKey ?old) = Some ?old" using ref_pd0_wf by (simp add: keys)
  have an: "splits_answered (ref_env splitting) ?old [1, 5]"
    by (auto simp: splits_answered_def split_answer_def ref_env_def splitting_def batchOf_def Add_def two_ranges_def)
  have pT: "pT (ref_env splitting) = ref_tree" by (simp add: ref_env_def)
  from requestSplit_redirects [OF ref_store.pd_store_axioms ref_pd0_wf [THEN conjunct1] t a old b _ _ an s', unfolded pT keys]
  obtain prev post where p: "EndKey prev = [1, 5]" "StartKey post = [1, 5]"
    "\<And>k. found ref_tree k (region s') = (if within k ?old then Some (if k < [1, 5] then prev else post)
       else found ref_tree k (region ref_pd0))" by auto
  have "within [1, 2] ?old" "within [1, 7] ?old" "\<not> within [2, 7] ?old" by (simp_all add: within_def keys)
  then show ?thesis using s' p by (intro exI [of _ prev] exI [of _ post] exI [of _ s']) simp
qed

text \<open>
  C16. What a master saves survives it: when a list of descriptors has been saved and another server loads
  the store to become the master, that server has every range of the store, those in the list as they
  were saved and the others as they were before. Encoding and decoding a descriptor must be inverse,
  and so must be what the store has under the prefix of the ranges, which the save maintains.
\<close>

theorem saved_ranges_reload:
  assumes "pd_store V view ok eview" "range_codec V" "range_store_ok V (eview (etcdKv s))" "pd_wf view ok s"
    and "setRangeDescriptors V rds s = (Inr (), s')" "rds \<noteq> []"
    and "loadRangeDescriptors V (NewServer V c mv (etcdKv s') w) = (Inr (), t)"
  shows "byId (region t) = fold (\<lambda>rd m. m(RangeID rd \<mapsto> rd)) rds (stored V (eview (etcdKv s))) \<and>
    byId (region s') = fold (\<lambda>rd m. m(RangeID rd \<mapsto> rd)) rds (byId (region s)) \<and>
    range_store_ok V (eview (etcdKv s'))"
proof -
  note w = assms(4) [unfolded pd_wf_def, THEN conjunct2, THEN conjunct1]
  note d = pd_store.setRangeDescriptors_done [OF assms(1) w assms(5)]
  have m: "\<forall>rd \<in> set rds. \<exists>d. pMarshalRange V rd = Inr d" using d by blast
  note st = stored_save [OF assms(2,3) m]
  have ev: "eview (etcdKv s') = saves (pMarshalRange V) (\<lambda>rd. newRangeKey (RangeID rd)) rds (eview (etcdKv s))" using d by blast
  have ok: "range_store_ok V (eview (etcdKv s'))" using st ev by simp
  obtain rd :: RangeDescriptor where rd: "stored V (eview (etcdKv s')) (RangeID rd) \<noteq> None"
  proof -
    obtain rds' rd where "rds = rds' @ [rd]" using assms(6) by (cases rds rule: rev_cases) auto
    then have "stored V (eview (etcdKv s')) (RangeID rd) = Some rd" using st ev by simp
    then show thesis by (intro that [of rd]) simp
  qed
  then have "newRangeKey (RangeID rd) \<in> dom (eview (etcdKv s'))" by (auto simp: stored_def split: option.splits)
  from pd_store.load_stored [OF assms(1,2) ok this _ _ assms(7)]
  have "byId (region t) = stored V (eview (etcdKv s'))" by (simp add: NewServer_def)
  then show ?thesis using st ev d ok by simp
qed

theorem saved_ranges_reload_witness:
  "\<exists>s' t. setRangeDescriptors (ref_env noAnswer) [two_ranges ! 0] ref_pd0 = (Inr (), s') \<and>
     loadRangeDescriptors (ref_env noAnswer) (NewServer (ref_env noAnswer) ref_config [2] (etcdKv s') 0) = (Inr (), t) \<and>
     byId (region t) = [1 \<mapsto> two_ranges ! 0]"
proof -
  let ?V = "ref_env noAnswer"
  have f: "fst (setRangeDescriptors ?V [two_ranges ! 0] ref_pd0) = Inr ()" by code_simp
  have g: "fst (loadRangeDescriptors ?V (NewServer ?V ref_config [2] (etcdKv (snd (setRangeDescriptors ?V [two_ranges ! 0] ref_pd0))) 0)) = Inr ()"
    by code_simp
  obtain s' where s': "setRangeDescriptors ?V [two_ranges ! 0] ref_pd0 = (Inr (), s')" using f by (metis prod.collapse)
  obtain t where t: "loadRangeDescriptors ?V (NewServer ?V ref_config [2] (etcdKv s') 0) = (Inr (), t)"
    using g s' by (metis prod.collapse snd_conv)
  have c: "range_codec ?V" by (simp add: range_codec_def ref_env_def ref_range_inverse)
  have none: "map_of (etcdKv ref_pd0) x = Some d \<Longrightarrow> x \<in> {masterPath, newIDPath}" for x d
    by (auto simp: ref_pd0_def split: if_splits)
  have "\<not> prefix (newRangeKey 0) masterPath" "\<not> prefix (newRangeKey 0) newIDPath" by code_simp+
  with none have np: "map_of (etcdKv ref_pd0) x = Some d \<Longrightarrow> \<not> prefix (newRangeKey 0) x" for x d by blast
  then have st: "range_store_ok ?V (map_of (etcdKv ref_pd0))" "stored ?V (map_of (etcdKv ref_pd0)) i = None" for i
    using newRangeKey_prefix [of i] by (auto simp: range_store_ok_def stored_def split: option.splits)
  from saved_ranges_reload [OF ref_store.pd_store_axioms c st(1) ref_pd0_wf [THEN conjunct1] s' _ t] st(2)
  have "byId (region t) = [1 \<mapsto> two_ranges ! 0]" by (simp add: two_ranges_def fun_eq_iff)
  with s' t show ?thesis by blast
qed

end
