(* ===== verification/PdReplicas.thy ===== *)
theory PdReplicas
  imports PdProps
begin

text \<open>
  The placement of replicas by the placement driver: a check that runs to its end leaves no range with
  fewer than three replicas, and puts the new ones on nodes that exist and have none of the range yet.
\<close>

section \<open>Choosing nodes\<close>

text \<open>The order in which Go visits a map: all its keys, somehow.\<close>

definition visits :: "('a list \<Rightarrow> 'a list) \<Rightarrow> bool" where
  "visits ord \<longleftrightarrow> (\<forall>xs. set (ord xs) = set xs)"

lemma getIdleNode_done:
  assumes "cluster_wf c" "visits ord" "getIdleNode ord nids c = Inr nd"
  shows "NodeID nd \<in> dom (map_of (nodes c)) \<and> NodeID nd \<notin> set nids"
proof -
  obtain n where n: "find (\<lambda>n. NodeID (nodeDesc n) \<notin> set nids) (nodesInOrder ord c) = Some n" "nd = nodeDesc n"
    using assms(3) by (auto simp: getIdleNode_def split: option.splits)
  then have "n \<in> set (nodesInOrder ord c)" and new: "NodeID (nodeDesc n) \<notin> set nids"
    by (auto simp: find_Some_iff in_set_conv_nth)
  then obtain i where i: "i \<in> fst ` set (nodes c)" "n = nodeHeap c ! the (map_of (nodes c) i)"
    using assms(2) by (auto simp: nodesInOrder_def visits_def)
  then obtain a where a: "map_of (nodes c) i = Some a" by (metis dom_map_of_conv_image_fst domD)
  then have "NodeID (nodeDesc n) = i" using assms(1) i(2) by (simp add: cluster_wf_def)
  then show ?thesis using a new n(2) by auto
qed

lemma newID_store: "server_newID V s = (r, s') \<Longrightarrow> s' = s\<lparr>etcdKv := etcdKv s'\<rparr>"
  by (auto simp: server_newID_def onKv_def split: prod.splits)

lemma chooseReplicas_done:
  assumes "cluster_wf (pcluster s)" "visits (pOrdNodes V)" "chooseReplicas V n nids s = (Inr reps, s')"
  shows "length reps = n \<and> distinct (map RepNodeID reps) \<and> RepNodeID ` set reps \<inter> set nids = {} \<and>
    RepNodeID ` set reps \<subseteq> dom (map_of (nodes (pcluster s))) \<and> s' = s\<lparr>etcdKv := etcdKv s'\<rparr>"
  using assms(1,3)
proof (induction n arbitrary: nids s reps s')
  case (Suc n)
  from Suc.prems(2) obtain nd where nd: "getIdleNode (pOrdNodes V) nids (pcluster s) = Inr nd"
    by (auto split: sum.splits)
  note g = getIdleNode_done [OF Suc.prems(1) assms(2) nd]
  from Suc.prems(2) nd obtain i s1 reps' where i: "server_newID V s = (Inr i, s1)"
    "chooseReplicas V n (nids @ [NodeID nd]) s1 = (Inr reps', s')" "reps = \<lparr>RepNodeID = NodeID nd, RepReplicaID = ucast i\<rparr> # reps'"
    by (auto simp: bindM_def split: prod.splits sum.splits)
  note s1 = newID_store [OF i(1)]
  then have pc: "pcluster s1 = pcluster s"
    by (metis pdServer.select_convs(3) pdServer.surjective pdServer.update_convs(8))
  note IH = Suc.IH [OF _ i(2), unfolded pc, OF Suc.prems(1)]
  have "s' = s\<lparr>etcdKv := etcdKv s'\<rparr>" using IH s1 by (metis pdServer.surjective pdServer.update_convs(8))
  with IH i(3) g show ?case by auto
qed simp

section \<open>The loop over the unstable ranges\<close>

definition better :: "(int32 \<Rightarrow> bool) \<Rightarrow> ReplicaDescriptor list \<Rightarrow> ReplicaDescriptor list \<Rightarrow> bool" where
  "better node r r' \<longleftrightarrow> length r \<le> length r' \<and> (distinct (map RepNodeID r) \<longrightarrow> distinct (map RepNodeID r')) \<and>
     (\<forall>n \<in> RepNodeID ` set r'. n \<in> RepNodeID ` set r \<or> node n)"

definition placed :: "('k, 't, 'w) pdServer \<Rightarrow> ('k, 't, 'w) pdServer \<Rightarrow> bool" where
  "placed s s' \<longleftrightarrow> pcluster s' = pcluster s \<and> minReplica (region s') = minReplica (region s) \<and>
     map_of (unstable (region s')) \<subseteq>\<^sub>m map_of (unstable (region s)) \<and>
     length (rdHeap (region s)) \<le> length (rdHeap (region s')) \<and>
     (\<forall>a < length (rdHeap (region s)). better (\<lambda>n. n \<in> dom (map_of (nodes (pcluster s))))
        (Replicas (rdHeap (region s) ! a)) (Replicas (rdHeap (region s') ! a)))"

lemma better_refl: "better node r r"
  by (simp add: better_def)

lemma better_trans: "better node r s \<Longrightarrow> better node s t \<Longrightarrow> better node r t"
  unfolding better_def by (elim conjE, intro conjI, erule (1) order.trans) blast+

lemma placed_same: "pcluster s' = pcluster s \<Longrightarrow> region s' = region s \<Longrightarrow> placed s s'"
  by (simp add: placed_def better_refl)

lemma placedD:
  assumes "placed s s'"
  shows "pcluster s' = pcluster s" "minReplica (region s') = minReplica (region s)"
    "map_of (unstable (region s')) \<subseteq>\<^sub>m map_of (unstable (region s))" "length (rdHeap (region s)) \<le> length (rdHeap (region s'))"
    "a < length (rdHeap (region s)) \<Longrightarrow> better (\<lambda>n. n \<in> dom (map_of (nodes (pcluster s))))
        (Replicas (rdHeap (region s) ! a)) (Replicas (rdHeap (region s') ! a))"
  using assms unfolding placed_def by blast+

lemma placed_trans:
  assumes "placed s t" "placed t u"
  shows "placed s u"
  unfolding placed_def
proof (intro conjI allI impI)
  note d = placedD [OF assms(1)] placedD [OF assms(2)]
  show "pcluster u = pcluster s" "minReplica (region u) = minReplica (region s)" using d(1,2,6,7) by simp_all
  show "map_of (unstable (region u)) \<subseteq>\<^sub>m map_of (unstable (region s))" by (rule map_le_trans [OF d(8,3)])
  show "length (rdHeap (region s)) \<le> length (rdHeap (region u))" by (rule order.trans [OF d(4,9)])
  show "better (\<lambda>n. n \<in> dom (map_of (nodes (pcluster s)))) (Replicas (rdHeap (region s) ! a)) (Replicas (rdHeap (region u) ! a))"
    if a: "a < length (rdHeap (region s))" for a
    by (rule better_trans [OF d(5) [OF a] d(10) [unfolded d(1), OF order.strict_trans2 [OF a d(4)]]])
qed

lemma createReplicas_net: "pcluster (createReplicas V a reps s) = pcluster s \<and> region (createReplicas V a reps s) = region s"
proof (induction reps arbitrary: s)
  case (Cons rep reps)
  have "pcluster (snd (onWorld m s)) = pcluster s \<and> region (snd (onWorld m s)) = region s" for m :: "('c, error, unit) op"
    by (auto simp: onWorld_def split: prod.splits)
  with Cons show ?case by simp
qed simp

context pd_env
begin

lemma save_placed:
  assumes "rdc_wf view ok (region s)" "a < length (rdHeap (region s))"
    and "minReplica (region s) \<le> length (Replicas (rdHeap (region s) ! a))"
    and "setRangeDescriptors V [rdHeap (region s) ! a] s = (r, s')"
  shows "placed s s'"
proof -
  let ?rd = "rdHeap (region s) ! a"
  have un: "pcluster s1 = pcluster s \<and> region s1 = region s" if "masterPut V ops s = (x, s1)" for ops x s1
    using that by (auto simp: masterPut_def onKv_def split: prod.splits)
  have sk: "StartKey ?rd \<in> dom (contents view (rcache (region s)))" using rdc_wfD(9) [OF assms(1)] assms(2) by (auto dest: nth_mem)
  obtain x c' where c: "rdc_Add1 (pT V) ?rd (region s) = (x, c')" by fastforce
  note st = rdc_Add1_stable [OF assms(1,3) sk c]
  have mn: "minReplica c' = minReplica (region s)" using rdc_Add1_tables [OF assms(1), of ?rd] c by auto
  have "placed s (t\<lparr>region := c'\<rparr>)" if "pcluster t = pcluster s" for t
    unfolding placed_def using st mn that assms(2) by (auto simp: map_le_def nth_append better_refl)
  moreover have "placed s t" if "pcluster t = pcluster s" "region t = region s" for t using placed_same that by blast
  ultimately show ?thesis using assms(4) un c
    by (auto simp: setRangeDescriptors_def onRegion_def bindM_def split: sum.splits prod.splits)
qed

lemma replicaLoop_placed:
  assumes "visits (pOrdNodes V)" "pd_wf view ok s" "minReplica (region s) = pdMinReplica"
    and "\<forall>a \<in> set as. a < length (rdHeap (region s))" "replicaLoop V as s = (Inr (), s')"
  shows "placed s s' \<and> (\<forall>a \<in> set as. pdMinReplica \<le> length (Replicas (rdHeap (region s') ! a)))"
  using assms(2-)
proof (induction as arbitrary: s)
  case Nil
  then show ?case by (simp add: placed_same)
next
  case (Cons a as)
  let ?r = "Replicas (rdHeap (region s) ! a)" and ?nids = "map RepNodeID (Replicas (rdHeap (region s) ! a))"
  have a: "a < length (rdHeap (region s))" using Cons.prems(3) by simp
  obtain x s1 where c: "chooseReplicas V (pdMinReplica - length ?nids) ?nids s = (x, s1)" by fastforce
  obtain reps where x: "x = Inr reps" using Cons.prems(4) c by (cases x) auto
  have cw: "cluster_wf (pcluster s)" using Cons.prems(1) by (simp add: pd_wf_def)
  note ch = chooseReplicas_done [OF cw assms(1) c [unfolded x]]
  then have s1: "region s1 = region s" "pcluster s1 = pcluster s" "delays s1 = delays s"
    by (metis pdServer.select_convs(3-5) pdServer.surjective pdServer.update_convs(8))+
  define s2 where "s2 = s1\<lparr>region := setReplicas a (Replicas (rdHeap (region s1) ! a) @ reps) (region s1)\<rparr>"
  define s3 where "s3 = createReplicas V a reps s2"
  obtain y s4 where p: "setRangeDescriptors V [rdHeap (region s3) ! a] s3 = (y, s4)" by fastforce
  have eq: "replicaLoop V (a # as) s = (case (y, s4) of (Inl (Panic p), s) \<Rightarrow> (Inl (Panic p), s) | (_, s) \<Rightarrow> replicaLoop V as s)"
    by (simp only: replicaLoop.simps Let_def c x prod.case sum.case s2_def [symmetric] s3_def [symmetric] p)
  then have rest: "replicaLoop V as s4 = (Inr (), s')" using Cons.prems(4) by (auto split: sum.splits error.splits)
  have s2: "region s2 = setReplicas a (?r @ reps) (region s)" "pcluster s2 = pcluster s" "delays s2 = delays s"
    by (simp_all add: s2_def s1)
  have w2: "pd_wf view ok s2" using Cons.prems(1) setReplicas_kept [of "region s" a "?r @ reps"] by (simp add: pd_wf_def s2)
  have "better (\<lambda>n. n \<in> dom (map_of (nodes (pcluster s)))) ?r (?r @ reps)" using ch by (auto simp: better_def)
  then have p2: "placed s s2" using a
    by (auto simp: placed_def s2 setReplicas_def nth_list_update better_refl)
  have s3: "region s3 = region s2" "pcluster s3 = pcluster s2" unfolding s3_def using createReplicas_net by blast+
  have w3: "pd_wf view ok s3" using kept_createReplicas [of s2 a reps] w2 by (simp add: pd_kept_def s3_def)
  have enough: "pdMinReplica \<le> length (Replicas (rdHeap (region s3) ! a))" using ch a by (simp add: s3 s2 setReplicas_def)
  have m3: "minReplica (region s3) = pdMinReplica" using Cons.prems(2) by (simp add: s3 s2 setReplicas_def)
  have a3: "a < length (rdHeap (region s3))" using a by (simp add: s3 s2 setReplicas_def)
  have p3: "placed s2 s3" by (rule placed_same) (simp_all add: s3)
  have w3r: "rdc_wf view ok (region s3)" using w3 by (simp add: pd_wf_def)
  have p4: "placed s3 s4" by (rule save_placed [OF w3r a3 _ p]) (simp add: m3 enough)
  have p04: "placed s s4" using placed_trans [OF placed_trans [OF p2 p3] p4] .
  have w4: "pd_wf view ok s4" using alwaysD [OF kept_setRangeDescriptors p] w3 by (simp add: pd_kept_def)
  have m4: "minReplica (region s4) = pdMinReplica" using placedD(2) [OF p04] Cons.prems(2) by simp
  have bnd: "\<forall>a \<in> set as. a < length (rdHeap (region s4))"
    using Cons.prems(3) placedD(4) [OF p04] by (auto intro: order.strict_trans2)
  note IH = Cons.IH [OF w4 m4 bnd rest]
  have a4: "a < length (rdHeap (region s4))" using placedD(4) [OF p4] a3 by (rule order.strict_trans2 [rotated])
  have "length (Replicas (rdHeap (region s3) ! a)) \<le> length (Replicas (rdHeap (region s4) ! a))"
    "length (Replicas (rdHeap (region s4) ! a)) \<le> length (Replicas (rdHeap (region s') ! a))"
    using placedD(5) [OF p4 a3] placedD(5) [OF IH [THEN conjunct1] a4] by (simp_all add: better_def)
  then have "pdMinReplica \<le> length (Replicas (rdHeap (region s') ! a))" using enough by linarith
  with IH placed_trans [OF p04] show ?case by simp
qed

end

lemma checkReplica_loop:
  assumes "checkReplica V s = (Inr (), s')" "pdMinReplica \<le> count (pcluster s)"
  obtains s1 where "region s1 = region s" "pcluster s1 = pcluster s" "delays s1 = delays s"
    "replicaLoop V (rdc_Unstable (pOrdRanges V) (region s)) s1 = (Inr (), s')"
proof (cases "storeOpen s")
  case True
  then show thesis using that [of s] assms by (simp add: checkReplica_def bindM_def)
next
  case False
  obtain r w where o: "pOpen V (net s) = (r, w)" by fastforce
  with False assms obtain u where "r = Inr u" by (cases r) (auto simp: checkReplica_def bindM_def onWorld_def)
  with False assms o that [of "s\<lparr>net := w, storeOpen := True\<rparr>"] show thesis
    by (simp add: checkReplica_def bindM_def onWorld_def)
qed

section \<open>Property\<close>

text \<open>
  C17. When the check of the replicas runs to its end on a cluster of at least three nodes, every range
  the server knows has at least three replicas. No descriptor has lost a replica, those whose replicas
  were on different nodes still have them on different nodes, and every added replica is on a node of the
  cluster. This holds in every run, whether or not the saves of the new descriptors succeed.
\<close>

theorem checkReplica_places:
  assumes "pd_env V view ok" "visits (pOrdNodes V)" "visits (pOrdRanges V)"
    and "(pdStep V)\<^sup>*\<^sup>* (NewServer V c mv k w) s" "pdMinReplica \<le> count (pcluster s)" "checkReplica V s = (Inr (), s')"
  shows "(\<forall>i rd. byId (region s') i = Some rd \<longrightarrow> 3 \<le> length (Replicas rd)) \<and>
    (\<forall>a < length (rdHeap (region s)). let r = Replicas (rdHeap (region s) ! a); r' = Replicas (rdHeap (region s') ! a) in
       length r \<le> length r' \<and> (distinct (map RepNodeID r) \<longrightarrow> distinct (map RepNodeID r')) \<and>
       (\<forall>rp \<in> set r'. RepNodeID rp \<in> RepNodeID ` set r \<or> RepNodeID rp \<in> dom (map_of (nodes (pcluster s)))))"
proof -
  note k = pd_env.kept_steps [OF assms(1,4), unfolded pd_kept_def, THEN mp, OF pd_env.wf_NewServer [OF assms(1)]]
  have w: "pd_wf view ok s" and m: "minReplica (region s) = pdMinReplica"
    using k by (simp_all add: rdc_grows_def NewServer_def NewRangeDescriptorCache_def)
  obtain s1 where s1: "region s1 = region s" "pcluster s1 = pcluster s" "delays s1 = delays s"
    "replicaLoop V (rdc_Unstable (pOrdRanges V) (region s)) s1 = (Inr (), s')" by (rule checkReplica_loop [OF assms(6,5)])
  have w1: "pd_wf view ok s1" using w by (simp add: pd_wf_def s1)
  have wr: "rdc_wf view ok (region s)" using w by (simp add: pd_wf_def)
  let ?as = "rdc_Unstable (pOrdRanges V) (region s)"
  have un: "a \<in> set ?as \<longleftrightarrow> (\<exists>i. map_of (unstable (region s)) i = Some a)" for a
    using assms(3) by (force simp: rdc_Unstable_def visits_def dom_map_of_conv_image_fst [symmetric] image_iff)
  have as: "\<forall>a \<in> set ?as. a < length (rdHeap (region s1))" using un rdc_wfD(8) [OF wr] s1 by auto
  note p = pd_env.replicaLoop_placed [OF assms(1,2) w1 _ as s1(4), unfolded s1, OF m]
  have w': "rdc_wf view ok (region s')"
    using alwaysD [OF pd_env.kept_checkReplica [OF assms(1)] assms(6)] w by (simp add: pd_kept_def pd_wf_def)
  have "3 \<le> length (Replicas rd)" if i: "byId (region s') i = Some rd" for i rd
  proof (rule ccontr)
    assume short: "\<not> 3 \<le> length (Replicas rd)"
    obtain a where a: "map_of (ranges (region s')) i = Some a" "rd = rdHeap (region s') ! a" using i by (auto simp: byId_def)
    have m': "minReplica (region s') = 3" using placedD(2) [OF p [THEN conjunct1]] s1 m by (simp add: pdMinReplica_def)
    have "map_of (unstable (region s')) i = Some a" by (rule rdc_wfD(10) [OF w' a(1)]) (use short a m' in simp)
    then have "map_of (unstable (region s)) i = Some a"
      using placedD(3) [OF p [THEN conjunct1]] s1 by (metis domI map_le_def)
    then have "a \<in> set ?as" using un by blast
    with p short a(2) show False by (auto simp: pdMinReplica_def)
  qed
  moreover have "better (\<lambda>n. n \<in> dom (map_of (nodes (pcluster s)))) (Replicas (rdHeap (region s) ! a)) (Replicas (rdHeap (region s') ! a))"
    if "a < length (rdHeap (region s))" for a
    using placedD(5) [OF p [THEN conjunct1], of a] s1 that by simp
  ultimately show ?thesis unfolding better_def Let_def by blast
qed

lemma ref_newID:
  assumes "map_of (etcdKv s) newIDPath = Some (FormatInt j)"
  shows "server_newID (ref_env msg) s = (Inr (j + 1), s\<lparr>etcdKv := (newIDPath, FormatInt (j + 1)) # etcdKv s\<rparr>)"
proof -
  have "newIDLoop (Suc 4) ref_etcd (\<lambda>k. k) 0 (etcdKv s) = (Inr (j + 1), (newIDPath, FormatInt (j + 1)) # etcdKv s)"
    unfolding newIDLoop.simps using assms by (simp add: newIDRead_def newIDWrite_def ref_eval)
  then show ?thesis by (simp add: server_newID_def newID_def onKv_def ref_env_def)
qed

lemma ref_save:
  assumes "rdc_wf map_of (\<lambda>t. distinct (map fst t)) (region s)"
  shows "\<exists>y s'. setRangeDescriptors (ref_env msg) [rd] s = (y, s') \<and> (\<forall>p. y \<noteq> Inl (Panic p))"
  using ref_ranges.rdc_Add_tables [OF assms, of "[rd]"]
  by (auto simp: setRangeDescriptors_def ref_env_def masterPut_def onKv_def onRegion_def ref_eval errLostMaster_def simp del: rdc_Add.simps)

lemma ref_check: "\<exists>s'. checkReplica (ref_env noAnswer) ref_loaded = (Inr (), s')"
proof -
  let ?V = "ref_env noAnswer" and ?s = "ref_loaded\<lparr>storeOpen := True\<rparr>"
  let ?rep = "\<lparr>RepNodeID = 9, RepReplicaID = 10\<rparr> :: ReplicaDescriptor"
  let ?kv = "(newIDPath, FormatInt 10) # etcdKv ref_loaded"
  have id: "getIdleNode (\<lambda>xs. xs) [7, 8] (pcluster ref_loaded) = Inr (ref_addr 9)"
    by (simp add: getIdleNode_def nodesInOrder_def ref_loaded_def ref_addr_def)
  have n: "server_newID ?V ?s = (Inr 10, ?s\<lparr>etcdKv := ?kv\<rparr>)"
    using ref_newID [of ?s 9 noAnswer] by (simp add: ref_loaded_def ref_kv_def)
  have o: "pOrdNodes ?V = (\<lambda>xs. xs)" "pOrdRanges ?V = (\<lambda>xs. xs)" "pOpen ?V = ret ()" by (simp_all add: ref_env_def)
  have c: "chooseReplicas ?V (Suc 0) [7, 8] ?s = (Inr [?rep], ?s\<lparr>etcdKv := ?kv\<rparr>)"
    by (simp add: o id n bindM_def) (simp add: ref_addr_def)
  define s2 where "s2 = ?s\<lparr>etcdKv := ?kv, region := setReplicas 0 (Replicas ref_short @ [?rep]) (region ref_loaded)\<rparr>"
  have "pd_wf map_of (\<lambda>t. distinct (map fst t)) ref_loaded"
    using ref_pd.kept_steps [OF ref_loaded_run] ref_pd.wf_NewServer by (simp add: pd_kept_def)
  then have "rdc_wf map_of (\<lambda>t. distinct (map fst t)) (region s2)"
    using ref_ranges.setReplicas_kept [of "region ref_loaded" 0 "Replicas ref_short @ [?rep]"]
    by (simp add: s2_def pd_wf_def ref_loaded_def)
  then have "rdc_wf map_of (\<lambda>t. distinct (map fst t)) (region (createReplicas ?V 0 [?rep] s2))"
    using createReplicas_net [of ?V 0 "[?rep]" s2] by simp
  from ref_save [OF this] obtain y s4 where
    y: "setRangeDescriptors ?V [rdHeap (region (createReplicas ?V 0 [?rep] s2)) ! 0] (createReplicas ?V 0 [?rep] s2) = (y, s4)"
    "\<forall>p. y \<noteq> Inl (Panic p)" by blast
  have h: "region ?s = region ref_loaded" "region (?s\<lparr>etcdKv := ?kv\<rparr>) = region ref_loaded"
    "rdHeap (region ref_loaded) ! 0 = ref_short" by (simp_all add: ref_loaded_def)
  have sh: "map RepNodeID (Replicas ref_short) = [7, 8]" "pdMinReplica - length [7, 8 :: int32] = Suc 0"
    by (simp_all add: ref_short_def pdMinReplica_def)
  have "replicaLoop ?V [0] ?s = (case (y, s4) of (Inl (Panic p), s) \<Rightarrow> (Inl (Panic p), s) | (_, s) \<Rightarrow> replicaLoop ?V [] s)"
    by (simp only: replicaLoop.simps(2) Let_def h sh c prod.case sum.case s2_def [symmetric] y)
  then have "replicaLoop ?V [0] ?s = (Inr (), s4)" using y(2) by (auto split: sum.splits error.splits)
  moreover have "pdMinReplica \<le> count (pcluster ref_loaded)" by (simp add: pdMinReplica_def count_def ref_loaded_def)
  moreover have "rdc_Unstable (\<lambda>xs. xs) (region ?s) = [0]" "\<not> storeOpen ref_loaded" by (simp_all add: rdc_Unstable_def ref_loaded_def)
  ultimately show ?thesis by (simp add: checkReplica_def bindM_def onWorld_def o)
qed

theorem checkReplica_places_witness:
  "\<exists>s' rd. checkReplica (ref_env noAnswer) ref_loaded = (Inr (), s') \<and> length (Replicas (rdHeap (region ref_loaded) ! 0)) = 2 \<and>
     byId (region s') 1 = Some rd \<and> 3 \<le> length (Replicas rd)"
proof -
  obtain s' where s': "checkReplica (ref_env noAnswer) ref_loaded = (Inr (), s')" using ref_check by blast
  have v: "visits (pOrdNodes (ref_env noAnswer))" "visits (pOrdRanges (ref_env noAnswer))"
    "pdMinReplica \<le> count (pcluster ref_loaded)"
    by (simp_all add: visits_def ref_env_def pdMinReplica_def count_def ref_loaded_def)
  have "rdc_grows (region ref_loaded) (region s')"
    using alwaysD [OF ref_pd.kept_checkReplica s'] ref_pd.kept_steps [OF ref_loaded_run] ref_pd.wf_NewServer by (simp add: pd_kept_def)
  then have "1 \<in> dom (map_of (ranges (region s')))" by (auto simp: rdc_grows_def ref_loaded_def)
  then obtain rd where "byId (region s') 1 = Some rd" by (auto simp: byId_def)
  with checkReplica_places [OF ref_pd.pd_env_axioms v(1,2) ref_loaded_run v(3) s'] s' show ?thesis
    by (intro exI [of _ s'] exI [of _ rd]) (auto simp: ref_loaded_def ref_short_def)
qed

end
