(* ===== verification/Spec2Isabelle.thy ===== *)
theory Spec2Isabelle
  imports NodeProps PdReplicas
begin

text \<open>
  A model of \<^verbatim>\<open>ancestor\<close>, a distributed transactional key-value store: storage nodes keep
  multi-version data in badger behind raft replicas (\<^verbatim>\<open>src/storage\<close>), a placement driver hands out
  timestamps and ids and balances ranges (\<^verbatim>\<open>src/pd\<close>), and a client library runs snapshot-isolated
  transactions over both (\<^verbatim>\<open>src/client\<close>).
\<close>

end
